(* ===== verification/Prelude.thy ===== *)
theory Prelude
  imports Main "HOL-Library.Word" "HOL-Library.Signed_Division"
begin

text \<open>
  Shared vocabulary of the development: Go's machine integers, the instants and durations of
  package \<open>time\<close>, and the generic lemmas on lists that the component theories rest on.

  A Go \<open>int64\<close> is an \<open>int\<close> kept in range by \<open>wrap64\<close>, which is applied wherever the source
  adds, multiplies or negates values it does not itself bound. A Go \<open>uint64\<close> identifier is a
  \<open>nat\<close>. An instant is a number of nanoseconds since the Unix epoch, a duration a number of
  nanoseconds.
\<close>

section \<open>Proof collections\<close>

named_theorems wp_rules \<open>equations that compute the weakest precondition of a program\<close>
named_theorems rel_rules \<open>introduction rules for relations between the worlds before and after\<close>
named_theorems sum_rules \<open>how the sums kept by an invariant change with one table update\<close>

section \<open>Machine integers\<close>

definition wrap64 :: "int \<Rightarrow> int" where
  "wrap64 x = (x + 2 ^ 63) mod 2 ^ 64 - 2 ^ 63"

definition i64 :: "int \<Rightarrow> bool" where
  "i64 x \<longleftrightarrow> - (2 ^ 63) \<le> x \<and> x < 2 ^ 63"

lemma wrap64_id [simp]: "i64 x \<Longrightarrow> wrap64 x = x"
  by (simp add: wrap64_def i64_def)

lemma i64_wrap64 [simp]: "i64 (wrap64 x)"
proof -
  have "0 \<le> (x + 2 ^ 63) mod 2 ^ 64 \<and> (x + 2 ^ 63) mod 2 ^ 64 < 2 ^ 64"
    by simp
  then show ?thesis by (simp add: wrap64_def i64_def)
qed

lemma wrap64_word: "wrap64 x = sint (word_of_int x :: 64 word)"
  by (simp add: wrap64_def sint_word_ariths signed_take_bit_eq_take_bit_shift take_bit_eq_mod
      word_of_int_eq_iff signed_of_int add.commute)

lemma wrap64_le: "- (2 ^ 63) \<le> x \<Longrightarrow> wrap64 x \<le> x"
proof -
  assume "- (2 ^ 63) \<le> x"
  then have "(x + 2 ^ 63) mod 2 ^ 64 \<le> x + 2 ^ 63"
    by (intro zmod_le_nonneg_dividend) simp
  then show ?thesis by (simp add: wrap64_def)
qed

lemma wrap64_add_left: "wrap64 (wrap64 x + y) = wrap64 (x + y)"
proof -
  have "((x + 2 ^ 63) mod 2 ^ 64 + y) mod 2 ^ 64 = (x + 2 ^ 63 + y) mod 2 ^ 64"
    by (rule mod_add_left_eq)
  moreover have "wrap64 x + y + 2 ^ 63 = (x + 2 ^ 63) mod 2 ^ 64 + y"
    by (simp add: wrap64_def)
  moreover have "x + 2 ^ 63 + y = x + y + 2 ^ 63"
    by simp
  ultimately show ?thesis
    by (metis wrap64_def)
qed

lemma wrap64_mod: "wrap64 x mod 2 ^ 64 = x mod 2 ^ 64"
proof -
  have "((x + 2 ^ 63) mod 2 ^ 64 - 2 ^ 63) mod 2 ^ 64 = (x + 2 ^ 63 - 2 ^ 63) mod 2 ^ 64"
    by (rule mod_diff_left_eq)
  then show ?thesis by (simp only: wrap64_def add_diff_cancel_right')
qed

lemma wrap64_cong: "x mod 2 ^ 64 = y mod 2 ^ 64 \<Longrightarrow> wrap64 x = wrap64 y"
  unfolding wrap64_def by (metis mod_add_left_eq)

lemma wrap64_mult_add: "wrap64 (wrap64 x * k + y) = wrap64 (x * k + y)"
proof (rule wrap64_cong)
  have "(wrap64 x * k) mod 2 ^ 64 = (x * k) mod 2 ^ 64"
    by (rule mod_mult_cong [OF wrap64_mod refl])
  then show "(wrap64 x * k + y) mod 2 ^ 64 = (x * k + y) mod 2 ^ 64"
    by (rule mod_add_cong) simp
qed

lemma wrap64_uminus: "wrap64 (- wrap64 x) = wrap64 (- x)"
  by (rule wrap64_cong) (metis mod_minus_eq wrap64_mod)

lemma i64I: "- 9223372036854775808 \<le> x \<Longrightarrow> x < 9223372036854775808 \<Longrightarrow> i64 x"
  by (simp add: i64_def)

section \<open>Instants and durations\<close>

type_synonym instant = int
type_synonym duration = int

abbreviation Second :: duration where "Second \<equiv> 1000000000"
abbreviation Minute :: duration where "Minute \<equiv> 60000000000"
abbreviation Hour :: duration where "Hour \<equiv> 3600000000000"

section \<open>Lists\<close>

text \<open>SQL's \<open>LIMIT n OFFSET m\<close> on a result list.\<close>

definition page :: "nat \<Rightarrow> nat \<Rightarrow> 'a list \<Rightarrow> 'a list" where
  "page limit offset xs = take limit (drop offset xs)"

lemma set_page: "set (page n m xs) \<subseteq> set xs"
  by (metis page_def set_drop_subset set_take_subset subset_trans)

lemma length_page: "length (page n m xs) \<le> n"
  by (simp add: page_def)

lemma page_0: "page n 0 xs = take n xs"
  by (simp add: page_def)

text \<open>\<open>ORDER BY id DESC\<close>.\<close>

definition newest :: "('a \<Rightarrow> nat) \<Rightarrow> ('a \<Rightarrow> bool) \<Rightarrow> 'a list \<Rightarrow> 'a list" where
  "newest key p xs = rev (sort_key key (filter p xs))"

lemma set_newest [simp]: "set (newest key p xs) = {x \<in> set xs. p x}"
  by (simp add: newest_def)

lemma sorted_newest: "sorted_wrt (\<lambda>x y. key y \<le> key x) (newest key p xs)"
  unfolding newest_def sorted_wrt_rev
  using sorted_sort_key [of key "filter p xs"] unfolding sorted_map .

text \<open>An \<open>UPDATE ... WHERE\<close> on a table held as a list of rows.\<close>

definition update_where :: "('r \<Rightarrow> bool) \<Rightarrow> ('r \<Rightarrow> 'r) \<Rightarrow> 'r list \<Rightarrow> 'r list" where
  "update_where p f rows = map (\<lambda>r. if p r then f r else r) rows"

lemma update_where_simps [simp]:
  "update_where p f [] = []"
  "update_where p f (r # rs) = (if p r then f r else r) # update_where p f rs"
  by (simp_all add: update_where_def)

lemma update_where_append [simp]:
  "update_where p f (rs @ qs) = update_where p f rs @ update_where p f qs"
  by (simp add: update_where_def)

lemma set_update_where: "set (update_where p f rs) = (\<lambda>r. if p r then f r else r) ` set rs"
  by (simp add: update_where_def)

lemma in_update_where: "x \<in> set rs \<Longrightarrow> (if p x then f x else x) \<in> set (update_where p f rs)"
  by (auto simp: set_update_where)

lemma map_update_where:
  "(\<And>r. p r \<Longrightarrow> g (f r) = g r) \<Longrightarrow> map g (update_where p f rs) = map g rs"
  by (induction rs) auto

lemma update_where_none: "(\<And>r. r \<in> set rs \<Longrightarrow> \<not> p r) \<Longrightarrow> update_where p f rs = rs"
  by (induction rs) auto

lemma length_update_where [simp]: "length (update_where p f rs) = length rs"
  by (simp add: update_where_def)

lemma sum_list_append_one: "sum_list (map f (xs @ [x])) = sum_list (map f xs) + (f x :: int)"
  by simp

lemma sum_list_filter_if:
  "sum_list (map f (filter p xs)) = sum_list (map (\<lambda>x. if p x then f x else (0::int)) xs)"
  by (induction xs) auto

lemma sum_list_nonneg_int: "(\<And>x. x \<in> set xs \<Longrightarrow> 0 \<le> f x) \<Longrightarrow> 0 \<le> sum_list (map f xs :: int list)"
  by (induction xs) auto

lemma sum_list_distinct_unique:
  fixes f :: "'a \<Rightarrow> int"
  assumes "distinct (map key xs)" "x \<in> set xs"
  shows "sum_list (map (\<lambda>y. if key y = key x then f y else 0) xs) = f x"
  using assms
proof (induction xs)
  case Nil
  then show ?case by simp
next
  case (Cons a xs)
  show ?case
  proof (cases "a = x")
    case True
    with Cons.prems have "\<forall>y \<in> set xs. key y \<noteq> key x"
      by (auto simp: image_iff)
    then have zero: "map (\<lambda>y. if key y = key x then f y else 0) xs = map (\<lambda>_. 0) xs"
      by simp
    have "sum_list (map (\<lambda>y. if key y = key x then f y else 0) xs) = 0"
      unfolding zero by simp
    with True show ?thesis by simp
  next
    case False
    with Cons show ?thesis by force
  qed
qed

lemma sum_update_where_unique:
  fixes g :: "'a \<Rightarrow> int"
  assumes "distinct (map key xs)" "x \<in> set xs"
  shows "(\<Sum>y\<leftarrow>update_where (\<lambda>y. key y = key x) f xs. g y) = (\<Sum>y\<leftarrow>xs. g y) - g x + g (f x)"
  using assms
proof (induction xs)
  case (Cons a xs)
  show ?case
  proof (cases "a = x")
    case True
    with Cons.prems have "update_where (\<lambda>y. key y = key x) f xs = xs"
      by (intro update_where_none) (auto simp: image_iff)
    with True show ?thesis by simp
  next
    case False
    with Cons.prems have "x \<in> set xs" "key a \<noteq> key x" by auto
    with Cons show ?thesis by simp
  qed
qed simp

lemma distinct_map_inj_eq:
  "distinct (map key xs) \<Longrightarrow> x \<in> set xs \<Longrightarrow> y \<in> set xs \<Longrightarrow> key x = key y \<Longrightarrow> x = y"
  by (auto simp: distinct_map inj_on_def)

lemma find_Some_in: "find p xs = Some x \<Longrightarrow> x \<in> set xs \<and> p x"
  by (metis find_Some_iff nth_mem)

lemma find_None_all: "find p xs = None \<Longrightarrow> x \<in> set xs \<Longrightarrow> \<not> p x"
  by (simp add: find_None_iff)

end
