(* ===== verification/Tx.thy ===== *)
theory Tx
  imports Prelude
begin

text \<open>
  How the services run against their environment.

  A service operation is a function from a \<open>world\<close> to a result and the next world; a result is
  \<open>Inl\<close> of a Go \<open>error\<close> or \<open>Inr\<close> of the returned value. The world holds the database tables
  and everything else the code reads from outside, each as a source that may answer anything:
  the clock (\<open>time.Now\<close>), the random source (\<open>crypto/rand\<close>, which may fail) and the failures
  of the database driver (any statement, \<open>BEGIN\<close> and \<open>COMMIT\<close> may fail). Each source is a
  function of the number of readings made so far, so theorems that quantify over the world
  quantify over every such behaviour. \<open>AUTO_INCREMENT\<close> counters live outside the tables: as
  in InnoDB, a rollback does not give an identifier back. \<open>GeneratedComments\<close> is no table: its counter
  is the last comment identifier the process has generated. Calls to other services are appended
  to \<open>calls\<close>, in the order they are made.
\<close>

section \<open>Errors\<close>

text \<open>
  The sentinel errors of the packages, as \<open>errors.Is\<close> distinguishes them. A driver error is
  either a failure or a unique-key violation, which is what the \<open>isDuplicateKey\<close> functions
  test. \<open>ErrOther\<close> stands for the remaining \<open>fmt.Errorf\<close> errors.
\<close>

datatype err =
    DbFault
  | DbDuplicate
  | RandFault
  | ErrOther
  | ErrInvalidAmount
  | ErrInsufficient
  | ErrTipSelf
  | ErrTipTooFrequent
  | ErrAlreadyClaimed
  | ErrOrderNotFound
  | ErrOrderNotOwned
  | ErrVideoNotTippable
  | ErrNotifyInvalid
  | ErrInvalidPayMethod
  | ErrStripeNotConfigured
  | ErrStripeCall
  | ErrInvoiceKind
  | ErrInvoiceTitle
  | ErrInvoiceTaxID
  | ErrInvoiceEmail
  | ErrInvoiceHeader
  | ErrPaidOrderNotFound
  | ErrAlreadyIssued
  | ErrInvoiceNotFound
  | ErrNotOwner
  | ErrVideoNotFound
  | ErrAlreadyLiked
  | ErrLikeNotFound
  | ErrAlreadyFollowed
  | ErrFollowNotFound
  | ErrCannotFollowSelf
  | ErrAccountNotFound
  | ErrAlreadyProcessed
  | ErrNotDraft
  | ErrDraftLimitReached
  | ErrCannotUnpublish
  | ErrCannotRelist
  | ErrInvalidCursor
  | ErrCommentNotFound
  | ErrCommentForbidden
  | ErrInvalidParentComment
  | ErrParentCommentMismatch
  | ErrTargetNotFound
  | ErrNotReviewable
  | ErrNotReviewer
  | ErrShareCodeUnsupported
  | ErrInvalidShareCode
  | ErrShareTextTooLong
  | ErrShareCodeNotFound
  | ErrInvalidPlayURL
  | ErrInvalidCoverURL
  | ErrIdempotencyKeyRequired
  | ErrIdempotencyKeyTooLong
  | ErrIdempotencyConflict
  | ErrIdempotencyBusy
  | ErrPublish
  | ErrContentNotFound
  | ErrSelfReport
  | ErrInvalidReason
  | ErrDetailRequired
  | ErrDetailTooLong
  | ErrAlreadyReported
  | ErrInvalidAction
  | ErrNothingPending
  | ErrEmptyBody
  | ErrBodyTooLong
  | ErrSelf
  | ErrPeerMissing
  | ErrQuotaExceeded
  | ErrPeerRequired
  | ErrEmptyContent
  | ErrContentTooLong
  | ErrInvalidOffset
  | ErrInvalidProgress
  | ErrInvalidStatus
  | ErrTooManyIDs

section \<open>Worlds and programs\<close>

text \<open>The tables with an \<open>AUTO_INCREMENT\<close> key that the modelled code inserts into.\<close>

datatype table =
    WalletLots
  | WalletLedgers
  | WalletDailyActions
  | WalletRechargeOrders
  | WalletTips
  | WalletPlatformEntries
  | Invoices
  | Notifications
  | OutboxMessages
  | Accounts
  | Videos
  | VideoLikes
  | SocialRelations
  | VideoComments
  | GeneratedComments
  | AuditRecords
  | IdempotencyKeys
  | Reports
  | Conversations
  | Messages
  | Danmaku
  | WatchHistories

datatype ext_call =
    PopularityRecord nat int instant
  | InvalidateUser nat
  | DetailCacheDelete nat
  | DetailCacheSetNotFound nat
  | PublishInvalidated nat
  | PublishFollow nat nat
  | PublishUnfollow nat nat
  | PublishComment nat
  | PublishCommentDeleted nat nat
  | PublishPopularity nat int
  | FollowingCacheDelete nat
  | InboxClearActive nat
  | LocalDetailDelete nat
  | LocalDetailSetNotFound nat
  | Delivered nat

record 's world =
  tabs :: 's
  seqs :: "table \<Rightarrow> nat"
  clock :: "nat \<Rightarrow> instant"
  ticks :: nat
  rands :: "nat \<Rightarrow> nat option"
  draws :: nat
  faults :: "nat \<Rightarrow> bool"
  stmts :: nat
  calls :: "ext_call list"

type_synonym ('s, 'a) tx = "'s world \<Rightarrow> (err + 'a) \<times> 's world"

definition ret :: "'a \<Rightarrow> ('s, 'a) tx" where
  "ret x w = (Inr x, w)"

definition throw :: "err \<Rightarrow> ('s, 'a) tx" where
  "throw e w = (Inl e, w)"

definition bnd :: "('s, 'a) tx \<Rightarrow> ('a \<Rightarrow> ('s, 'b) tx) \<Rightarrow> ('s, 'b) tx" where
  "bnd m f w = (case m w of (Inl e, w') \<Rightarrow> (Inl e, w') | (Inr x, w') \<Rightarrow> f x w')"

lemma bnd_assoc: "bnd (bnd m f) g = bnd m (\<lambda>x. bnd (f x) g)"
  by (rule ext) (simp add: bnd_def split: prod.split sum.split)

text \<open>\<open>err := f(); ...\<close>: the error is a value the caller looks at.\<close>

definition result_of :: "('s, 'a) tx \<Rightarrow> ('s, err + 'a) tx" where
  "result_of m w = (case m w of (r, w') \<Rightarrow> (Inr r, w'))"

definition lift :: "err + 'a \<Rightarrow> ('s, 'a) tx" where
  "lift r w = (r, w)"

definition read_now :: "('s, instant) tx" where
  "read_now w = (Inr (clock w (ticks w)), w\<lparr>ticks := Suc (ticks w)\<rparr>)"

definition rand_read :: "('s, nat) tx" where
  "rand_read w = (case rands w (draws w) of
      None \<Rightarrow> (Inl RandFault, w\<lparr>draws := Suc (draws w)\<rparr>)
    | Some n \<Rightarrow> (Inr n, w\<lparr>draws := Suc (draws w)\<rparr>))"

definition call :: "ext_call \<Rightarrow> ('s, unit) tx" where
  "call c w = (Inr (), w\<lparr>calls := calls w @ [c]\<rparr>)"

section \<open>Statements\<close>

definition next_stmt :: "'s world \<Rightarrow> 's world" where
  "next_stmt w = w\<lparr>stmts := Suc (stmts w)\<rparr>"

text \<open>A \<open>SELECT\<close>, an \<open>UPDATE\<close> or \<open>DELETE\<close>, and an \<open>INSERT\<close> of a row built from its new
  identifier; \<open>dup\<close> says that a row would violate one of the table's unique keys.\<close>

definition query :: "('s \<Rightarrow> 'a) \<Rightarrow> ('s, 'a) tx" where
  "query f w = (if faults w (stmts w) then (Inl DbFault, next_stmt w)
                else (Inr (f (tabs w)), next_stmt w))"

definition exec :: "('s \<Rightarrow> 's) \<Rightarrow> ('s, unit) tx" where
  "exec f w = (if faults w (stmts w) then (Inl DbFault, next_stmt w)
               else (Inr (), (next_stmt w)\<lparr>tabs := f (tabs w)\<rparr>))"

text \<open>An \<open>UPDATE\<close> or \<open>DELETE\<close> whose number of affected rows the code reads.\<close>

definition exec_count :: "('s \<Rightarrow> nat) \<Rightarrow> ('s \<Rightarrow> 's) \<Rightarrow> ('s, nat) tx" where
  "exec_count n f w = (if faults w (stmts w) then (Inl DbFault, next_stmt w)
               else (Inr (n (tabs w)), (next_stmt w)\<lparr>tabs := f (tabs w)\<rparr>))"

definition create :: "table \<Rightarrow> (nat \<Rightarrow> 's \<Rightarrow> bool) \<Rightarrow> (nat \<Rightarrow> 's \<Rightarrow> 's) \<Rightarrow> ('s, nat) tx" where
  "create t dup ins w = (let i = Suc (seqs w t); w1 = next_stmt w in
     if faults w (stmts w) then (Inl DbFault, w1)
     else if dup i (tabs w) then (Inl DbDuplicate, w1\<lparr>seqs := (seqs w)(t := i)\<rparr>)
     else (Inr i, w1\<lparr>seqs := (seqs w)(t := i), tabs := ins i (tabs w)\<rparr>))"

text \<open>An \<open>INSERT\<close> of a row that brings its identifier; the counter never falls behind it.\<close>

definition create_at :: "table \<Rightarrow> nat \<Rightarrow> ('s \<Rightarrow> bool) \<Rightarrow> ('s \<Rightarrow> 's) \<Rightarrow> ('s, unit) tx" where
  "create_at t i dup ins w = (let w1 = next_stmt w in
     if faults w (stmts w) then (Inl DbFault, w1)
     else if dup (tabs w) then (Inl DbDuplicate, w1)
     else (Inr (), w1\<lparr>seqs := (seqs w)(t := max (seqs w t) i), tabs := ins (tabs w)\<rparr>))"

text \<open>A counter of the process: the next value is at least \<open>k\<close> and above every earlier one.\<close>

definition raise_seq :: "table \<Rightarrow> nat \<Rightarrow> ('s, nat) tx" where
  "raise_seq t k w = (let n = max k (Suc (seqs w t)) in (Inr n, w\<lparr>seqs := (seqs w)(t := n)\<rparr>))"

text \<open>An \<open>UPDATE\<close> that may violate a unique key.\<close>

definition exec_unique :: "('s \<Rightarrow> bool) \<Rightarrow> ('s \<Rightarrow> 's) \<Rightarrow> ('s, unit) tx" where
  "exec_unique dup f w = (if faults w (stmts w) then (Inl DbFault, next_stmt w)
     else if dup (tabs w) then (Inl DbDuplicate, next_stmt w)
     else (Inr (), (next_stmt w)\<lparr>tabs := f (tabs w)\<rparr>))"

abbreviation no_dup :: "nat \<Rightarrow> 's \<Rightarrow> bool" where
  "no_dup \<equiv> \<lambda>_ _. False"

text \<open>\<open>db.Transaction(fn)\<close>: \<open>BEGIN\<close>, the body, then \<open>COMMIT\<close>; an error of any of the three
  leaves the tables as they were.\<close>

definition transaction :: "('s, 'a) tx \<Rightarrow> ('s, 'a) tx" where
  "transaction m w =
    (if faults w (stmts w) then (Inl DbFault, next_stmt w)
     else (case m (next_stmt w) of
         (Inl e, w') \<Rightarrow> (Inl e, w'\<lparr>tabs := tabs w\<rparr>)
       | (Inr x, w') \<Rightarrow>
           if faults w' (stmts w') then (Inl DbFault, (next_stmt w')\<lparr>tabs := tabs w\<rparr>)
           else (Inr x, next_stmt w')))"

text \<open>A \<open>for range\<close> loop whose body may return an error.\<close>

fun each :: "('a \<Rightarrow> ('s, unit) tx) \<Rightarrow> 'a list \<Rightarrow> ('s, unit) tx" where
  "each f [] = ret ()"
| "each f (x # xs) = bnd (f x) (\<lambda>_. each f xs)"

text \<open>\<open>if cond \{ return err \}\<close> and \<open>if cond \{ m \}\<close>.\<close>

abbreviation fail_if :: "bool \<Rightarrow> err \<Rightarrow> ('s, 'a) tx \<Rightarrow> ('s, 'a) tx" where
  "fail_if b e m \<equiv> (if b then throw e else m)"

abbreviation whenever :: "bool \<Rightarrow> ('s, unit) tx \<Rightarrow> ('s, unit) tx" where
  "whenever b m \<equiv> (if b then m else ret ())"

text \<open>An error the code logs and drops: \<open>_ = f()\<close>.\<close>

definition ignore :: "('s, 'a) tx \<Rightarrow> ('s, unit) tx" where
  "ignore m = bnd (result_of m) (\<lambda>_. ret ())"

section \<open>Weakest preconditions\<close>

definition wp :: "('s, 'a) tx \<Rightarrow> ('a \<Rightarrow> 's world \<Rightarrow> bool) \<Rightarrow> (err \<Rightarrow> 's world \<Rightarrow> bool) \<Rightarrow> 's world \<Rightarrow> bool" where
  "wp m Q E w = (case m w of (Inl e, w') \<Rightarrow> E e w' | (Inr x, w') \<Rightarrow> Q x w')"

lemma wpI:
  "(\<And>x w'. m w = (Inr x, w') \<Longrightarrow> Q x w') \<Longrightarrow> (\<And>e w'. m w = (Inl e, w') \<Longrightarrow> E e w') \<Longrightarrow> wp m Q E w"
  by (auto simp: wp_def split: prod.split sum.split)

lemma wp_ok: "wp m Q E w \<Longrightarrow> m w = (Inr x, w') \<Longrightarrow> Q x w'"
  by (simp add: wp_def)

lemma wp_err: "wp m Q E w \<Longrightarrow> m w = (Inl e, w') \<Longrightarrow> E e w'"
  by (simp add: wp_def)

lemma wp_mono:
  "wp m Q E w \<Longrightarrow> (\<And>x w'. Q x w' \<Longrightarrow> Q' x w') \<Longrightarrow> (\<And>e w'. E e w' \<Longrightarrow> E' e w') \<Longrightarrow> wp m Q' E' w"
  by (auto simp: wp_def split: prod.splits sum.splits)

lemma wp_conj:
  "wp m Q E w \<Longrightarrow> wp m Q' E' w \<Longrightarrow> wp m (\<lambda>x w'. Q x w' \<and> Q' x w') (\<lambda>e w'. E e w' \<and> E' e w') w"
  by (auto simp: wp_def split: prod.splits sum.splits)

lemma wp_True [simp]: "wp m (\<lambda>_ _. True) (\<lambda>_ _. True) w"
  by (simp add: wp_def split: prod.splits sum.splits)

lemma wp_basic [wp_rules]:
  "wp (ret x) Q E = Q x"
  "wp (throw e) Q E = E e"
  "wp (lift r) Q E w = (case r of Inl e \<Rightarrow> E e w | Inr x \<Rightarrow> Q x w)"
  "wp (call c) P E w = P () (w\<lparr>calls := calls w @ [c]\<rparr>)"
  "wp read_now R E w = R (clock w (ticks w)) (w\<lparr>ticks := Suc (ticks w)\<rparr>)"
  by (simp_all add: fun_eq_iff wp_def ret_def throw_def lift_def call_def read_now_def split: sum.split)

lemma wp_bnd [wp_rules]: "wp (bnd m f) Q E w = wp m (\<lambda>x. wp (f x) Q E) E w"
  by (auto simp: wp_def bnd_def split: prod.split sum.split)

lemma wp_and_then:
  assumes "wp m P (\<lambda>_ _. True) w" "\<And>x w'. P x w' \<Longrightarrow> wp (f x) Q (\<lambda>_ _. True) w'"
  shows "wp (bnd m f) Q (\<lambda>_ _. True) w"
  using assms(1) by (auto simp: wp_bnd elim!: wp_mono intro: assms(2))

lemma wp_result_of [wp_rules]: "wp (result_of m) Q E w = wp m (\<lambda>x. Q (Inr x)) (\<lambda>e. Q (Inl e)) w"
  by (auto simp: wp_def result_of_def split: prod.split sum.split)

lemma wp_ignore [wp_rules]: "wp (ignore m) Q E w = wp m (\<lambda>_. Q ()) (\<lambda>_. Q ()) w"
  by (auto simp: wp_def ignore_def bnd_def result_of_def ret_def split: prod.split sum.split)

lemma wp_if [wp_rules]: "wp (if b then m else n) Q E w = (if b then wp m Q E w else wp n Q E w)"
  by simp

lemma wp_option [wp_rules]:
  "wp (case x of None \<Rightarrow> m | Some y \<Rightarrow> f y) Q E w =
     (case x of None \<Rightarrow> wp m Q E w | Some y \<Rightarrow> wp (f y) Q E w)"
  by (simp split: option.split)

lemma wp_sum [wp_rules]:
  "wp (case r of Inl e \<Rightarrow> g e | Inr y \<Rightarrow> f y) Q E w =
     (case r of Inl e \<Rightarrow> wp (g e) Q E w | Inr y \<Rightarrow> wp (f y) Q E w)"
  by (simp split: sum.split)

lemma wp_prod [wp_rules]: "wp (case p of (a, b) \<Rightarrow> f a b) Q E w = (case p of (a, b) \<Rightarrow> wp (f a b) Q E w)"
  by (simp split: prod.split)

lemma wp_rand_read [wp_rules]:
  "wp rand_read Q E w = (case rands w (draws w) of
      None \<Rightarrow> E RandFault (w\<lparr>draws := Suc (draws w)\<rparr>)
    | Some n \<Rightarrow> Q n (w\<lparr>draws := Suc (draws w)\<rparr>))"
  by (simp add: wp_def rand_read_def split: option.split)

lemma wp_stmt [wp_rules]:
  "wp (query f) Q E w = (if faults w (stmts w) then E DbFault (next_stmt w)
     else Q (f (tabs w)) (next_stmt w))"
  "wp (exec g) R E w = (if faults w (stmts w) then E DbFault (next_stmt w)
     else R () ((next_stmt w)\<lparr>tabs := g (tabs w)\<rparr>))"
  "wp (exec_count n g) S E w = (if faults w (stmts w) then E DbFault (next_stmt w)
     else S (n (tabs w)) ((next_stmt w)\<lparr>tabs := g (tabs w)\<rparr>))"
  "wp (exec_unique dup g) U E w = (if faults w (stmts w) then E DbFault (next_stmt w)
     else if dup (tabs w) then E DbDuplicate (next_stmt w)
     else U () ((next_stmt w)\<lparr>tabs := g (tabs w)\<rparr>))"
  by (simp_all add: wp_def query_def exec_def exec_count_def exec_unique_def)

lemma wp_create [wp_rules]:
  "wp (create t dup ins) Q E w = (let i = Suc (seqs w t); w1 = next_stmt w in
     if faults w (stmts w) then E DbFault w1
     else if dup i (tabs w) then E DbDuplicate (w1\<lparr>seqs := (seqs w)(t := i)\<rparr>)
     else Q i (w1\<lparr>seqs := (seqs w)(t := i), tabs := ins i (tabs w)\<rparr>))"
  by (simp add: wp_def create_def Let_def)

lemma wp_create_at [wp_rules]:
  "wp (create_at t i dup ins) Q E w = (if faults w (stmts w) then E DbFault (next_stmt w)
     else if dup (tabs w) then E DbDuplicate (next_stmt w)
     else Q () ((next_stmt w)\<lparr>seqs := (seqs w)(t := max (seqs w t) i), tabs := ins (tabs w)\<rparr>))"
  by (simp add: wp_def create_at_def Let_def)

lemma wp_raise_seq [wp_rules]:
  "wp (raise_seq t k) Q E w = (let n = max k (Suc (seqs w t)) in Q n (w\<lparr>seqs := (seqs w)(t := n)\<rparr>))"
  by (simp add: wp_def raise_seq_def Let_def)

lemma wp_transaction:
  "wp (transaction m) Q E w = (if faults w (stmts w) then E DbFault (next_stmt w)
     else wp m
       (\<lambda>x w'. if faults w' (stmts w') then E DbFault ((next_stmt w')\<lparr>tabs := tabs w\<rparr>)
               else Q x (next_stmt w'))
       (\<lambda>e w'. E e (w'\<lparr>tabs := tabs w\<rparr>)) (next_stmt w))"
  by (auto simp: wp_def transaction_def split: prod.split sum.split)

lemma next_stmt_sel [simp]:
  "tabs (next_stmt w) = tabs w" "seqs (next_stmt w) = seqs w" "clock (next_stmt w) = clock w"
  "ticks (next_stmt w) = ticks w" "rands (next_stmt w) = rands w" "draws (next_stmt w) = draws w"
  "faults (next_stmt w) = faults w" "stmts (next_stmt w) = Suc (stmts w)"
  "calls (next_stmt w) = calls w"
  by (simp_all add: next_stmt_def)

lemma transaction_rolls_back: "transaction m w = (Inl e, w') \<Longrightarrow> tabs w' = tabs w"
  by (auto simp: transaction_def split: if_splits prod.splits sum.splits)

text \<open>What holds after a successful body holds after a successful transaction, for facts that
  only the tables and the sources other than the statement counter decide.\<close>

lemma wp_transactionI:
  assumes "wp m (\<lambda>x w'. Q x (next_stmt w')) (\<lambda>_ _. True) (next_stmt w)"
    and "\<And>e w'. tabs w' = tabs w \<Longrightarrow> E e w'"
  shows "wp (transaction m) Q E w"
  using assms by (auto simp: wp_def transaction_def split: prod.splits sum.splits)

section \<open>Relations between the worlds before and after\<close>

text \<open>\<open>steps R m\<close>: whatever \<open>m\<close> answers, the world it leaves is related to the one it got. The
  locale is the contract under which this can be proved statement by statement: \<open>R\<close> is a
  preorder, it ignores the sources, lets the counters grow, and survives a rollback.\<close>

definition steps :: "('s world \<Rightarrow> 's world \<Rightarrow> bool) \<Rightarrow> ('s, 'a) tx \<Rightarrow> bool" where
  "steps R m \<longleftrightarrow> (\<forall>w. R w (snd (m w)))"

locale world_rel =
  fixes R :: "'s world \<Rightarrow> 's world \<Rightarrow> bool"
  assumes env: "tabs w' = tabs w \<Longrightarrow> (\<forall>t. seqs w t \<le> seqs w' t) \<Longrightarrow> R w w'"
    and trans: "R u v \<Longrightarrow> R v w \<Longrightarrow> R u w"
    and rollback: "R w w' \<Longrightarrow> R w (w'\<lparr>tabs := tabs w\<rparr>)"
begin

lemma steps_env [rel_rules]:
  "steps R (ret x)" "steps R (throw e)" "steps R (lift r)" "steps R (call c)"
  "steps R read_now" "steps R rand_read" "steps R (query f)"
  by (auto simp: steps_def ret_def throw_def lift_def call_def read_now_def rand_read_def query_def
      intro!: env split: option.split)

lemma steps_bnd [rel_rules]:
  assumes "steps R m" "\<And>x. steps R (f x)"
  shows "steps R (bnd m f)"
proof -
  have "R w (snd (bnd m f w))" for w
  proof (cases "m w")
    case (Pair r w')
    then have "R w w'" using assms(1) by (metis steps_def snd_conv)
    moreover have "R w' (snd (f x w'))" for x using assms(2) by (simp add: steps_def)
    ultimately show ?thesis using Pair by (auto simp: bnd_def intro: trans split: sum.split)
  qed
  then show ?thesis by (simp add: steps_def)
qed

lemma steps_result_of [rel_rules]: "steps R m \<Longrightarrow> steps R (result_of m)"
  by (simp add: steps_def result_of_def case_prod_beta)

lemma steps_ignore [rel_rules]: "steps R m \<Longrightarrow> steps R (ignore m)"
  by (simp add: ignore_def steps_bnd steps_result_of steps_env)

lemma steps_if [rel_rules]: "steps R m \<Longrightarrow> steps R n \<Longrightarrow> steps R (if b then m else n)"
  by simp

lemma steps_option [rel_rules]:
  "steps R m \<Longrightarrow> (\<And>y. steps R (f y)) \<Longrightarrow> steps R (case x of None \<Rightarrow> m | Some y \<Rightarrow> f y)"
  by (cases x) auto

lemma steps_sum [rel_rules]:
  "(\<And>e. steps R (g e)) \<Longrightarrow> (\<And>y. steps R (f y)) \<Longrightarrow> steps R (case r of Inl e \<Rightarrow> g e | Inr y \<Rightarrow> f y)"
  by (cases r) auto

lemma steps_prod [rel_rules]: "(\<And>a b. steps R (f a b)) \<Longrightarrow> steps R (case p of (a, b) \<Rightarrow> f a b)"
  by (cases p) auto

lemma steps_each [rel_rules]: "(\<And>x. steps R (f x)) \<Longrightarrow> steps R (each f xs)"
  by (induction xs) (simp_all add: steps_bnd steps_env)

lemma steps_exec [rel_rules]:
  assumes "\<And>w w'. tabs w' = g (tabs w) \<Longrightarrow> seqs w' = seqs w \<Longrightarrow> R w w'"
  shows "steps R (exec g)" "steps R (exec_count n g)" "steps R (exec_unique dup g)"
proof -
  have "R w (snd (exec g w))" "R w (snd (exec_count n g w))" "R w (snd (exec_unique dup g w))" for w
    by (cases "faults w (stmts w)"; cases "dup (tabs w)"; simp add: exec_def exec_count_def exec_unique_def env assms)+
  then show "steps R (exec g)" "steps R (exec_count n g)" "steps R (exec_unique dup g)" by (simp_all add: steps_def)
qed

lemma steps_create [rel_rules]:
  assumes "\<And>w w'. tabs w' = ins (seqs w' t) (tabs w) \<Longrightarrow> seqs w' = (seqs w)(t := Suc (seqs w t)) \<Longrightarrow> R w w'"
  shows "steps R (create t dup ins)"
proof -
  have "R w (snd (create t dup ins w))" for w
    by (cases "faults w (stmts w)"; cases "dup (Suc (seqs w t)) (tabs w)";
        simp add: create_def Let_def env assms)
  then show ?thesis by (simp add: steps_def)
qed

lemma steps_create_at [rel_rules]:
  assumes "\<And>w w'. tabs w' = ins (tabs w) \<Longrightarrow> seqs w' = (seqs w)(t := max (seqs w t) i) \<Longrightarrow> R w w'"
  shows "steps R (create_at t i dup ins)"
proof -
  have "R w (snd (create_at t i dup ins w))" for w
    by (cases "faults w (stmts w)"; cases "dup (tabs w)"; simp add: create_at_def Let_def env assms)
  then show ?thesis by (simp add: steps_def)
qed

lemma steps_raise_seq [rel_rules]: "steps R (raise_seq t k)"
  by (auto simp: steps_def raise_seq_def Let_def intro!: env)

lemma steps_transaction [rel_rules]:
  assumes "steps R m"
  shows "steps R (transaction m)"
proof -
  have "R w (snd (transaction m w))" for w
  proof (cases "m (next_stmt w)")
    case (Pair r w')
    have "R w (next_stmt w)" by (simp add: env)
    moreover have "R (next_stmt w) w'" using assms Pair by (metis steps_def snd_conv)
    ultimately have "R w w'" by (rule trans)
    moreover have "R w' (next_stmt w')" by (simp add: env)
    ultimately have "R w (next_stmt w')" by (rule trans)
    with \<open>R w w'\<close> \<open>R w (next_stmt w)\<close> Pair show ?thesis
      by (auto simp: transaction_def intro: rollback split: sum.split)
  qed
  then show ?thesis by (simp add: steps_def)
qed

end

text \<open>The frame of a program: a part \<open>g\<close> of the tables it does not write.\<close>

definition frame :: "('s \<Rightarrow> 'b) \<Rightarrow> 's world \<Rightarrow> 's world \<Rightarrow> bool" where
  "frame g w w' \<longleftrightarrow> g (tabs w') = g (tabs w) \<and> (\<forall>t. seqs w t \<le> seqs w' t)"

interpretation framed: world_rel "frame g" for g
  by unfold_locales (auto simp: frame_def intro: order_trans)

text \<open>Only the identifier counters: every program lets them grow.\<close>

abbreviation grows :: "'s world \<Rightarrow> 's world \<Rightarrow> bool" where
  "grows \<equiv> frame (\<lambda>_. ())"

lemma stepsD: "steps (frame g) m \<Longrightarrow> m w = (r, w') \<Longrightarrow> g (tabs w') = g (tabs w)"
  by (metis frame_def snd_conv steps_def)

lemma steps_seqsD: "steps (frame g) m \<Longrightarrow> m w = (r, w') \<Longrightarrow> seqs w t \<le> seqs w' t"
  by (metis frame_def snd_conv steps_def)

text \<open>A transaction that fails leaves the tables alone, whatever its body did.\<close>

lemma wp_transaction_or:
  assumes "wp m (\<lambda>x w'. Q x (next_stmt w')) (\<lambda>_ _. True) (next_stmt w)" "steps grows m"
  shows "wp (transaction m) Q (\<lambda>_ w'. tabs w' = tabs w \<and> (\<forall>t. seqs w t \<le> seqs w' t)) w"
proof (rule wpI)
  note ok = wp_transactionI [OF assms(1), of "\<lambda>_ _. True"]
  show "Q x w'" if "transaction m w = (Inr x, w')" for x w' using wp_ok [OF ok that] by simp
  show "tabs w' = tabs w \<and> (\<forall>t. seqs w t \<le> seqs w' t)" if "transaction m w = (Inl e, w')" for e w'
    using transaction_rolls_back [OF that] steps_seqsD [OF framed.steps_transaction [OF assms(2)] that] by simp
qed

lemma wp_frame:
  assumes "steps (frame g) m" "wp m Q E w"
  shows "wp m (\<lambda>x w'. Q x w' \<and> g (tabs w') = g (tabs w)) (\<lambda>e w'. E e w' \<and> g (tabs w') = g (tabs w)) w"
  using assms by (auto simp: wp_def dest: stepsD split: prod.splits sum.splits)

lemma wp_grows:
  assumes "steps grows m" "wp m Q (\<lambda>_ _. True) w"
  shows "wp m (\<lambda>x w'. Q x w' \<and> (\<forall>t. seqs w t \<le> seqs w' t)) (\<lambda>_ _. True) w"
  using assms by (auto simp: wp_def dest: steps_seqsD split: prod.splits sum.splits)

lemma frame_exec [simp]:
  "frame g w w' \<longleftrightarrow> g (tabs w') = g (tabs w) \<and> (\<forall>t. seqs w t \<le> seqs w' t)"
  by (simp add: frame_def)


section \<open>Invariants of a part of the database\<close>

text \<open>\<open>keeps g J A\<close>: if the part \<open>g\<close> of the tables satisfied \<open>J\<close>, it still does, and it has
  advanced along \<open>A\<close>. \<open>J\<close> may also speak of the identifier counters, provided it survives their
  growing. Neither need hold inside a transaction: it is enough that the body establishes them
  when it succeeds.\<close>

definition holds :: "('s \<Rightarrow> 'b) \<Rightarrow> ((table \<Rightarrow> nat) \<Rightarrow> 'b \<Rightarrow> bool) \<Rightarrow> 's world \<Rightarrow> bool" where
  "holds g J w \<longleftrightarrow> J (seqs w) (g (tabs w))"

definition keeps :: "('s \<Rightarrow> 'b) \<Rightarrow> ((table \<Rightarrow> nat) \<Rightarrow> 'b \<Rightarrow> bool) \<Rightarrow> ('b \<Rightarrow> 'b \<Rightarrow> bool) \<Rightarrow> 's world \<Rightarrow> 's world \<Rightarrow> bool" where
  "keeps g J A w w' \<longleftrightarrow> (holds g J w \<longrightarrow> holds g J w' \<and> A (g (tabs w)) (g (tabs w')))
     \<and> (\<forall>t. seqs w t \<le> seqs w' t)"

locale table_inv =
  fixes g :: "'s \<Rightarrow> 'b" and J :: "(table \<Rightarrow> nat) \<Rightarrow> 'b \<Rightarrow> bool" and A :: "'b \<Rightarrow> 'b \<Rightarrow> bool"
  assumes mono: "J q x \<Longrightarrow> (\<forall>t. q t \<le> q' t) \<Longrightarrow> J q' x"
    and refl: "A x x"
    and steady: "A x y \<Longrightarrow> A y z \<Longrightarrow> A x z"

sublocale table_inv \<subseteq> kept: world_rel "keeps g J A"
  by unfold_locales (auto simp: keeps_def holds_def intro: mono refl steady order_trans)

context table_inv
begin

lemma holds_env: "tabs w' = tabs w \<Longrightarrow> (\<forall>t. seqs w t \<le> seqs w' t) \<Longrightarrow> holds g J w \<Longrightarrow> holds g J w'"
  by (auto simp: holds_def intro: mono)

lemma untouched: "steps (frame g) m \<Longrightarrow> steps (keeps g J A) m"
  by (simp add: steps_def keeps_def frame_def holds_def refl) (metis mono)

lemma committed:
  assumes "\<And>w. holds g J w \<Longrightarrow>
      wp m (\<lambda>_ w'. holds g J w' \<and> A (g (tabs w)) (g (tabs w'))) (\<lambda>_ _. True) w"
    and "steps grows m"
  shows "steps (keeps g J A) (transaction m)"
proof -
  have grow: "seqs w t \<le> seqs (snd (transaction m w)) t" for w t
    using framed.steps_transaction [OF assms(2)] by (simp add: steps_def frame_def)
  have "holds g J (snd (transaction m w)) \<and> A (g (tabs w)) (g (tabs (snd (transaction m w))))"
    if J: "holds g J w" for w
  proof (cases "transaction m w")
    case (Pair r w')
    show ?thesis
    proof (cases r)
      case (Inl e)
      then have "tabs w' = tabs w" using Pair transaction_rolls_back by blast
      then show ?thesis using J grow [of w] Pair by (auto intro: holds_env refl)
    next
      case (Inr x)
      have "wp (transaction m) (\<lambda>_ w'. holds g J w' \<and> A (g (tabs w)) (g (tabs w'))) (\<lambda>_ _. True) w"
        using assms(1) [of "next_stmt w"] J by (intro wp_transactionI) (simp_all add: holds_def)
      then show ?thesis using Pair Inr by (simp add: wp_def)
    qed
  qed
  with grow show ?thesis by (simp add: steps_def keeps_def)
qed

lemma always:
  assumes "\<And>w. holds g J w \<Longrightarrow> wp m (\<lambda>_ w'. holds g J w' \<and> A (g (tabs w)) (g (tabs w')))
      (\<lambda>_ w'. holds g J w' \<and> A (g (tabs w)) (g (tabs w'))) w"
    and "steps grows m"
  shows "steps (keeps g J A) m"
proof -
  have "holds g J (snd (m w)) \<and> A (g (tabs w)) (g (tabs (snd (m w))))" if "holds g J w" for w
    using assms(1) [OF that] by (auto simp: wp_def split: prod.splits sum.splits)
  with assms(2) show ?thesis by (simp add: steps_def keeps_def frame_def)
qed

lemma afterwards:
  "steps (keeps g J A) m \<Longrightarrow> holds g J w \<Longrightarrow> m w = (r, w') \<Longrightarrow> holds g J w' \<and> A (g (tabs w)) (g (tabs w'))"
  by (metis keeps_def snd_conv steps_def)

end

end
