(* ===== verification/Text.thy ===== *)
theory Text
  imports Prelude "HOL-Library.List_Lexorder"
begin

text \<open>
  Go strings whose characters the code looks at, as lists of Unicode code points. Every such
  string reaches the code through \<open>encoding/json\<close>, which replaces invalid UTF-8, so ranging over
  it visits exactly these code points. The theory models what the source uses of packages
  \<open>strings\<close>, \<open>unicode\<close>, \<open>strconv\<close> and \<open>regexp\<close>. The case mapping beyond ASCII is the Unicode
  table of the Go release; it is the parameter \<open>tab\<close> of \<open>to_lower\<close> and \<open>to_upper\<close>. Strings
  compare lexicographically (\<open>List_Lexorder\<close>), as SQL compares the date strings the code sorts by.
\<close>

section \<open>Runes and strings\<close>

type_synonym rune = nat
type_synonym gostr = "rune list"

definition lit :: "string \<Rightarrow> gostr" where
  "lit s = map of_char s"

text \<open>\<open>unicode.IsSpace\<close> and \<open>unicode.IsControl\<close>.\<close>

definition is_space :: "rune \<Rightarrow> bool" where
  "is_space r \<longleftrightarrow> 9 \<le> r \<and> r \<le> 13 \<or> r = 32 \<or> r = 133 \<or> r = 160 \<or> r = 5760
     \<or> 8192 \<le> r \<and> r \<le> 8202 \<or> r = 8232 \<or> r = 8233 \<or> r = 8239 \<or> r = 8287 \<or> r = 12288"

definition is_control :: "rune \<Rightarrow> bool" where
  "is_control r \<longleftrightarrow> r < 32 \<or> 127 \<le> r \<and> r < 160"

definition trim_space :: "gostr \<Rightarrow> gostr" where
  "trim_space t = rev (dropWhile is_space (rev (dropWhile is_space t)))"

definition to_lower :: "(rune \<Rightarrow> rune) \<Rightarrow> gostr \<Rightarrow> gostr" where
  "to_lower tab = map (\<lambda>r. if r < 128 then (if 65 \<le> r \<and> r \<le> 90 then r + 32 else r) else tab r)"

definition to_upper :: "(rune \<Rightarrow> rune) \<Rightarrow> gostr \<Rightarrow> gostr" where
  "to_upper tab = map (\<lambda>r. if r < 128 then (if 97 \<le> r \<and> r \<le> 122 then r - 32 else r) else tab r)"

text \<open>\<open>strings.Cut\<close> at a one-rune separator: before, after, found.\<close>

definition cut :: "rune \<Rightarrow> gostr \<Rightarrow> gostr \<times> gostr \<times> bool" where
  "cut sep t = (takeWhile (\<lambda>r. r \<noteq> sep) t, tl (dropWhile (\<lambda>r. r \<noteq> sep) t), sep \<in> set t)"

fun first_non_empty :: "gostr list \<Rightarrow> gostr" where
  "first_non_empty [] = []"
| "first_non_empty (v # vs) = (if trim_space v \<noteq> [] then v else first_non_empty vs)"

lemma trim_space_Nil [simp]: "trim_space [] = []"
  by (simp add: trim_space_def)

lemma dropWhile_no: "(\<And>x. x \<in> set xs \<Longrightarrow> \<not> p x) \<Longrightarrow> dropWhile p xs = xs"
  by (cases xs) auto

lemma set_trim_space: "set (trim_space t) \<subseteq> set t"
  unfolding trim_space_def by (metis set_rev set_dropWhileD subsetI)

lemma trim_space_no_space: "(\<And>r. r \<in> set t \<Longrightarrow> \<not> is_space r) \<Longrightarrow> trim_space t = t"
  by (metis dropWhile_no rev_rev_ident set_rev trim_space_def)

lemma dropWhile_prefix:
  "xs \<noteq> [] \<Longrightarrow> \<not> p (hd xs) \<Longrightarrow> dropWhile p xs = xs"
  by (cases xs) auto

lemma trim_space_hd: "trim_space t \<noteq> [] \<Longrightarrow> \<not> is_space (hd (trim_space t)) \<and> \<not> is_space (last (trim_space t))"
proof -
  define u where "u = dropWhile is_space t"
  define v where "v = dropWhile is_space (rev u)"
  assume "trim_space t \<noteq> []"
  then have ne: "v \<noteq> []" by (simp add: trim_space_def u_def v_def)
  then have last: "\<not> is_space (hd v)" by (simp add: v_def hd_dropWhile)
  obtain k where "v = drop k (rev u)" by (metis dropWhile_eq_drop v_def)
  with ne have "last v = last (rev u)" by (simp add: last_drop)
  moreover have "u \<noteq> []" using ne by (auto simp: v_def)
  ultimately have "last v = hd u" by (simp add: last_rev)
  moreover have "\<not> is_space (hd u)" using \<open>u \<noteq> []\<close> by (simp add: u_def hd_dropWhile)
  ultimately show ?thesis using ne last
    by (simp add: trim_space_def u_def [symmetric] v_def [symmetric] hd_rev last_rev)
qed

lemma trim_space_idem [simp]: "trim_space (trim_space t) = trim_space t"
proof (cases "trim_space t = []")
  case False
  let ?s = "trim_space t"
  have "\<not> is_space (hd ?s)" "\<not> is_space (hd (rev ?s))"
    using trim_space_hd [OF False] False by (simp_all add: hd_rev)
  with False have "dropWhile is_space ?s = ?s" "dropWhile is_space (rev ?s) = rev ?s"
    by (simp_all add: dropWhile_prefix)
  then show ?thesis by (simp add: trim_space_def [of ?s])
qed simp

lemma length_trim_space: "length (trim_space t) \<le> length t"
  by (simp add: trim_space_def) (metis length_dropWhile_le length_rev order_trans)

lemma first_non_empty_blank: "trim_space (first_non_empty vs) = [] \<Longrightarrow> v \<in> set vs \<Longrightarrow> trim_space v = []"
  by (induction vs) (auto split: if_splits)

text \<open>\<open>len\<close> of a string counts the bytes of its UTF-8 encoding.\<close>

definition utf8_width :: "rune \<Rightarrow> nat" where
  "utf8_width r = (if r < 128 then 1 else if r < 2048 then 2 else if r < 65536 then 3 else 4)"

definition byte_len :: "gostr \<Rightarrow> nat" where
  "byte_len s = (\<Sum>r\<leftarrow>s. utf8_width r)"

lemma length_byte_len: "length s \<le> byte_len s"
  by (induction s) (auto simp: byte_len_def utf8_width_def)

section \<open>Decimal numerals\<close>

fun dec_nat :: "nat \<Rightarrow> gostr" where
  "dec_nat n = (if n < 10 then [48 + n] else dec_nat (n div 10) @ [48 + n mod 10])"

declare dec_nat.simps [simp del]

text \<open>\<open>%d\<close> of an \<open>int64\<close>.\<close>

definition dec :: "int \<Rightarrow> gostr" where
  "dec x = (if x < 0 then 45 # dec_nat (nat (- x)) else dec_nat (nat x))"

text \<open>How \<open>dec\<close> is evaluated: over the integers, whose numerals are binary.\<close>

function dec_int :: "int \<Rightarrow> gostr" where
  "dec_int n = (if n < 10 then [48 + nat n] else dec_int (n div 10) @ [48 + nat (n mod 10)])"
  by pat_completeness auto
termination by (relation "measure nat") auto

declare dec_int.simps [simp del]

lemma dec_int_nat: "0 \<le> n \<Longrightarrow> dec_int n = dec_nat (nat n)"
proof (induction n rule: dec_int.induct)
  case (1 n)
  have small: "n < 10 \<longleftrightarrow> nat n < 10" by linarith
  have "dec_int n = (if nat n < 10 then [48 + nat n] else dec_int (n div 10) @ [48 + nat (n mod 10)])"
    by (simp add: dec_int.simps [of n] small)
  also have "\<dots> = (if nat n < 10 then [48 + nat n] else dec_nat (nat n div 10) @ [48 + nat n mod 10])"
    using 1 small by (simp add: nat_div_distrib nat_mod_distrib)
  also have "\<dots> = dec_nat (nat n)" by (rule dec_nat.simps [symmetric])
  finally show ?case .
qed

lemma dec_code [code]: "dec x = (if x < 0 then 45 # dec_int (- x) else dec_int x)"
  by (simp add: dec_def dec_int_nat)

lemma dec_nat_digits: "r \<in> set (dec_nat n) \<Longrightarrow> 48 \<le> r \<and> r \<le> 57"
proof (induction n rule: dec_nat.induct)
  case (1 n)
  show ?case
  proof (cases "n < 10")
    case True
    with "1.prems" show ?thesis by (simp add: dec_nat.simps [of n])
  next
    case False
    with "1.prems" have "r \<in> set (dec_nat (n div 10)) \<or> r = 48 + n mod 10"
      by (auto simp: dec_nat.simps [of n])
    with "1.IH" [OF False] show ?thesis by auto
  qed
qed

lemma dec_nat_ne [simp]: "dec_nat n \<noteq> []"
  by (subst dec_nat.simps) simp

text \<open>The value of a digit list, most significant first, read from \<open>acc\<close>.\<close>

fun dec_val :: "nat \<Rightarrow> gostr \<Rightarrow> nat" where
  "dec_val acc [] = acc"
| "dec_val acc (r # rs) = dec_val (acc * 10 + (r - 48)) rs"

lemma dec_val_append: "dec_val acc (xs @ ys) = dec_val (dec_val acc xs) ys"
  by (induction xs arbitrary: acc) auto

lemma dec_val_dec_nat [simp]: "dec_val 0 (dec_nat n) = n"
proof (induction n rule: dec_nat.induct)
  case (1 n)
  then show ?case
    by (cases "n < 10") (simp_all add: dec_nat.simps [of n] dec_val_append)
qed

lemma dec_nat_inject [simp]: "dec_nat m = dec_nat n \<longleftrightarrow> m = n"
  by (metis dec_val_dec_nat)

text \<open>\<open>hex.EncodeToString\<close> of \<open>k\<close> bytes, given as a big-endian number.\<close>

definition hex_digit :: "nat \<Rightarrow> rune" where
  "hex_digit n = (if n < 10 then 48 + n else 87 + n)"

fun hex_bytes :: "nat \<Rightarrow> nat \<Rightarrow> gostr" where
  "hex_bytes 0 n = []"
| "hex_bytes (Suc k) n = hex_bytes k (n div 256) @ [hex_digit (n mod 256 div 16), hex_digit (n mod 16)]"

lemma length_hex_bytes [simp]: "length (hex_bytes k n) = 2 * k"
  by (induction k arbitrary: n) auto

section \<open>Regular expressions\<close>

text \<open>The patterns of the source, matched anchored at both ends. \<open>matches\<close> works by
  derivatives; \<open>lang\<close> is the meaning it is checked against.\<close>

datatype rx = Fail | Eps | Cls "rune \<Rightarrow> bool" | Seq rx rx | Alt rx rx | Star rx

fun nullable :: "rx \<Rightarrow> bool" where
  "nullable Fail = False"
| "nullable Eps = True"
| "nullable (Cls p) = False"
| "nullable (Seq r s) = (nullable r \<and> nullable s)"
| "nullable (Alt r s) = (nullable r \<or> nullable s)"
| "nullable (Star r) = True"

fun seq :: "rx \<Rightarrow> rx \<Rightarrow> rx" where
  "seq Fail s = Fail"
| "seq Eps s = s"
| "seq r s = Seq r s"

fun alt :: "rx \<Rightarrow> rx \<Rightarrow> rx" where
  "alt Fail s = s"
| "alt r Fail = r"
| "alt r s = Alt r s"

fun deriv :: "rune \<Rightarrow> rx \<Rightarrow> rx" where
  "deriv c Fail = Fail"
| "deriv c Eps = Fail"
| "deriv c (Cls p) = (if p c then Eps else Fail)"
| "deriv c (Seq r s) = (if nullable r then alt (seq (deriv c r) s) (deriv c s) else seq (deriv c r) s)"
| "deriv c (Alt r s) = alt (deriv c r) (deriv c s)"
| "deriv c (Star r) = seq (deriv c r) (Star r)"

fun matches :: "rx \<Rightarrow> gostr \<Rightarrow> bool" where
  "matches r [] = nullable r"
| "matches r (c # cs) = matches (deriv c r) cs"

definition plus :: "rx \<Rightarrow> rx" where
  "plus r = Seq r (Star r)"

fun repeat_rx :: "nat \<Rightarrow> rx \<Rightarrow> rx" where
  "repeat_rx 0 r = Eps"
| "repeat_rx (Suc n) r = Seq r (repeat_rx n r)"

text \<open>Between \<open>m\<close> and \<open>m + n\<close> repetitions, \<open>r\{m,m+n\}\<close>.\<close>

definition between :: "nat \<Rightarrow> nat \<Rightarrow> rx \<Rightarrow> rx" where
  "between m n r = Seq (repeat_rx m r) (repeat_rx n (Alt r Eps))"

inductive lang :: "rx \<Rightarrow> gostr \<Rightarrow> bool" where
  lang_Eps: "lang Eps []"
| lang_Cls: "p c \<Longrightarrow> lang (Cls p) [c]"
| lang_Seq: "lang r xs \<Longrightarrow> lang s ys \<Longrightarrow> lang (Seq r s) (xs @ ys)"
| lang_Alt1: "lang r xs \<Longrightarrow> lang (Alt r s) xs"
| lang_Alt2: "lang s xs \<Longrightarrow> lang (Alt r s) xs"
| lang_Star0: "lang (Star r) []"
| lang_Star1: "lang r xs \<Longrightarrow> lang (Star r) ys \<Longrightarrow> lang (Star r) (xs @ ys)"

inductive_simps lang_simps [simp]: "lang Fail xs" "lang Eps xs" "lang (Cls p) xs" "lang (Alt r s) xs"
inductive_simps lang_Seq_iff: "lang (Seq r s) xs"
inductive_cases lang_StarE: "lang (Star r) xs"

lemma nullable_iff: "nullable r \<longleftrightarrow> lang r []"
  by (induction r) (auto simp: lang_Seq_iff intro: lang.intros)

lemma lang_seq: "lang (seq r s) xs \<longleftrightarrow> lang (Seq r s) xs"
  by (induction r s rule: seq.induct) (auto simp: lang_Seq_iff)

lemma lang_alt: "lang (alt r s) xs \<longleftrightarrow> lang (Alt r s) xs"
  by (induction r s rule: alt.induct) auto

lemma lang_Star_Cons: "lang (Star r) (c # cs) \<longleftrightarrow> (\<exists>xs ys. cs = xs @ ys \<and> lang r (c # xs) \<and> lang (Star r) ys)"
proof
  show "\<exists>xs ys. cs = xs @ ys \<and> lang r (c # xs) \<and> lang (Star r) ys" if "lang (Star r) (c # cs)"
    using that
    by (induction "Star r" "c # cs" arbitrary: cs rule: lang.induct) (auto simp: append_eq_Cons_conv)
  show "lang (Star r) (c # cs)" if "\<exists>xs ys. cs = xs @ ys \<and> lang r (c # xs) \<and> lang (Star r) ys"
    using that lang_Star1 [of r "c # _"] by fastforce
qed

lemma lang_deriv: "lang (deriv c r) cs \<longleftrightarrow> lang r (c # cs)"
proof (induction r arbitrary: cs)
  case (Seq r s)
  then show ?case
    by (auto simp: lang_seq lang_alt lang_Seq_iff nullable_iff append_eq_Cons_conv Cons_eq_append_conv; blast)
next
  case (Star r)
  then show ?case by (auto simp: lang_seq lang_Seq_iff lang_Star_Cons)
qed (auto simp: lang_alt)

lemma matches_lang: "matches r s \<longleftrightarrow> lang r s"
  by (induction r s rule: matches.induct) (simp_all add: nullable_iff lang_deriv)

end
