(* ===== verification/Schema.thy ===== *)
theory Schema
  imports Tx Text
begin

text \<open>
  The rows of the tables, from the \<open>entity.go\<close> files, and the database that holds them. Tables
  are lists of rows in insertion order. A nullable column is an \<open>option\<close>. Columns whose values
  are a fixed set of Go constants are datatypes.
\<close>

section \<open>Wallet (internal/wallet/entity.go)\<close>

datatype source = SourceCheckin | SourceLottery | SourceRecharge | SourceRegister | SourceTipIn

datatype biz_type =
    LedgerGrantRegister | LedgerGrantCheckin | LedgerGrantLottery | LedgerGrantRecharge
  | LedgerGrantRechargeBonus | LedgerGrantTip | LedgerConsumeTip | LedgerExpire

datatype daily = ActionCheckin | ActionLottery

datatype order_status = OrderPending | OrderPaid | OrderClosed

text \<open>Orders move up: from pending to closed or paid, and from closed to paid.\<close>

instantiation order_status :: linorder
begin

fun order_rank :: "order_status \<Rightarrow> nat" where
  "order_rank OrderPending = 0"
| "order_rank OrderClosed = 1"
| "order_rank OrderPaid = 2"

definition less_eq_order_status :: "order_status \<Rightarrow> order_status \<Rightarrow> bool" where
  "less_eq_order_status a b \<longleftrightarrow> order_rank a \<le> order_rank b"

definition less_order_status :: "order_status \<Rightarrow> order_status \<Rightarrow> bool" where
  "less_order_status a b \<longleftrightarrow> order_rank a < order_rank b"

lemma order_rank_inject: "order_rank a = order_rank b \<longleftrightarrow> a = b"
  by (cases a; cases b) simp_all

instance
  by standard (auto simp: less_eq_order_status_def less_order_status_def order_rank_inject [symmetric])

end

lemma order_status_le [simp]: "s \<le> OrderPaid" "s \<le> OrderClosed \<longleftrightarrow> s \<noteq> OrderPaid"
  "s \<le> OrderPending \<longleftrightarrow> s = OrderPending" "OrderPaid \<le> s \<longleftrightarrow> s = OrderPaid"
  by (cases s; simp add: less_eq_order_status_def)+

text \<open>The string a source is stored as; \<open>expireLot\<close> copies it into \<open>ref_type\<close>.\<close>

fun source_str :: "source \<Rightarrow> gostr" where
  "source_str SourceCheckin = lit ''checkin''"
| "source_str SourceLottery = lit ''lottery''"
| "source_str SourceRecharge = lit ''recharge''"
| "source_str SourceRegister = lit ''register''"
| "source_str SourceTipIn = lit ''tip_in''"

fun status_str :: "order_status \<Rightarrow> gostr" where
  "status_str OrderPending = lit ''pending''"
| "status_str OrderPaid = lit ''paid''"
| "status_str OrderClosed = lit ''closed''"

record lot =
  lot_id :: nat
  lot_account :: nat
  lot_source :: source
  lot_remaining :: int
  lot_expire :: "instant option"
  lot_created :: instant

record ledger =
  led_id :: nat
  led_account :: nat
  led_lot :: nat
  led_biz :: biz_type
  led_amount :: int
  led_ref_type :: gostr
  led_ref_id :: gostr
  led_created :: instant

record daily_action =
  da_id :: nat
  da_account :: nat
  da_action :: daily
  da_date :: gostr
  da_prize :: int
  da_created :: instant

record recharge_order =
  ord_id :: nat
  ord_account :: nat
  ord_no :: gostr
  ord_yuan :: int
  ord_coins :: int
  ord_bonus :: int
  ord_status :: order_status
  ord_method :: gostr
  ord_trade_no :: gostr
  ord_session :: gostr
  ord_paid_at :: "instant option"
  ord_closed_at :: "instant option"
  ord_expire :: instant
  ord_created :: instant

record tip_record =
  tip_id :: nat
  tip_from :: nat
  tip_username :: gostr
  tip_to :: nat
  tip_video :: nat
  tip_coins :: int
  tip_received :: int
  tip_cut :: int
  tip_created :: instant

record platform_entry =
  pe_id :: nat
  pe_amount :: int
  pe_ref_type :: gostr
  pe_ref_id :: gostr
  pe_created :: instant

record wallet_tables =
  lots :: "lot list"
  ledgers :: "ledger list"
  dailies :: "daily_action list"
  orders :: "recharge_order list"
  tips :: "tip_record list"
  platform :: "platform_entry list"

section \<open>Invoices (internal/invoice/entity.go)\<close>

record header =
  h_kind :: gostr
  h_title :: gostr
  h_tax_id :: gostr
  h_email :: gostr
  h_bank_name :: gostr
  h_bank_account :: gostr
  h_address :: gostr
  h_phone :: gostr

record profile =
  pr_account :: nat
  pr_header :: header
  pr_updated :: instant

record invoice =
  inv_id :: nat
  inv_no :: gostr
  inv_account :: nat
  inv_out_trade_no :: gostr
  inv_yuan :: int
  inv_coins :: int
  inv_bonus :: int
  inv_pay_method :: gostr
  inv_paid_at :: instant
  inv_header :: header
  inv_issued :: bool
  inv_issued_at :: "instant option"
  inv_issuer :: nat
  inv_reject_reason :: gostr
  inv_created :: instant
  inv_updated :: instant

record invoice_tables =
  profiles :: "profile list"
  invoices :: "invoice list"

section \<open>Accounts, videos, likes and follows\<close>

datatype audit_status = StatusPending | StatusReviewing | StatusApproved | StatusRejected

datatype lifecycle = LifecycleUnset | LifecycleDraft | LifecyclePublished | LifecycleUnpublished

record account =
  acc_id :: nat
  acc_username :: gostr
  acc_followers :: int
  acc_interests :: "gostr list"

record video =
  vid_id :: nat
  vid_author :: nat
  vid_username :: gostr
  vid_title :: gostr
  vid_description :: gostr
  vid_tags :: "gostr list"
  vid_play_url :: gostr
  vid_cover_url :: gostr
  vid_likes :: int
  vid_comments :: int
  vid_popularity :: int
  vid_audit :: audit_status
  vid_lifecycle :: lifecycle
  vid_deleted_at :: "instant option"
  vid_created :: instant

record video_like =
  vl_id :: nat
  vl_video :: nat
  vl_account :: nat
  vl_created :: instant

record social_relation =
  sr_id :: nat
  sr_follower :: nat
  sr_vlogger :: nat
  sr_created :: instant

section \<open>Comments (internal/comment/entity.go)\<close>

record comment =
  co_id :: nat
  co_video :: nat
  co_root :: nat
  co_parent :: nat
  co_author :: nat
  co_username :: gostr
  co_reply_to :: nat
  co_reply_name :: gostr
  co_content :: gostr
  co_created :: instant
  co_updated :: instant

section \<open>Audit records (internal/audit/entity.go)\<close>

datatype audit_source = SourceMachine | SourceManual

record audit_record =
  ar_id :: nat
  ar_target :: nat
  ar_from :: audit_status
  ar_to :: audit_status
  ar_source :: audit_source
  ar_moderator :: gostr
  ar_operator :: nat
  ar_label :: gostr
  ar_detail :: gostr
  ar_created :: instant

section \<open>Idempotency keys (internal/idempotency/entity.go)\<close>

text \<open>The stored response is the JSON of a video, kept as the video; only publishing uses the keys,
  so the column \<open>biz_type\<close> is constant and left out.\<close>

record idem_key =
  ik_id :: nat
  ik_account :: nat
  ik_key :: gostr
  ik_hash :: gostr
  ik_resource :: nat
  ik_done :: bool
  ik_response :: "video option"

section \<open>Reports (internal/report/entity.go)\<close>

datatype reason =
    ReasonSpam | ReasonPorn | ReasonViolence | ReasonIllegal | ReasonInfringement | ReasonMisinformation
  | ReasonAbuse | ReasonMinor | ReasonOther

datatype report_status = ReportPending | ReportAccepted | ReportDismissed

record report =
  rp_id :: nat
  rp_target :: nat
  rp_reporter :: nat
  rp_reason :: reason
  rp_detail :: gostr
  rp_status :: report_status
  rp_handler :: nat
  rp_handled_at :: "instant option"
  rp_note :: gostr
  rp_created :: instant

section \<open>Direct messages, danmaku and watch history (internal/dm, danmaku, history)\<close>

text \<open>The two sides of a conversation are ordered by account; \<open>lo\<close> and \<open>hi\<close> columns belong to
  the smaller and the larger one.\<close>

record conversation =
  cv_id :: nat
  cv_lo :: nat
  cv_hi :: nat
  cv_last_message :: nat
  cv_preview :: gostr
  cv_last_sender :: nat
  cv_last_at :: instant
  cv_lo_unread :: int
  cv_hi_unread :: int
  cv_lo_read :: "instant option"
  cv_hi_read :: "instant option"
  cv_created :: instant

record message =
  ms_id :: nat
  ms_conversation :: nat
  ms_sender :: nat
  ms_body :: gostr
  ms_created :: instant

record danmaku =
  dk_id :: nat
  dk_video :: nat
  dk_author :: nat
  dk_username :: gostr
  dk_content :: gostr
  dk_offset :: int
  dk_created :: instant

record watch_history =
  wh_id :: nat
  wh_account :: nat
  wh_video :: nat
  wh_position :: int
  wh_duration :: int
  wh_completed :: bool
  wh_watched :: int

section \<open>Notifications (internal/notification/entity.go)\<close>

datatype notif_kind = KindFollow | KindLike | KindComment | KindReply | KindMention | KindTip

record notification =
  nt_id :: nat
  nt_recipient :: nat
  nt_kind :: notif_kind
  nt_actor :: nat
  nt_actors :: "nat list"
  nt_count :: int
  nt_video :: nat
  nt_comment :: nat
  nt_root :: nat
  nt_tip :: nat
  nt_coins :: int
  nt_text :: gostr
  nt_dedup :: gostr
  nt_hidden :: bool
  nt_read_at :: "instant option"
  nt_created :: instant
  nt_updated :: instant

section \<open>Outbox (internal/outbox/entity.go, internal/mq/message.go)\<close>

datatype outbox_status = OutboxPending | OutboxPublishing

datatype payload =
    PopularityChanged nat int gostr
  | VideoTimeline nat nat instant
  | VideoEmbed nat
  | SocialPayload nat nat
  | AuditRequested nat nat
  | LikePayload nat nat
  | CommentCreated comment
  | CommentDeleted nat nat nat
  | CacheInvalidated gostr nat

record envelope =
  ev_id :: gostr
  ev_type :: gostr
  ev_occurred :: instant
  ev_producer :: gostr
  ev_version :: nat
  ev_payload :: payload

record outbox_msg =
  ob_id :: nat
  ob_event :: envelope
  ob_status :: outbox_status
  ob_attempts :: int
  ob_next_attempt :: instant
  ob_locked_at :: "instant option"
  ob_lease :: gostr
  ob_last_error :: gostr

section \<open>The database\<close>

record db =
  d_wallet :: wallet_tables
  d_invoice :: invoice_tables
  d_accounts :: "account list"
  d_videos :: "video list"
  d_likes :: "video_like list"
  d_relations :: "social_relation list"
  d_notifs :: "notification list"
  d_outbox :: "outbox_msg list"
  d_processed :: "(gostr \<times> gostr) list"
  d_comments :: "comment list"
  d_audit :: "audit_record list"
  d_idem :: "idem_key list"
  d_reports :: "report list"
  d_conversations :: "conversation list"
  d_messages :: "message list"
  d_danmaku :: "danmaku list"
  d_watched :: "watch_history list"

text \<open>An empty database and a quiet world over it, from which the witnesses start: no failures,
  a clock that stands still and random readings of zero.\<close>

definition empty_wallet :: wallet_tables where
  "empty_wallet = \<lparr>lots = [], ledgers = [], dailies = [], orders = [], tips = [], platform = []\<rparr>"

definition empty_db :: db where
  "empty_db = \<lparr>d_wallet = empty_wallet, d_invoice = \<lparr>profiles = [], invoices = []\<rparr>,
     d_accounts = [], d_videos = [], d_likes = [], d_relations = [], d_notifs = [], d_outbox = [],
     d_processed = [], d_comments = [], d_audit = [], d_idem = [], d_reports = [],
     d_conversations = [], d_messages = [], d_danmaku = [], d_watched = []\<rparr>"

definition quiet_world :: "instant \<Rightarrow> db \<Rightarrow> db world" where
  "quiet_world t d = \<lparr>tabs = d, seqs = (\<lambda>_. 0), clock = (\<lambda>_. t), ticks = 0, rands = (\<lambda>_. Some 0),
     draws = 0, faults = (\<lambda>_. False), stmts = 0, calls = []\<rparr>"

type_synonym 'a op = "(db, 'a) tx"

end
