(* ===== verification/Calendar.thy ===== *)
theory Calendar
  imports Text
begin

text \<open>
  The part of package \<open>time\<close> the wallet uses: Beijing calendar dates of instants. China has
  kept UTC+8 without daylight saving since 1992, so the \<open>Asia/Shanghai\<close> location is the fixed
  zone that \<open>shanghai()\<close> falls back to. Day numbers count from 1970-01-01; the conversion to a
  year, month and day is the proleptic Gregorian calendar, computed in years that start in
  March.
\<close>

record civil =
  c_year :: int
  c_month :: int
  c_day :: int

definition shanghai_day :: "instant \<Rightarrow> int" where
  "shanghai_day t = (t div Second + 8 * 3600) div 86400"

definition civil_of_day :: "int \<Rightarrow> civil" where
  "civil_of_day n = (let z = n + 719468; era = z div 146097; doe = z mod 146097;
     yoe = (doe - doe div 1460 + doe div 36524 - doe div 146096) div 365;
     doy = doe - (365 * yoe + yoe div 4 - yoe div 100);
     mp = (5 * doy + 2) div 153;
     d = doy - (153 * mp + 2) div 5 + 1;
     m = (if mp < 10 then mp + 3 else mp - 9)
     in \<lparr>c_year = yoe + era * 400 + (if m \<le> 2 then 1 else 0), c_month = m, c_day = d\<rparr>)"

text \<open>\<open>time.Date\<close> at midnight; the month may run past December, the day below one.\<close>

definition day_of_date :: "int \<Rightarrow> int \<Rightarrow> int \<Rightarrow> int" where
  "day_of_date y0 m0 d = (let y1 = y0 + (m0 - 1) div 12; m = (m0 - 1) mod 12 + 1;
     y = (if m \<le> 2 then y1 - 1 else y1);
     doy = (153 * (if m > 2 then m - 3 else m + 9) + 2) div 5 + d - 1;
     yoe = y mod 400
     in (y div 400) * 146097 + yoe * 365 + yoe div 4 - yoe div 100 + doy - 719468)"

text \<open>The layout \<open>2006-01-02\<close>.\<close>

definition pad :: "nat \<Rightarrow> int \<Rightarrow> gostr" where
  "pad k n = (let s = dec n in replicate (k - length s) 48 @ s)"

definition format_date :: "civil \<Rightarrow> gostr" where
  "format_date c = pad 4 (c_year c) @ [45] @ pad 2 (c_month c) @ [45] @ pad 2 (c_day c)"

text \<open>The layout \<open>20060102\<close>.\<close>

definition format_compact :: "civil \<Rightarrow> gostr" where
  "format_compact c = pad 4 (c_year c) @ pad 2 (c_month c) @ pad 2 (c_day c)"

definition shanghai_date :: "instant \<Rightarrow> civil" where
  "shanghai_date t = civil_of_day (shanghai_day t)"

lemma shanghai_day_mono: "s \<le> t \<Longrightarrow> shanghai_day s \<le> shanghai_day t"
  by (simp add: shanghai_day_def zdiv_mono1)

end
