(* ===== verification/Wallet_Rules.thy ===== *)
theory Wallet_Rules
  imports Schema Calendar
begin

text \<open>
  The wallet's rules (\<open>internal/wallet/rules.go\<close>): recharge packages, the tip split, lifetimes of
  granted coins, the two prize draws, list bounds, and the amount strings of the payment
  provider. Amounts are \<open>int64\<close>: \<open>wrap64\<close> stands wherever the source multiplies, adds or
  negates a value it has not bounded.
\<close>

section \<open>Constants\<close>

definition YuanToCoins :: int where "YuanToCoins = 10"
definition RegisterGiftCoins :: int where "RegisterGiftCoins = 10"
definition TipMinCoins :: int where "TipMinCoins = 10"
definition CutPercent :: int where "CutPercent = 30"
definition CheckinBucketMod :: int where "CheckinBucketMod = 1000"
definition LotteryBucketMod :: int where "LotteryBucketMod = 100"
definition OrderTTL :: duration where "OrderTTL = 30 * Minute"
definition TipDebounce :: duration where "TipDebounce = 10 * Second"
definition ExpireWarnWindow :: duration where "ExpireWarnWindow = 72 * Hour"
definition RegisterGiftTTL :: duration where "RegisterGiftTTL = 30 * 24 * Hour"
definition PromoTTL :: duration where "PromoTTL = 15 * 24 * Hour"
definition TipInTTL :: duration where "TipInTTL = 90 * 24 * Hour"
definition DefaultListLimit :: int where "DefaultListLimit = 20"
definition MaxListLimit :: int where "MaxListLimit = 50"

definition LotteryPrizes :: "int list" where "LotteryPrizes = [0, 2, 5, 10, 20, 50]"

section \<open>Recharges and tips\<close>

text \<open>\<open>rechargePackages\<close>: yuan and bonus.\<close>

definition rechargePackages :: "(int \<times> int) list" where
  "rechargePackages = [(6, 0), (30, 30), (68, 100), (128, 250)]"

definition resolve_recharge :: "int \<Rightarrow> err + int \<times> int" where
  "resolve_recharge yuan = (if yuan < 1 then Inl ErrInvalidAmount else
     let coins = wrap64 (yuan * YuanToCoins) in
     case find (\<lambda>p. fst p = yuan) rechargePackages of
       Some p \<Rightarrow> Inr (coins, snd p) | None \<Rightarrow> Inr (coins, 0))"

definition split_tip :: "int \<Rightarrow> int \<times> int" where
  "split_tip coins = (let received = wrap64 (coins * (100 - CutPercent)) sdiv 100
     in (received, wrap64 (coins - received)))"

fun expire_for :: "source \<Rightarrow> instant \<Rightarrow> instant option" where
  "expire_for SourceRegister now = Some (now + RegisterGiftTTL)"
| "expire_for SourceCheckin now = Some (now + PromoTTL)"
| "expire_for SourceLottery now = Some (now + PromoTTL)"
| "expire_for SourceTipIn now = Some (now + TipInTTL)"
| "expire_for SourceRecharge now = None"

definition biz_date :: "instant \<Rightarrow> gostr" where
  "biz_date now = format_date (shanghai_date now)"

section \<open>Draws\<close>

definition mod_range :: "int \<Rightarrow> int \<Rightarrow> int" where
  "mod_range n m = (if m \<le> 0 then 0 else let k = n smod m in if k < 0 then k + m else k)"

definition draw_checkin_prize :: "int \<Rightarrow> int" where
  "draw_checkin_prize n0 = (let n = mod_range n0 CheckinBucketMod in
     if n < 950 then n sdiv 95 + 1 else (n - 950) sdiv 5 + 11)"

definition draw_lottery :: "int \<Rightarrow> int \<times> int" where
  "draw_lottery n0 = (let n = mod_range n0 LotteryBucketMod in
     if n < 50 then (LotteryPrizes ! 0, 0)
     else if n < 75 then (LotteryPrizes ! 1, 1)
     else if n < 87 then (LotteryPrizes ! 2, 2)
     else if n < 95 then (LotteryPrizes ! 3, 3)
     else if n < 99 then (LotteryPrizes ! 4, 4)
     else (LotteryPrizes ! 5, 5))"

text \<open>Eight random bytes as a big-endian \<open>uint64\<close>, reduced modulo \<open>m\<close>.\<close>

definition random_bucket :: "int \<Rightarrow> int op" where
  "random_bucket m = bnd rand_read (\<lambda>n. ret (int n mod 2 ^ 64 mod m))"

definition random_lottery_bucket :: "int op" where
  "random_lottery_bucket = random_bucket LotteryBucketMod"

definition random_checkin_bucket :: "int op" where
  "random_checkin_bucket = random_bucket CheckinBucketMod"

section \<open>List bounds\<close>

definition clamp_list :: "int \<Rightarrow> int \<Rightarrow> nat \<times> nat" where
  "clamp_list limit offset = (let l = (if limit \<le> 0 then DefaultListLimit else limit);
     l = (if l > MaxListLimit then MaxListLimit else l)
     in (nat l, nat (if offset < 0 then 0 else offset)))"

section \<open>Amount strings\<close>

fun parse_digits_loop :: "int \<Rightarrow> gostr \<Rightarrow> err + int" where
  "parse_digits_loop n [] = Inr n"
| "parse_digits_loop n (c # cs) = (if c < 48 \<or> c > 57 then Inl ErrInvalidAmount
     else parse_digits_loop (wrap64 (n * 10 + (int c - 48))) cs)"

definition parse_digits :: "gostr \<Rightarrow> err + int" where
  "parse_digits s = (if s = [] then Inl ErrInvalidAmount else parse_digits_loop 0 s)"

definition signed_digits :: "bool \<Rightarrow> gostr \<Rightarrow> err + int" where
  "signed_digits neg whole = (case parse_digits whole of
     Inl e \<Rightarrow> Inl e | Inr n \<Rightarrow> Inr (if neg then wrap64 (- n) else n))"

definition parse_yuan_amount :: "gostr \<Rightarrow> err + int" where
  "parse_yuan_amount raw = (let s0 = trim_space raw in
     if s0 = [] then Inl ErrInvalidAmount else
     let neg = (hd s0 = 45); s = (if neg then tl s0 else s0); (whole, frac, ok) = cut 46 s in
     if \<not> ok then signed_digits neg whole
     else if frac = [] then signed_digits neg whole
     else if length frac > 2 then Inl ErrInvalidAmount
     else let padded = frac @ replicate (2 - length frac) 48 in
       if padded \<noteq> [48, 48] then Inl ErrInvalidAmount else signed_digits neg whole)"

definition format_yuan :: "int \<Rightarrow> gostr" where
  "format_yuan yuan = dec yuan @ [46, 48, 48]"

definition PayMethodStripe :: gostr where
  "PayMethodStripe = lit ''stripe''"

definition normalize_pay_method :: "(rune \<Rightarrow> rune) \<Rightarrow> gostr \<Rightarrow> err + gostr" where
  "normalize_pay_method tab raw =
     (if to_lower tab (trim_space raw) \<in> {[], PayMethodStripe, lit ''card'', lit ''test''}
      then Inr PayMethodStripe else Inl ErrInvalidPayMethod)"

section \<open>What the rules guarantee\<close>

lemma mod_range_bounds: "0 < m \<Longrightarrow> 0 \<le> mod_range n m \<and> mod_range n m < m"
proof -
  assume m: "0 < m"
  have "\<bar>n smod m\<bar> < \<bar>m\<bar>" using m by (simp add: smod_int_range [unfolded atLeastAtMost_iff] signed_modulo_int_def abs_mult)
  with m show ?thesis by (auto simp: mod_range_def Let_def)
qed

lemma sdiv_pos: "0 \<le> a \<Longrightarrow> 0 < b \<Longrightarrow> (a :: int) sdiv b = a div b"
  by (simp add: signed_divide_int_def sgn_if)

lemma draw_checkin_prize_bucket:
  assumes "0 \<le> n" "n < CheckinBucketMod"
  shows "draw_checkin_prize n = (if n < 950 then n div 95 + 1 else (n - 950) div 5 + 11)"
proof -
  have "mod_range n CheckinBucketMod = n"
    using assms by (simp add: mod_range_def CheckinBucketMod_def smod_mod_positive)
  then show ?thesis using assms by (simp add: draw_checkin_prize_def sdiv_pos)
qed

lemma draw_checkin_prize_range: "1 \<le> draw_checkin_prize n \<and> draw_checkin_prize n \<le> 20"
proof -
  define k where "k = mod_range n CheckinBucketMod"
  have k: "0 \<le> k" "k < 1000"
    using mod_range_bounds [of CheckinBucketMod n] by (simp_all add: k_def CheckinBucketMod_def)
  have "draw_checkin_prize n = (if k < 950 then k div 95 + 1 else (k - 950) div 5 + 11)"
    using k by (simp add: draw_checkin_prize_def k_def [symmetric] sdiv_pos)
  then show ?thesis using k by (auto intro: pos_imp_zdiv_nonneg_iff [THEN iffD2])
qed

lemma card_int_interval: "card {n::int. a \<le> n \<and> n < b} = nat (b - a)"
proof -
  have "{n::int. a \<le> n \<and> n < b} = {a..<b}" by auto
  then show ?thesis by simp
qed

lemma draw_checkin_prize_low:
  assumes "1 \<le> p" "p \<le> 10"
  shows "{n. 0 \<le> n \<and> n < CheckinBucketMod \<and> draw_checkin_prize n = p} = {n. 95 * (p - 1) \<le> n \<and> n < 95 * p}"
  using assms by (auto simp: draw_checkin_prize_bucket CheckinBucketMod_def split: if_splits)

lemma draw_checkin_prize_high:
  assumes "11 \<le> p" "p \<le> 20"
  shows "{n. 0 \<le> n \<and> n < CheckinBucketMod \<and> draw_checkin_prize n = p} = {n. 950 + 5 * (p - 11) \<le> n \<and> n < 950 + 5 * (p - 10)}"
  using assms by (auto simp: draw_checkin_prize_bucket CheckinBucketMod_def split: if_splits)

lemma mod_range_id: "0 \<le> n \<Longrightarrow> n < m \<Longrightarrow> mod_range n m = n"
  by (simp add: mod_range_def smod_mod_positive)

lemma draw_lottery_range:
  "draw_lottery n = (c, i) \<Longrightarrow> 0 \<le> i \<and> i \<le> 5 \<and> c = LotteryPrizes ! nat i"
  by (auto simp: draw_lottery_def Let_def split: if_splits)

lemma split_tip_exact:
  assumes "0 \<le> coins" "coins * 70 < 2 ^ 63"
  shows "split_tip coins = (coins * 70 div 100, coins - coins * 70 div 100)"
proof -
  have "wrap64 (coins * (100 - CutPercent)) = coins * 70"
    using assms by (simp add: CutPercent_def i64_def)
  moreover have "wrap64 (coins - coins * 70 div 100) = coins - coins * 70 div 100"
    using assms by (intro wrap64_id i64I) (auto intro: order_trans [of _ 0])
  ultimately show ?thesis using assms by (simp add: split_tip_def sdiv_pos Let_def)
qed

lemma parse_digits_loop_val:
  "\<forall>r \<in> set cs. 48 \<le> r \<and> r \<le> 57 \<Longrightarrow>
     parse_digits_loop (wrap64 (int m)) cs = Inr (wrap64 (int (dec_val m cs)))"
proof (induction cs arbitrary: m)
  case Nil
  then show ?case by simp
next
  case (Cons c cs)
  then have c: "48 \<le> c" "c \<le> 57" by simp_all
  then obtain d where d: "c = 48 + d" using le_Suc_ex by blast
  have "wrap64 (wrap64 (int m) * 10 + int d) = wrap64 (int (m * 10 + d))"
    using wrap64_mult_add [of "int m" 10 "int d"] by simp
  with c Cons.prems Cons.IH [of "m * 10 + d"] show ?case by (simp add: d)
qed

lemma dec_nat_all_digits: "\<forall>r \<in> set (dec_nat n). 48 \<le> r \<and> r \<le> 57"
  using dec_nat_digits by blast

lemma signed_digits_dec_nat:
  "signed_digits neg (dec_nat n) = Inr (if neg then wrap64 (- int n) else wrap64 (int n))"
proof -
  have "parse_digits_loop (wrap64 (int 0)) (dec_nat n) = Inr (wrap64 (int n))"
    using parse_digits_loop_val [OF dec_nat_all_digits, of 0 n] by simp
  then have "parse_digits (dec_nat n) = Inr (wrap64 (int n))"
    by (simp add: parse_digits_def i64_def)
  then show ?thesis by (simp add: signed_digits_def wrap64_uminus)
qed

lemma cut_digits:
  assumes "\<forall>r \<in> set ds. 48 \<le> r \<and> r \<le> (57::nat)"
  shows "cut 46 (ds @ 46 # rest) = (ds, rest, True)"
proof -
  have "\<forall>r \<in> set ds. r \<noteq> 46" using assms by force
  then show ?thesis by (simp add: cut_def takeWhile_append2 dropWhile_append2)
qed

lemma parse_format_digits:
  "parse_yuan_amount ((if neg then [45] else []) @ dec_nat n @ [46, 48, 48]) =
     Inr (if neg then wrap64 (- int n) else wrap64 (int n))"
proof -
  let ?t = "(if neg then [45] else []) @ dec_nat n @ [46, 48, 48]"
  note ds = dec_nat_all_digits [of n]
  have "\<forall>r \<in> set ?t. \<not> is_space r"
    using ds by (auto simp: is_space_def)
  then have "trim_space ?t = ?t"
    by (intro trim_space_no_space) blast
  moreover have "hd (dec_nat n) \<noteq> 45"
    using ds hd_in_set [OF dec_nat_ne, of n] by force
  ultimately show ?thesis
    using cut_digits [OF ds, of "[48, 48]"]
    by (cases neg) (simp_all add: parse_yuan_amount_def Let_def signed_digits_dec_nat)
qed

text \<open>Every \<open>int64\<close> amount survives being written for the provider and read back.\<close>

lemma parse_format_yuan: "i64 y \<Longrightarrow> parse_yuan_amount (format_yuan y) = Inr y"
  using parse_format_digits [of True "nat (- y)"] parse_format_digits [of False "nat y"]
  by (cases "y < 0") (simp_all add: format_yuan_def dec_def)

end
