(* ===== verification/Wallet_Ledger.thy ===== *)
theory Wallet_Ledger
  imports Wallet_Rules "HOL-Library.Product_Lexorder"
begin

text \<open>
  The accounting core of the wallet: lots and ledger rows. The statements are those of
  \<open>internal/wallet/repo.go\<close>; \<open>grant_in_tx\<close>, \<open>spend_in_tx\<close>, \<open>expire_lot\<close> and \<open>write_ledger\<close> are
  the functions of \<open>internal/wallet/service.go\<close> through which every change of a balance goes.

  \<open>books_ok\<close> is the invariant of the books: a lot's remaining coins are the sum of the ledger rows
  that name it, never negative, and every ledger row belongs to a lot of its account or moves
  nothing. \<open>posted\<close> says what an operation added to the ledger.
\<close>

section \<open>Statements on the wallet tables\<close>

definition upd_wallet :: "(wallet_tables \<Rightarrow> wallet_tables) \<Rightarrow> db \<Rightarrow> db" where
  "upd_wallet f d = d\<lparr>d_wallet := f (d_wallet d)\<rparr>"

definition push_ledger :: "ledger \<Rightarrow> wallet_tables \<Rightarrow> wallet_tables" where
  "push_ledger e t = t\<lparr>ledgers := ledgers t @ [e]\<rparr>"

definition push_lot :: "lot \<Rightarrow> wallet_tables \<Rightarrow> wallet_tables" where
  "push_lot l t = t\<lparr>lots := lots t @ [l]\<rparr>"

definition put_remaining :: "nat \<Rightarrow> int \<Rightarrow> wallet_tables \<Rightarrow> wallet_tables" where
  "put_remaining i v t = t\<lparr>lots := update_where (\<lambda>l. lot_id l = i) (\<lambda>l. l\<lparr>lot_remaining := v\<rparr>) (lots t)\<rparr>"

definition available :: "nat \<Rightarrow> instant \<Rightarrow> lot \<Rightarrow> bool" where
  "available acc now l \<longleftrightarrow> lot_account l = acc \<and> 0 < lot_remaining l
     \<and> (case lot_expire l of None \<Rightarrow> True | Some t \<Rightarrow> now < t)"

text \<open>\<open>CASE WHEN expire_at IS NULL THEN 1 ELSE 0 END, expire_at, created_at, id\<close>.\<close>

definition lot_order :: "lot \<Rightarrow> nat \<times> int \<times> int \<times> nat" where
  "lot_order l = (case lot_expire l of None \<Rightarrow> (1, 0, lot_created l, lot_id l)
     | Some t \<Rightarrow> (0, t, lot_created l, lot_id l))"

definition available_list :: "nat \<Rightarrow> instant \<Rightarrow> wallet_tables \<Rightarrow> lot list" where
  "available_list acc now t = sort_key lot_order (filter (available acc now) (lots t))"

definition available_lots :: "nat \<Rightarrow> instant \<Rightarrow> lot list op" where
  "available_lots acc now = query (\<lambda>d. available_list acc now (d_wallet d))"

definition expired :: "instant \<Rightarrow> lot \<Rightarrow> bool" where
  "expired now l \<longleftrightarrow> 0 < lot_remaining l \<and> (case lot_expire l of None \<Rightarrow> False | Some t \<Rightarrow> t \<le> now)"

definition expired_lots :: "instant \<Rightarrow> nat \<Rightarrow> lot list op" where
  "expired_lots now limit = query (\<lambda>d. take limit (sort_key lot_id (filter (expired now) (lots (d_wallet d)))))"

definition expired_lots_for_account :: "nat \<Rightarrow> instant \<Rightarrow> lot list op" where
  "expired_lots_for_account acc now = query (\<lambda>d. sort_key lot_id
     (filter (\<lambda>l. lot_account l = acc \<and> expired now l) (lots (d_wallet d))))"

definition set_remaining :: "nat \<Rightarrow> int \<Rightarrow> unit op" where
  "set_remaining i v = exec (upd_wallet (put_remaining i v))"

section \<open>Granting, spending, expiring\<close>

definition create_ledger :: "nat \<Rightarrow> nat \<Rightarrow> int \<Rightarrow> biz_type \<Rightarrow> gostr \<Rightarrow> gostr \<Rightarrow> instant \<Rightarrow> unit op" where
  "create_ledger acc lot amount biz rt rid now = bnd (create WalletLedgers no_dup
     (\<lambda>i. upd_wallet (push_ledger \<lparr>led_id = i, led_account = acc, led_lot = lot, led_biz = biz,
        led_amount = amount, led_ref_type = rt, led_ref_id = rid, led_created = now\<rparr>))) (\<lambda>_. ret ())"

definition write_ledger :: "nat \<Rightarrow> nat \<Rightarrow> int \<Rightarrow> biz_type \<Rightarrow> gostr \<Rightarrow> gostr \<Rightarrow> unit op" where
  "write_ledger acc lot amount biz rt rid =
     bnd read_now (\<lambda>now. create_ledger acc lot amount biz rt rid now)"

definition grant_in_tx :: "nat \<Rightarrow> source \<Rightarrow> int \<Rightarrow> biz_type \<Rightarrow> gostr \<Rightarrow> gostr \<Rightarrow> unit op" where
  "grant_in_tx acc src amount biz rt rid = (if amount \<le> 0 then ret () else
     bnd read_now (\<lambda>now. bnd (create WalletLots no_dup
       (\<lambda>i. upd_wallet (push_lot \<lparr>lot_id = i, lot_account = acc, lot_source = src, lot_remaining = amount,
          lot_expire = expire_for src now, lot_created = now\<rparr>)))
     (\<lambda>i. write_ledger acc i amount biz rt rid)))"

definition total_remaining :: "lot list \<Rightarrow> int" where
  "total_remaining ls = fold (\<lambda>l total. wrap64 (total + lot_remaining l)) ls 0"

fun spend_loop :: "nat \<Rightarrow> biz_type \<Rightarrow> gostr \<Rightarrow> gostr \<Rightarrow> int \<Rightarrow> lot list \<Rightarrow> unit op" where
  "spend_loop acc biz rt rid left [] = ret ()"
| "spend_loop acc biz rt rid left (l # ls) = (if left = 0 then ret () else
     let t = (if lot_remaining l > left then left else lot_remaining l) in
     bnd (set_remaining (lot_id l) (lot_remaining l - t)) (\<lambda>_.
     bnd (write_ledger acc (lot_id l) (- t) biz rt rid) (\<lambda>_.
     spend_loop acc biz rt rid (left - t) ls)))"

definition spend_in_tx :: "nat \<Rightarrow> int \<Rightarrow> biz_type \<Rightarrow> gostr \<Rightarrow> gostr \<Rightarrow> unit op" where
  "spend_in_tx acc amount biz rt rid = (if amount \<le> 0 then throw ErrInvalidAmount else
     bnd read_now (\<lambda>now. bnd (available_lots acc now) (\<lambda>ls.
     if total_remaining ls < amount then throw ErrInsufficient
     else spend_loop acc biz rt rid amount ls)))"

definition expire_lot :: "instant \<Rightarrow> lot \<Rightarrow> unit op" where
  "expire_lot now l = (if lot_remaining l \<le> 0 then ret () else
     bnd (set_remaining (lot_id l) 0) (\<lambda>_.
     create_ledger (lot_account l) (lot_id l) (- lot_remaining l) LedgerExpire
       (source_str (lot_source l)) (dec_nat (lot_id l)) now))"

definition expire_account_tx :: "nat \<Rightarrow> instant \<Rightarrow> unit op" where
  "expire_account_tx acc now = bnd (expired_lots_for_account acc now) (each (expire_lot now))"

definition expire_account :: "nat \<Rightarrow> instant \<Rightarrow> unit op" where
  "expire_account acc now = transaction (expire_account_tx acc now)"

section \<open>The books\<close>

definition ledger_sum :: "(ledger \<Rightarrow> bool) \<Rightarrow> wallet_tables \<Rightarrow> int" where
  "ledger_sum P t = (\<Sum>e\<leftarrow>ledgers t. if P e then led_amount e else 0)"

definition balance :: "nat \<Rightarrow> wallet_tables \<Rightarrow> int" where
  "balance acc t = (\<Sum>l\<leftarrow>lots t. if lot_account l = acc then lot_remaining l else 0)"

definition books_ok :: "nat \<Rightarrow> wallet_tables \<Rightarrow> bool" where
  "books_ok n t \<longleftrightarrow> distinct (map lot_id (lots t))
     \<and> (\<forall>l \<in> set (lots t). 0 < lot_id l \<and> lot_id l \<le> n \<and> 0 \<le> lot_remaining l
          \<and> lot_remaining l = ledger_sum (\<lambda>e. led_lot e = lot_id l) t)
     \<and> (\<forall>e \<in> set (ledgers t). led_lot e = 0 \<and> led_amount e = 0
          \<or> (\<exists>l \<in> set (lots t). lot_id l = led_lot e \<and> lot_account l = led_account e))"

text \<open>The tables beside the books, which no grant, spending or expiry writes.\<close>

definition same_rest :: "wallet_tables \<Rightarrow> wallet_tables \<Rightarrow> bool" where
  "same_rest t t' \<longleftrightarrow> dailies t' = dailies t \<and> orders t' = orders t \<and> tips t' = tips t \<and> platform t' = platform t"

definition posted :: "(ledger \<Rightarrow> bool) \<Rightarrow> int \<Rightarrow> wallet_tables \<Rightarrow> wallet_tables \<Rightarrow> bool" where
  "posted P s t t' \<longleftrightarrow> same_rest t t'
     \<and> (\<exists>es. ledgers t' = ledgers t @ es \<and> (\<forall>e \<in> set es. P e) \<and> (\<Sum>e\<leftarrow>es. led_amount e) = s)"

abbreviation wallet_of :: "db world \<Rightarrow> wallet_tables" where
  "wallet_of w \<equiv> d_wallet (tabs w)"

abbreviation lot_seq :: "db world \<Rightarrow> nat" where
  "lot_seq w \<equiv> seqs w WalletLots"

lemma ledger_sum_push [simp]:
  "ledger_sum P (push_ledger e t) = ledger_sum P t + (if P e then led_amount e else 0)"
  by (simp add: ledger_sum_def push_ledger_def)

lemma ledger_sum_lots [simp]: "ledger_sum P (push_lot l t) = ledger_sum P t"
  "ledger_sum P (put_remaining i v t) = ledger_sum P t"
  by (simp_all add: ledger_sum_def push_lot_def put_remaining_def)

lemma ledger_sum_zero: "(\<And>e. e \<in> set (ledgers t) \<Longrightarrow> \<not> P e) \<Longrightarrow> ledger_sum P t = 0"
proof -
  assume "\<And>e. e \<in> set (ledgers t) \<Longrightarrow> \<not> P e"
  then have zero: "map (\<lambda>e. if P e then led_amount e else 0) (ledgers t) = map (\<lambda>_. 0) (ledgers t)"
    by simp
  show ?thesis unfolding ledger_sum_def zero by simp
qed

lemma books_ok_mono: "books_ok n t \<Longrightarrow> n \<le> m \<Longrightarrow> books_ok m t"
  unfolding books_ok_def using le_trans by blast

lemma books_ok_cong: "lots t' = lots t \<Longrightarrow> ledgers t' = ledgers t \<Longrightarrow> books_ok n t' = books_ok n t"
  by (simp add: books_ok_def ledger_sum_def)

lemma books_okI:
  assumes "distinct (map lot_id (lots t))"
    and "\<And>l. l \<in> set (lots t) \<Longrightarrow> 0 < lot_id l \<and> lot_id l \<le> n \<and> 0 \<le> lot_remaining l"
    and "\<And>l. l \<in> set (lots t) \<Longrightarrow> lot_remaining l = ledger_sum (\<lambda>e. led_lot e = lot_id l) t"
    and "\<And>e. e \<in> set (ledgers t) \<Longrightarrow> led_lot e = 0 \<and> led_amount e = 0
          \<or> (\<exists>l \<in> set (lots t). lot_id l = led_lot e \<and> lot_account l = led_account e)"
  shows "books_ok n t"
  using assms by (simp add: books_ok_def)

lemma books_okD:
  assumes "books_ok n t"
  shows "distinct (map lot_id (lots t))"
    and "l \<in> set (lots t) \<Longrightarrow> 0 < lot_id l \<and> lot_id l \<le> n \<and> 0 \<le> lot_remaining l"
    and "l \<in> set (lots t) \<Longrightarrow> lot_remaining l = ledger_sum (\<lambda>e. led_lot e = lot_id l) t"
    and "e \<in> set (ledgers t) \<Longrightarrow> led_lot e = 0 \<and> led_amount e = 0
          \<or> (\<exists>l \<in> set (lots t). lot_id l = led_lot e \<and> lot_account l = led_account e)"
    and "l \<in> set (lots t) \<Longrightarrow> l' \<in> set (lots t) \<Longrightarrow> lot_id l' = lot_id l \<Longrightarrow> l' = l"
  using assms by (auto simp: books_ok_def dest: distinct_map_inj_eq)

text \<open>A new lot with its grant row, a withdrawal from a lot with its row, a row that moves nothing.\<close>

lemma books_ok_grant:
  assumes ok: "books_ok n t" and new: "n < lot_id l" "0 \<le> lot_remaining l"
    and e: "led_lot e = lot_id l" "led_account e = lot_account l" "led_amount e = lot_remaining l"
  shows "books_ok (lot_id l) (push_ledger e (push_lot l t))"
proof (rule books_okI)
  have old: "lot_id l' < lot_id l" if "l' \<in> set (lots t)" for l'
    using books_okD(2) [OF ok that] new(1) by simp
  then have "lot_id l \<notin> lot_id ` set (lots t)" by force
  then show "distinct (map lot_id (lots (push_ledger e (push_lot l t))))"
    using books_okD(1) [OF ok] by (simp add: push_ledger_def push_lot_def)
  have "\<not> led_lot d = lot_id l" if "d \<in> set (ledgers t)" for d
    using books_okD(4) [OF ok that] old new(1) by (metis less_irrefl not_less_zero)
  then have zero: "ledger_sum (\<lambda>d. led_lot d = lot_id l) t = 0"
    by (rule ledger_sum_zero)
  fix k assume "k \<in> set (lots (push_ledger e (push_lot l t)))"
  then have k: "k = l \<or> k \<in> set (lots t)" by (auto simp: push_ledger_def push_lot_def)
  show "0 < lot_id k \<and> lot_id k \<le> lot_id l \<and> 0 \<le> lot_remaining k"
    using k old books_okD(2) [OF ok, of k] new by auto
  show "lot_remaining k = ledger_sum (\<lambda>e. led_lot e = lot_id k) (push_ledger e (push_lot l t))"
    using k old [of k] books_okD(3) [OF ok, of k] zero e by (cases "k = l") auto
next
  fix d assume "d \<in> set (ledgers (push_ledger e (push_lot l t)))"
  then have d: "d = e \<or> d \<in> set (ledgers t)" by (auto simp: push_ledger_def push_lot_def)
  then show "led_lot d = 0 \<and> led_amount d = 0
      \<or> (\<exists>l \<in> set (lots (push_ledger e (push_lot l t))). lot_id l = led_lot d \<and> lot_account l = led_account d)"
    using books_okD(4) [OF ok, of d] e by (auto simp: push_ledger_def push_lot_def)
qed

lemma books_ok_draw:
  assumes ok: "books_ok n t" and l: "l \<in> set (lots t)" and v: "0 \<le> v"
    and e: "led_lot e = lot_id l" "led_account e = lot_account l" "led_amount e = v - lot_remaining l"
  shows "books_ok n (push_ledger e (put_remaining (lot_id l) v t))"
proof (rule books_okI)
  let ?t = "push_ledger e (put_remaining (lot_id l) v t)"
  have lots': "lots ?t = update_where (\<lambda>k. lot_id k = lot_id l) (\<lambda>k. k\<lparr>lot_remaining := v\<rparr>) (lots t)"
    by (simp add: push_ledger_def put_remaining_def)
  have ledgers': "ledgers ?t = ledgers t @ [e]"
    by (simp add: push_ledger_def put_remaining_def)
  have "map lot_id (lots ?t) = map lot_id (lots t)"
    unfolding lots' by (rule map_update_where) simp
  then show "distinct (map lot_id (lots ?t))" using books_okD(1) [OF ok] by simp
  fix k assume "k \<in> set (lots ?t)"
  then obtain k0 where k0: "k0 \<in> set (lots t)" "k = (if lot_id k0 = lot_id l then k0\<lparr>lot_remaining := v\<rparr> else k0)"
    by (auto simp: lots' set_update_where)
  show "0 < lot_id k \<and> lot_id k \<le> n \<and> 0 \<le> lot_remaining k"
    using books_okD(2) [OF ok k0(1)] k0(2) v by simp
  have "lot_id k0 = lot_id l \<Longrightarrow> k0 = l" by (rule books_okD(5) [OF ok l k0(1)])
  then show "lot_remaining k = ledger_sum (\<lambda>e. led_lot e = lot_id k) ?t"
    using books_okD(3) [OF ok k0(1)] k0(2) e by auto
next
  let ?t = "push_ledger e (put_remaining (lot_id l) v t)"
  fix d assume "d \<in> set (ledgers ?t)"
  then have "d = e \<or> d \<in> set (ledgers t)" by (auto simp: push_ledger_def put_remaining_def)
  then obtain k where "led_lot d = 0 \<and> led_amount d = 0 \<or> k \<in> set (lots t) \<and> lot_id k = led_lot d \<and> lot_account k = led_account d"
    using books_okD(4) [OF ok, of d] l e by metis
  moreover have "k \<in> set (lots t) \<Longrightarrow> \<exists>k' \<in> set (lots ?t). lot_id k' = lot_id k \<and> lot_account k' = lot_account k"
    by (rule bexI [of _ "if lot_id k = lot_id l then k\<lparr>lot_remaining := v\<rparr> else k"])
      (use in_update_where [of k "lots t" "\<lambda>k. lot_id k = lot_id l" "\<lambda>k. k\<lparr>lot_remaining := v\<rparr>"]
        in \<open>simp_all add: push_ledger_def put_remaining_def split: if_splits\<close>)
  ultimately show "led_lot d = 0 \<and> led_amount d = 0
      \<or> (\<exists>l \<in> set (lots ?t). lot_id l = led_lot d \<and> lot_account l = led_account d)"
    by metis
qed

lemma books_ok_zero_row:
  "books_ok n t \<Longrightarrow> led_lot e = 0 \<Longrightarrow> led_amount e = 0 \<Longrightarrow> books_ok n (push_ledger e t)"
  by (auto simp: books_ok_def ledger_sum_def push_ledger_def)

section \<open>What is posted\<close>

lemma same_rest_simps [simp]:
  "same_rest t t" "same_rest t (push_ledger e u) = same_rest t u" "same_rest t (push_lot l u) = same_rest t u"
  "same_rest t (put_remaining i v u) = same_rest t u"
  by (simp_all add: same_rest_def push_ledger_def push_lot_def put_remaining_def)

lemma posted_refl [simp]: "posted P 0 t t"
  by (simp add: posted_def)

lemma posted_trans: "posted P a t u \<Longrightarrow> posted P b u v \<Longrightarrow> s = a + b \<Longrightarrow> posted P s t v"
  by (fastforce simp: posted_def same_rest_def)

lemma posted_ex: "posted P a t u \<Longrightarrow> posted P b u v \<Longrightarrow> \<exists>s. posted P s t v"
  using posted_trans by blast

lemma posted_weaken: "posted P s t u \<Longrightarrow> (\<And>e. P e \<Longrightarrow> Q e) \<Longrightarrow> posted Q s t u"
  by (auto simp: posted_def)

lemma posted_rest: "posted P s t u \<Longrightarrow> dailies u = dailies t \<and> orders u = orders t \<and> tips u = tips t \<and> platform u = platform t"
  by (simp add: posted_def same_rest_def)

lemma posted_push: "ledgers u = ledgers t \<Longrightarrow> same_rest t u \<Longrightarrow> P e \<Longrightarrow> posted P (led_amount e) t (push_ledger e u)"
  by (auto simp: posted_def push_ledger_def same_rest_def)

lemma posted_ledgers: "posted P s t u \<Longrightarrow> e \<in> set (ledgers u) \<Longrightarrow> e \<in> set (ledgers t) \<or> P e"
  by (auto simp: posted_def)

lemma posted_keeps: "posted P s t u \<Longrightarrow> set (ledgers t) \<subseteq> set (ledgers u)"
  by (auto simp: posted_def)

lemma posted_sum:
  assumes "posted P s t u" "\<And>e. P e \<Longrightarrow> Q e = b"
  shows "ledger_sum Q u = ledger_sum Q t + (if b then s else 0)"
proof -
  obtain es where es: "ledgers u = ledgers t @ es" "\<forall>e \<in> set es. P e" "(\<Sum>e\<leftarrow>es. led_amount e) = s"
    using assms(1) by (auto simp: posted_def)
  have m: "map (\<lambda>e. if Q e then led_amount e else 0) es = map (\<lambda>e. if b then led_amount e else 0) es"
    using es(2) assms(2) by simp
  have "(\<Sum>e\<leftarrow>es. if Q e then led_amount e else 0) = (if b then s else 0)"
    unfolding m using es(3) by (cases b) simp_all
  with es(1) show ?thesis by (simp add: ledger_sum_def)
qed

section \<open>The operations keep the books\<close>

definition good :: "db world \<Rightarrow> bool" where
  "good w \<longleftrightarrow> books_ok (lot_seq w) (wallet_of w)"

lemma upd_wallet_sel [simp]:
  "d_wallet (upd_wallet f d) = f (d_wallet d)" "d_invoice (upd_wallet f d) = d_invoice d"
  "d_accounts (upd_wallet f d) = d_accounts d" "d_videos (upd_wallet f d) = d_videos d"
  "d_likes (upd_wallet f d) = d_likes d" "d_relations (upd_wallet f d) = d_relations d"
  "d_notifs (upd_wallet f d) = d_notifs d" "d_outbox (upd_wallet f d) = d_outbox d"
  "d_processed (upd_wallet f d) = d_processed d" "d_comments (upd_wallet f d) = d_comments d"
  "d_audit (upd_wallet f d) = d_audit d" "d_idem (upd_wallet f d) = d_idem d"
  by (simp_all add: upd_wallet_def)

text \<open>The rows one grant, one spending or one expiry writes.\<close>

definition rows_of :: "nat \<Rightarrow> biz_type \<Rightarrow> gostr \<Rightarrow> gostr \<Rightarrow> ledger \<Rightarrow> bool" where
  "rows_of acc biz rt rid e \<longleftrightarrow> led_account e = acc \<and> led_biz e = biz \<and> led_ref_type e = rt \<and> led_ref_id e = rid"

lemma wp_grant_in_tx:
  assumes "good w"
  shows "wp (grant_in_tx acc src amount biz rt rid)
    (\<lambda>_ w'. good w' \<and> posted (rows_of acc biz rt rid) (max 0 amount) (wallet_of w) (wallet_of w')) (\<lambda>_ _. True) w"
proof (cases "amount \<le> 0")
  case True
  then show ?thesis using assms by (simp add: grant_in_tx_def wp_rules max_def)
next
  case False
  then have pos: "max 0 amount = amount" by simp
  let ?l = "\<lambda>now. \<lparr>lot_id = Suc (lot_seq w), lot_account = acc, lot_source = src, lot_remaining = amount,
          lot_expire = expire_for src now, lot_created = now\<rparr>"
  let ?e = "\<lambda>i now. \<lparr>led_id = i, led_account = acc, led_lot = Suc (lot_seq w), led_biz = biz,
        led_amount = amount, led_ref_type = rt, led_ref_id = rid, led_created = now\<rparr>"
  have "books_ok (Suc (lot_seq w)) (push_ledger (?e i t1) (push_lot (?l t2) (wallet_of w)))" for i t1 t2
    using books_ok_grant [of "lot_seq w" "wallet_of w" "?l t2" "?e i t1"] assms False by (simp add: good_def)
  moreover have "posted (rows_of acc biz rt rid) amount (wallet_of w) (push_ledger (?e i t1) (push_lot (?l t2) (wallet_of w)))" for i t1 t2
    using posted_push [of "push_lot (?l t2) (wallet_of w)" "wallet_of w" "rows_of acc biz rt rid" "?e i t1"]
    by (simp add: push_lot_def rows_of_def same_rest_def)
  ultimately show ?thesis using False
    by (simp add: grant_in_tx_def write_ledger_def create_ledger_def wp_rules pos Let_def good_def)
qed

lemma wp_grant_pos:
  "good w \<Longrightarrow> 0 \<le> amount \<Longrightarrow> wp (grant_in_tx acc src amount biz rt rid)
    (\<lambda>_ w'. good w' \<and> posted (rows_of acc biz rt rid) amount (wallet_of w) (wallet_of w')) (\<lambda>_ _. True) w"
  using wp_grant_in_tx [of w acc src amount biz rt rid] by (simp add: max_def)

lemma wp_draw_lot:
  assumes "good w" "l \<in> set (lots (wallet_of w))" "0 \<le> v" "amount = v - lot_remaining l"
  shows "wp (bnd (set_remaining (lot_id l) v) (\<lambda>_. create_ledger (lot_account l) (lot_id l) amount biz rt rid now))
    (\<lambda>_ w'. good w' \<and> posted (rows_of (lot_account l) biz rt rid) amount (wallet_of w) (wallet_of w')
        \<and> lots (wallet_of w') = lots (put_remaining (lot_id l) v (wallet_of w))) (\<lambda>_ _. True) w"
    (is ?A)
    and "wp (bnd (set_remaining (lot_id l) v) (\<lambda>_. write_ledger (lot_account l) (lot_id l) amount biz rt rid))
    (\<lambda>_ w'. good w' \<and> posted (rows_of (lot_account l) biz rt rid) amount (wallet_of w) (wallet_of w')
        \<and> lots (wallet_of w') = lots (put_remaining (lot_id l) v (wallet_of w))) (\<lambda>_ _. True) w"
    (is ?B)
proof -
  let ?e = "\<lambda>i now. \<lparr>led_id = i, led_account = lot_account l, led_lot = lot_id l, led_biz = biz,
        led_amount = amount, led_ref_type = rt, led_ref_id = rid, led_created = now\<rparr>"
  let ?t = "\<lambda>i now. push_ledger (?e i now) (put_remaining (lot_id l) v (wallet_of w))"
  have "books_ok (lot_seq w) (?t i now)" for i now
    using books_ok_draw [of "lot_seq w" "wallet_of w" l v "?e i now"] assms by (simp add: good_def)
  moreover have "posted (rows_of (lot_account l) biz rt rid) amount (wallet_of w) (?t i now)" for i now
    using posted_push [of "put_remaining (lot_id l) v (wallet_of w)" "wallet_of w" "rows_of (lot_account l) biz rt rid" "?e i now"]
    by (simp add: put_remaining_def rows_of_def same_rest_def)
  moreover have "lots (?t i now) = lots (put_remaining (lot_id l) v (wallet_of w))" for i now
    by (simp add: push_ledger_def)
  ultimately show ?A ?B
    by (simp_all add: set_remaining_def write_ledger_def create_ledger_def wp_rules Let_def good_def)
qed

text \<open>Expiry rows, of the accounts that satisfy \<open>P\<close>.\<close>

definition expiry_rows :: "(nat \<Rightarrow> bool) \<Rightarrow> ledger \<Rightarrow> bool" where
  "expiry_rows P e \<longleftrightarrow> led_biz e = LedgerExpire \<and> P (led_account e)"

lemma wp_expire_lot:
  assumes "good w" "l \<in> set (lots (wallet_of w))"
  shows "wp (expire_lot now l)
    (\<lambda>_ w'. good w' \<and> posted (expiry_rows (\<lambda>a. a = lot_account l)) (- lot_remaining l) (wallet_of w) (wallet_of w')
        \<and> lots (wallet_of w') = lots (put_remaining (lot_id l) 0 (wallet_of w))) (\<lambda>_ _. True) w"
proof (cases "lot_remaining l \<le> 0")
  case True
  with assms have zero: "lot_remaining l = 0"
    using books_okD(2) [of "lot_seq w" "wallet_of w" l] by (simp add: good_def)
  have "put_remaining (lot_id l) 0 (wallet_of w) = wallet_of w"
  proof -
    have "update_where (\<lambda>k. lot_id k = lot_id l) (\<lambda>k. k\<lparr>lot_remaining := 0\<rparr>) (lots (wallet_of w)) = lots (wallet_of w)"
      unfolding update_where_def
    proof (rule map_idI)
      fix k assume "k \<in> set (lots (wallet_of w))"
      then have "lot_id k = lot_id l \<Longrightarrow> k = l"
        using assms books_okD(5) [of "lot_seq w" "wallet_of w" l k] by (simp add: good_def)
      then show "(if lot_id k = lot_id l then k\<lparr>lot_remaining := 0\<rparr> else k) = k"
        using zero by auto
    qed
    then show ?thesis by (simp add: put_remaining_def)
  qed
  with True zero assms show ?thesis by (simp add: expire_lot_def wp_rules)
next
  case False
  show ?thesis
    using False wp_draw_lot(1) [OF assms, of 0 "- lot_remaining l" LedgerExpire "source_str (lot_source l)" "dec_nat (lot_id l)" now]
    by (auto simp: expire_lot_def rows_of_def expiry_rows_def elim!: wp_mono posted_weaken)
qed

text \<open>Loops over distinct lots that are still in the table.\<close>

lemma put_remaining_others:
  "l' \<in> set (lots t) \<Longrightarrow> lot_id l' \<noteq> i \<Longrightarrow> l' \<in> set (lots (put_remaining i v t))"
  using in_update_where [of l' "lots t" "\<lambda>k. lot_id k = i" "\<lambda>k. k\<lparr>lot_remaining := v\<rparr>"]
  by (simp add: put_remaining_def)

text \<open>Setting several lots to zero.\<close>

definition zero_lots :: "lot list \<Rightarrow> wallet_tables \<Rightarrow> wallet_tables" where
  "zero_lots ls t = t\<lparr>lots := update_where (\<lambda>l. lot_id l \<in> lot_id ` set ls) (\<lambda>l. l\<lparr>lot_remaining := 0\<rparr>) (lots t)\<rparr>"

lemma zero_lots_Nil [simp]: "lots (zero_lots [] t) = lots t"
  by (simp add: zero_lots_def update_where_def)

lemma zero_lots_Cons:
  "lots u = lots (put_remaining (lot_id l) 0 t) \<Longrightarrow> lots (zero_lots ls u) = lots (zero_lots (l # ls) t)"
  by (auto simp: zero_lots_def put_remaining_def update_where_def)

lemma wp_expire_lots:
  assumes "good w" "distinct (map lot_id ls)" "set ls \<subseteq> set (lots (wallet_of w))" "\<forall>l \<in> set ls. P (lot_account l)"
  shows "wp (each (expire_lot now) ls)
    (\<lambda>_ w'. good w' \<and> posted (expiry_rows P) (- (\<Sum>l\<leftarrow>ls. lot_remaining l)) (wallet_of w) (wallet_of w')
       \<and> lots (wallet_of w') = lots (zero_lots ls (wallet_of w)))
    (\<lambda>_ _. True) w"
  using assms
proof (induction ls arbitrary: w)
  case Nil
  then show ?case by (simp add: wp_rules)
next
  case (Cons l ls)
  show ?case
    unfolding each.simps
  proof (rule wp_and_then [OF wp_expire_lot])
    show "good w" "l \<in> set (lots (wallet_of w))" using Cons.prems by auto
    fix x w'
    assume mid: "good w' \<and> posted (expiry_rows (\<lambda>a. a = lot_account l)) (- lot_remaining l) (wallet_of w) (wallet_of w')
        \<and> lots (wallet_of w') = lots (put_remaining (lot_id l) 0 (wallet_of w))"
    have sub: "set ls \<subseteq> set (lots (wallet_of w'))"
      using Cons.prems mid by (auto intro!: put_remaining_others simp: image_iff)
    have first: "posted (expiry_rows P) (- lot_remaining l) (wallet_of w) (wallet_of w')"
      using mid Cons.prems(4) by (auto simp: expiry_rows_def elim!: posted_weaken)
    show "wp (each (expire_lot now) ls)
      (\<lambda>_ w'. good w' \<and> posted (expiry_rows P) (- (\<Sum>l\<leftarrow>l # ls. lot_remaining l)) (wallet_of w) (wallet_of w')
         \<and> lots (wallet_of w') = lots (zero_lots (l # ls) (wallet_of w)))
      (\<lambda>_ _. True) w'"
    proof (rule wp_mono [OF Cons.IH [of w']])
      show "good w'" using mid by simp
      show "distinct (map lot_id ls)" "\<forall>l \<in> set ls. P (lot_account l)" using Cons.prems by simp_all
      show "set ls \<subseteq> set (lots (wallet_of w'))" by (rule sub)
      fix x u
      assume "good u \<and> posted (expiry_rows P) (- (\<Sum>l\<leftarrow>ls. lot_remaining l)) (wallet_of w') (wallet_of u)
         \<and> lots (wallet_of u) = lots (zero_lots ls (wallet_of w'))"
      then show "good u \<and> posted (expiry_rows P) (- (\<Sum>l\<leftarrow>l # ls. lot_remaining l)) (wallet_of w) (wallet_of u)
         \<and> lots (wallet_of u) = lots (zero_lots (l # ls) (wallet_of w))"
        using posted_trans [OF first, of "- (\<Sum>l\<leftarrow>ls. lot_remaining l)" "wallet_of u"]
          mid zero_lots_Cons [of "wallet_of w'" l "wallet_of w" ls] by simp
    qed simp
  qed
qed

lemma distinct_sub_lots:
  "books_ok n t \<Longrightarrow> distinct (map lot_id (sort_key f (filter P (lots t)))) \<and> set (sort_key f (filter P (lots t))) \<subseteq> set (lots t)"
  by (auto simp: distinct_map inj_on_def dest: books_okD(1))

lemma sum_insort_key: "(\<Sum>x\<leftarrow>insort_key k y xs. f x) = (f y + (\<Sum>x\<leftarrow>xs. f x) :: int)"
  by (induction xs) auto

lemma sum_sort_key: "(\<Sum>x\<leftarrow>sort_key k xs. f x) = (\<Sum>x\<leftarrow>xs. (f x :: int))"
  by (induction xs) (simp_all add: sort_key_def sum_insort_key)

text \<open>What an account has lost to expiry but not yet been told, and what it can spend.\<close>

definition expired_due :: "nat \<Rightarrow> instant \<Rightarrow> wallet_tables \<Rightarrow> int" where
  "expired_due acc now t = (\<Sum>l\<leftarrow>lots t. if lot_account l = acc \<and> expired now l then lot_remaining l else 0)"

definition spendable :: "nat \<Rightarrow> instant \<Rightarrow> wallet_tables \<Rightarrow> int" where
  "spendable acc now t = (\<Sum>l\<leftarrow>lots t. if available acc now l then lot_remaining l else 0)"

definition none_expired :: "nat \<Rightarrow> instant \<Rightarrow> wallet_tables \<Rightarrow> bool" where
  "none_expired acc now t \<longleftrightarrow> (\<forall>l \<in> set (lots t). lot_account l = acc \<longrightarrow> \<not> expired now l)"

lemma spendable_balance:
  assumes "books_ok n t"
  shows "balance acc t = spendable acc now t + expired_due acc now t"
proof -
  have "(if lot_account l = acc then lot_remaining l else 0) =
      (if available acc now l then lot_remaining l else 0) +
      (if lot_account l = acc \<and> expired now l then lot_remaining l else 0)" if "l \<in> set (lots t)" for l
    using books_okD(2) [OF assms that] by (auto simp: available_def expired_def split: option.splits)
  then have "balance acc t = (\<Sum>l\<leftarrow>lots t. (if available acc now l then lot_remaining l else 0) +
      (if lot_account l = acc \<and> expired now l then lot_remaining l else 0))"
    unfolding balance_def by (intro arg_cong [of _ _ sum_list] map_cong) simp_all
  then show ?thesis by (simp add: spendable_def expired_due_def sum_list_addf)
qed

lemma expired_due_none:
  assumes "none_expired acc now t"
  shows "expired_due acc now t = 0"
proof -
  have zero: "map (\<lambda>l. if lot_account l = acc \<and> expired now l then lot_remaining l else 0) (lots t) = map (\<lambda>_. 0) (lots t)"
    using assms by (auto simp: none_expired_def)
  show ?thesis unfolding expired_due_def zero by simp
qed

lemma wp_expire_account_tx:
  assumes "good w"
  shows "wp (expire_account_tx acc now)
    (\<lambda>_ w'. good w' \<and> posted (expiry_rows (\<lambda>a. a = acc)) (- expired_due acc now (wallet_of w)) (wallet_of w) (wallet_of w')
       \<and> none_expired acc now (wallet_of w')) (\<lambda>_ _. True) w"
proof -
  let ?t = "wallet_of w"
  let ?ls = "sort_key lot_id (filter (\<lambda>l. lot_account l = acc \<and> expired now l) (lots ?t))"
  have ls: "distinct (map lot_id ?ls)" "set ?ls \<subseteq> set (lots ?t)"
    using distinct_sub_lots [of "lot_seq w" "wallet_of w"] assms by (auto simp: good_def)
  have due: "(\<Sum>l\<leftarrow>?ls. lot_remaining l) = expired_due acc now ?t"
    by (simp only: sum_sort_key sum_list_filter_if expired_due_def)
  have none: "none_expired acc now t'" if "lots t' = lots (zero_lots ?ls ?t)" for t'
    using that by (auto simp: none_expired_def zero_lots_def set_update_where expired_def image_iff)
  have "wp (each (expire_lot now) ?ls)
    (\<lambda>_ w'. good w' \<and> posted (expiry_rows (\<lambda>a. a = acc)) (- (\<Sum>l\<leftarrow>?ls. lot_remaining l)) (wallet_of (next_stmt w)) (wallet_of w')
       \<and> lots (wallet_of w') = lots (zero_lots ?ls (wallet_of (next_stmt w)))) (\<lambda>_ _. True) (next_stmt w)"
    by (rule wp_expire_lots) (use ls assms in \<open>simp_all add: good_def\<close>)
  then have "wp (each (expire_lot now) ?ls)
    (\<lambda>_ w'. good w' \<and> posted (expiry_rows (\<lambda>a. a = acc)) (- expired_due acc now ?t) ?t (wallet_of w')
       \<and> none_expired acc now (wallet_of w')) (\<lambda>_ _. True) (next_stmt w)"
    unfolding due by (rule wp_mono) (use none in simp_all)
  then show ?thesis
    by (simp add: expire_account_tx_def expired_lots_for_account_def wp_rules)
qed

definition remaining_of :: "nat \<Rightarrow> wallet_tables \<Rightarrow> int" where
  "remaining_of i t = (\<Sum>l\<leftarrow>lots t. if lot_id l = i then lot_remaining l else 0)"

lemma remaining_of_cong: "lots t = lots u \<Longrightarrow> remaining_of i t = remaining_of i u"
  by (simp add: remaining_of_def)

lemma remaining_of_lot: "distinct (map lot_id (lots t)) \<Longrightarrow> l \<in> set (lots t) \<Longrightarrow> remaining_of (lot_id l) t = lot_remaining l"
  unfolding remaining_of_def by (rule sum_list_distinct_unique)

lemma remaining_of_put_other: "i \<noteq> j \<Longrightarrow> remaining_of j (put_remaining i v t) = remaining_of j t"
proof -
  assume "i \<noteq> j"
  then have "map (\<lambda>l. if lot_id l = j then lot_remaining l else 0) (lots (put_remaining i v t))
      = map (\<lambda>l. if lot_id l = j then lot_remaining l else 0) (lots t)"
    unfolding put_remaining_def by (simp add: map_update_where)
  then show ?thesis by (simp only: remaining_of_def)
qed

lemma remaining_of_put: "distinct (map lot_id (lots t)) \<Longrightarrow> l \<in> set (lots t) \<Longrightarrow> remaining_of (lot_id l) (put_remaining (lot_id l) v t) = v"
proof -
  assume d: "distinct (map lot_id (lots t))" and l: "l \<in> set (lots t)"
  have "map lot_id (lots (put_remaining (lot_id l) v t)) = map lot_id (lots t)"
    unfolding put_remaining_def by (simp add: map_update_where)
  moreover have "l\<lparr>lot_remaining := v\<rparr> \<in> set (lots (put_remaining (lot_id l) v t))"
    using l in_update_where [of l "lots t" "\<lambda>k. lot_id k = lot_id l" "\<lambda>k. k\<lparr>lot_remaining := v\<rparr>"]
    by (simp add: put_remaining_def)
  ultimately show ?thesis
    using remaining_of_lot [of "put_remaining (lot_id l) v t" "l\<lparr>lot_remaining := v\<rparr>"] d by simp
qed

text \<open>Spending: the rows sum to the amount, and a lot is touched only once every lot before it is
  empty.\<close>

definition drained :: "lot list \<Rightarrow> wallet_tables \<Rightarrow> bool" where
  "drained ls t \<longleftrightarrow> sorted_wrt (\<lambda>l l'. remaining_of (lot_id l') t \<noteq> lot_remaining l' \<longrightarrow> remaining_of (lot_id l) t = 0) ls"

definition others_kept :: "lot list \<Rightarrow> wallet_tables \<Rightarrow> wallet_tables \<Rightarrow> bool" where
  "others_kept ls t u \<longleftrightarrow> (\<forall>i. i \<notin> lot_id ` set ls \<longrightarrow> remaining_of i u = remaining_of i t)"

lemma drained_Cons:
  assumes "drained ls u" "remaining_of (lot_id l) u = 0 \<or> (\<forall>l' \<in> set ls. remaining_of (lot_id l') u = lot_remaining l')"
  shows "drained (l # ls) u"
  using assms by (auto simp: drained_def)

lemma untouched_list:
  assumes "books_ok n t" "set ls \<subseteq> set (lots t)"
  shows "\<forall>l \<in> set ls. remaining_of (lot_id l) t = lot_remaining l"
  using assms remaining_of_lot [OF books_okD(1) [OF assms(1)]] by blast

lemma drained_untouched: "\<forall>l \<in> set ls. remaining_of (lot_id l) t = lot_remaining l \<Longrightarrow> drained ls t"
  by (induction ls) (auto simp: drained_def)

text \<open>One withdrawal of \<open>k\<close> coins from \<open>l\<close>, taking \<open>t\<close> to \<open>m\<close>, followed by the rest of the loop,
  taking \<open>m\<close> to \<open>u\<close>.\<close>

definition spent :: "(ledger \<Rightarrow> bool) \<Rightarrow> int \<Rightarrow> lot list \<Rightarrow> wallet_tables \<Rightarrow> wallet_tables \<Rightarrow> bool" where
  "spent P left ls t u \<longleftrightarrow> posted P (- left) t u \<and> drained ls u \<and> others_kept ls t u
     \<and> (left = 0 \<longrightarrow> lots u = lots t)"

lemma spent_step:
  assumes ok: "books_ok n t" "l \<in> set (lots t)" "lot_id l \<notin> lot_id ` set ls"
    and m: "books_ok n' m" "lots m = lots (put_remaining (lot_id l) (lot_remaining l - k) t)" "set ls \<subseteq> set (lots m)"
      "posted P (- k) t m"
    and k: "k = left \<or> k = lot_remaining l" "left \<noteq> 0"
    and u: "spent P (left - k) ls m u"
  shows "spent P left (l # ls) t u"
proof -
  have "remaining_of (lot_id l) u = remaining_of (lot_id l) m"
    using u ok(3) by (simp add: spent_def others_kept_def)
  also have "\<dots> = lot_remaining l - k"
    using remaining_of_put [OF books_okD(1) [OF ok(1)] ok(2)] remaining_of_cong [OF m(2)] by simp
  finally have first: "remaining_of (lot_id l) u = lot_remaining l - k" .
  have "\<forall>l' \<in> set ls. remaining_of (lot_id l') u = lot_remaining l'" if "k = left"
    using that u untouched_list [OF m(1,3)] by (simp add: spent_def remaining_of_cong [of u m])
  then have "drained (l # ls) u"
    using u k(1) first by (intro drained_Cons) (auto simp: spent_def)
  moreover have "posted P (- left) t u"
    using m(4) u by (auto simp: spent_def intro: posted_trans)
  moreover have "remaining_of i u = remaining_of i t" if "i \<notin> lot_id ` set (l # ls)" for i
  proof -
    have "remaining_of i u = remaining_of i m" using u that by (simp add: spent_def others_kept_def)
    also have "\<dots> = remaining_of i t"
      using that remaining_of_cong [OF m(2), of i] remaining_of_put_other [of "lot_id l" i] by auto
    finally show ?thesis .
  qed
  ultimately show ?thesis using k(2) by (simp add: spent_def others_kept_def)
qed

lemma wp_spend_loop:
  assumes "good w" "distinct (map lot_id ls)" "set ls \<subseteq> set (lots (wallet_of w))"
    and "\<forall>l \<in> set ls. lot_account l = acc" "0 \<le> left" "left \<le> (\<Sum>l\<leftarrow>ls. lot_remaining l)"
  shows "wp (spend_loop acc biz rt rid left ls)
    (\<lambda>_ w'. good w' \<and> spent (rows_of acc biz rt rid) left ls (wallet_of w) (wallet_of w')) (\<lambda>_ _. True) w"
  using assms
proof (induction ls arbitrary: left w)
  case Nil
  then show ?case by (simp add: wp_rules spent_def drained_def others_kept_def)
next
  case (Cons l ls)
  have ok: "books_ok (lot_seq w) (wallet_of w)" and l: "l \<in> set (lots (wallet_of w))"
    using Cons.prems by (auto simp: good_def)
  show ?case
  proof (cases "left = 0")
    case True
    have "drained (l # ls) (wallet_of w)"
      by (rule drained_untouched [OF untouched_list [OF ok Cons.prems(3)]])
    with True Cons.prems(1) show ?thesis by (simp add: wp_rules spent_def others_kept_def)
  next
    case False
    define k where "k = (if lot_remaining l > left then left else lot_remaining l)"
    have rem: "0 \<le> lot_remaining l" using books_okD(2) [OF ok l] by simp
    have k: "0 \<le> lot_remaining l - k" "0 \<le> left - k" "k = left \<or> k = lot_remaining l"
      using rem Cons.prems(5) by (auto simp: k_def)
    have "0 \<le> (\<Sum>l\<leftarrow>ls. lot_remaining l)"
      using Cons.prems(3) books_okD(2) [OF ok] by (intro sum_list_nonneg_int) auto
    then have enough: "left - k \<le> (\<Sum>l\<leftarrow>ls. lot_remaining l)"
      using Cons.prems(6) by (auto simp: k_def)
    have acc: "lot_account l = acc" using Cons.prems(4) by simp
    have "wp (bnd (bnd (set_remaining (lot_id l) (lot_remaining l - k)) (\<lambda>_. write_ledger acc (lot_id l) (- k) biz rt rid))
        (\<lambda>_. spend_loop acc biz rt rid (left - k) ls))
      (\<lambda>_ w'. good w' \<and> spent (rows_of acc biz rt rid) left (l # ls) (wallet_of w) (wallet_of w')) (\<lambda>_ _. True) w"
    proof (rule wp_and_then [OF wp_draw_lot(2) [OF Cons.prems(1) l k(1), of "- k" biz rt rid, unfolded acc]])
      fix x w'
      assume mid: "good w' \<and> posted (rows_of acc biz rt rid) (- k) (wallet_of w) (wallet_of w')
        \<and> lots (wallet_of w') = lots (put_remaining (lot_id l) (lot_remaining l - k) (wallet_of w))"
      have sub: "set ls \<subseteq> set (lots (wallet_of w'))"
        using Cons.prems(2,3) mid by (auto intro!: put_remaining_others simp: image_iff)
      have IH: "wp (spend_loop acc biz rt rid (left - k) ls)
        (\<lambda>_ u. good u \<and> spent (rows_of acc biz rt rid) (left - k) ls (wallet_of w') (wallet_of u)) (\<lambda>_ _. True) w'"
        using Cons.prems(2,4) mid sub enough k by (intro Cons.IH) auto
      show "wp (spend_loop acc biz rt rid (left - k) ls)
        (\<lambda>_ u. good u \<and> spent (rows_of acc biz rt rid) left (l # ls) (wallet_of w) (wallet_of u)) (\<lambda>_ _. True) w'"
      proof (rule wp_mono [OF IH])
        fix y u
        assume post: "good u \<and> spent (rows_of acc biz rt rid) (left - k) ls (wallet_of w') (wallet_of u)"
        have "spent (rows_of acc biz rt rid) left (l # ls) (wallet_of w) (wallet_of u)"
          by (rule spent_step [where m = "wallet_of w'" and n' = "lot_seq w'" and k = k, OF ok l _ _ _ sub])
            (use mid post Cons.prems(2) False k(3) in \<open>simp_all add: good_def\<close>)
        then show "good u \<and> spent (rows_of acc biz rt rid) left (l # ls) (wallet_of w) (wallet_of u)"
          using post by simp
      qed simp
    qed simp
    then show ?thesis using False by (simp add: k_def [symmetric] Let_def bnd_assoc)
  qed
qed

lemma total_remaining_le:
  "\<forall>l \<in> set ls. 0 \<le> lot_remaining l \<Longrightarrow> total_remaining ls \<le> (\<Sum>l\<leftarrow>ls. lot_remaining l)"
proof -
  have "i64 t \<Longrightarrow> fold (\<lambda>l total. wrap64 (total + lot_remaining l)) ls t \<le> t + (\<Sum>l\<leftarrow>ls. lot_remaining l)"
    if "\<forall>l \<in> set ls. 0 \<le> lot_remaining l" for t
    using that
  proof (induction ls arbitrary: t)
    case (Cons l ls)
    have "wrap64 (t + lot_remaining l) \<le> t + lot_remaining l"
      using Cons.prems by (intro wrap64_le) (auto simp: i64_def)
    moreover have "fold (\<lambda>l total. wrap64 (total + lot_remaining l)) ls (wrap64 (t + lot_remaining l))
        \<le> wrap64 (t + lot_remaining l) + (\<Sum>l\<leftarrow>ls. lot_remaining l)"
      using Cons.prems by (intro Cons.IH) simp_all
    ultimately show ?case by simp
  qed simp
  from this [of 0] show "\<forall>l \<in> set ls. 0 \<le> lot_remaining l \<Longrightarrow> ?thesis"
    by (simp add: total_remaining_def i64_def)
qed

text \<open>A successful spending posts rows that sum to minus the amount, whatever the overflow in the
  check of the total, and drains the available lots in their order.\<close>

lemma wp_spend_in_tx:
  assumes "good w"
  shows "wp (spend_in_tx acc amount biz rt rid)
    (\<lambda>_ w'. good w' \<and> 0 < amount \<and> spent (rows_of acc biz rt rid) amount
        (available_list acc (clock w (ticks w)) (wallet_of w)) (wallet_of w) (wallet_of w')) (\<lambda>_ _. True) w"
proof -
  let ?ls = "available_list acc (clock w (ticks w)) (wallet_of w)"
  have ok: "books_ok (lot_seq w) (wallet_of w)" using assms by (simp add: good_def)
  have ls: "distinct (map lot_id ?ls)" "set ?ls \<subseteq> set (lots (wallet_of w))"
    using distinct_sub_lots [OF ok] by (simp_all add: available_list_def)
  have acc: "\<forall>l \<in> set ?ls. lot_account l = acc"
    by (simp add: available_list_def available_def)
  have "total_remaining ?ls \<le> (\<Sum>l\<leftarrow>?ls. lot_remaining l)"
    using ls(2) books_okD(2) [OF ok] by (intro total_remaining_le) auto
  then have loop: "wp (spend_loop acc biz rt rid amount ?ls)
      (\<lambda>_ w'. good w' \<and> spent (rows_of acc biz rt rid) amount ?ls (wallet_of w) (wallet_of w')) (\<lambda>_ _. True) w0"
    if "tabs w0 = tabs w" "seqs w0 = seqs w" "\<not> amount \<le> 0" "\<not> total_remaining ?ls < amount" for w0
    using wp_spend_loop [of w0 ?ls acc amount biz rt rid] that ls acc assms by (simp add: good_def)
  show ?thesis
    by (auto simp: spend_in_tx_def available_lots_def wp_rules intro!: wp_mono [OF loop])
qed

section \<open>Balances\<close>

lemma sum_list_swap:
  fixes f :: "'a \<Rightarrow> 'b \<Rightarrow> int"
  shows "(\<Sum>x\<leftarrow>xs. \<Sum>y\<leftarrow>ys. f x y) = (\<Sum>y\<leftarrow>ys. \<Sum>x\<leftarrow>xs. f x y)"
  by (induction xs) (simp_all add: sum_list_addf)

text \<open>An account's balance is what its ledger rows add up to.\<close>

lemma balance_ledger:
  assumes ok: "books_ok n t"
  shows "balance acc t = ledger_sum (\<lambda>e. led_account e = acc) t"
proof -
  let ?f = "\<lambda>l e. if lot_account l = acc \<and> led_lot e = lot_id l then led_amount e else 0"
  have lot: "(if lot_account l = acc then lot_remaining l else 0) = (\<Sum>e\<leftarrow>ledgers t. ?f l e)"
    if "l \<in> set (lots t)" for l
    using books_okD(3) [OF ok that] by (cases "lot_account l = acc") (simp_all add: ledger_sum_def)
  have row: "(\<Sum>l\<leftarrow>lots t. ?f l e) = (if led_account e = acc then led_amount e else 0)"
    if "e \<in> set (ledgers t)" for e
    using books_okD(4) [OF ok that]
  proof (elim disjE bexE conjE)
    assume "led_amount e = 0"
    then have "map (\<lambda>l. ?f l e) (lots t) = map (\<lambda>_. 0) (lots t)" by simp
    then show ?thesis using \<open>led_amount e = 0\<close> by (simp only:) simp
  next
    fix l assume l: "l \<in> set (lots t)" "lot_id l = led_lot e" "lot_account l = led_account e"
    let ?c = "if led_account e = acc then led_amount e else 0"
    have "?f k e = (if lot_id k = lot_id l then ?c else 0)" if "k \<in> set (lots t)" for k
      using l(2,3) books_okD(5) [OF ok l(1) that] by (cases "lot_id k = lot_id l") auto
    then have "(\<Sum>k\<leftarrow>lots t. ?f k e) = (\<Sum>k\<leftarrow>lots t. if lot_id k = lot_id l then ?c else 0)"
      by (intro arg_cong [of _ _ sum_list] map_cong) simp_all
    then show ?thesis
      using sum_list_distinct_unique [OF books_okD(1) [OF ok] l(1), of "\<lambda>_. ?c"] by (simp only:)
  qed
  have "balance acc t = (\<Sum>l\<leftarrow>lots t. \<Sum>e\<leftarrow>ledgers t. ?f l e)"
    unfolding balance_def by (rule arg_cong [of _ _ sum_list]) (simp add: lot)
  also have "\<dots> = (\<Sum>e\<leftarrow>ledgers t. \<Sum>l\<leftarrow>lots t. ?f l e)" by (rule sum_list_swap)
  also have "\<dots> = ledger_sum (\<lambda>e. led_account e = acc) t"
    unfolding ledger_sum_def by (rule arg_cong [of _ _ sum_list]) (simp add: row)
  finally show ?thesis .
qed

section \<open>Frames\<close>

lemma frame_ledger_ops [rel_rules]:
  assumes "\<And>f d. g (upd_wallet f d) = g d"
  shows "steps (frame g) (set_remaining i v)" "steps (frame g) (create_ledger acc l a b rt rid now)"
    "steps (frame g) (write_ledger acc l a b rt rid)" "steps (frame g) (grant_in_tx acc src a b rt rid)"
    "steps (frame g) (expire_lot now x)"
  unfolding set_remaining_def create_ledger_def write_ledger_def grant_in_tx_def expire_lot_def
  by (intro rel_rules; simp add: assms frame_def)+

lemma frame_spend_loop [rel_rules]:
  "(\<And>f d. g (upd_wallet f d) = g d) \<Longrightarrow> steps (frame g) (spend_loop acc b rt rid left ls)"
  by (induction ls arbitrary: left) (auto simp: Let_def intro!: rel_rules)

lemma frame_wallet_txs [rel_rules]:
  assumes "\<And>f d. g (upd_wallet f d) = g d"
  shows "steps (frame g) (spend_in_tx acc a b rt rid)" "steps (frame g) (expire_account_tx acc now)"
    "steps (frame g) (expired_lots now limit)"
  unfolding spend_in_tx_def available_lots_def expire_account_tx_def expired_lots_for_account_def expired_lots_def
  by (intro rel_rules assms)+

end
