(* ===== verification/Wallet_Books.thy ===== *)
theory Wallet_Books
  imports Wallet_Ledger
begin

text \<open>
  The invariant of the wallet tables as a whole. \<open>owed\<close> reads from the business tables (daily
  actions, recharge orders, tips) what the ledger should show under each key of account, kind and
  reference; \<open>vouched\<close> says that the ledger shows exactly that. Registration gifts are counted
  by \<open>gift_ok\<close>, and an expiry row only empties its lot, which \<open>books_ok\<close> covers. \<open>unique_ok\<close> is
  what the unique keys and \<open>AUTO_INCREMENT\<close> give and that an account has one pending order at
  most, \<open>platform_ok\<close> that the platform account holds
  the cuts of the recorded tips.
\<close>

section \<open>What the ledger owes\<close>

type_synonym voucher = "nat \<times> biz_type \<times> gostr \<times> gostr"

definition rows_at :: "voucher \<Rightarrow> ledger \<Rightarrow> bool" where
  "rows_at k e \<longleftrightarrow> (led_account e, led_biz e, led_ref_type e, led_ref_id e) = k"

fun daily_biz :: "daily \<Rightarrow> biz_type" where
  "daily_biz ActionCheckin = LedgerGrantCheckin"
| "daily_biz ActionLottery = LedgerGrantLottery"

fun daily_ref :: "daily \<Rightarrow> gostr" where
  "daily_ref ActionCheckin = lit ''checkin''"
| "daily_ref ActionLottery = lit ''lottery''"

definition daily_key :: "daily_action \<Rightarrow> voucher" where
  "daily_key d = (da_account d, daily_biz (da_action d), daily_ref (da_action d), da_date d)"

definition order_key :: "recharge_order \<Rightarrow> biz_type \<Rightarrow> voucher" where
  "order_key o' b = (ord_account o', b, lit ''recharge'', ord_no o')"

definition tip_ref :: "tip_record \<Rightarrow> gostr" where
  "tip_ref r = dec_nat (tip_id r)"

definition daily_due :: "voucher \<Rightarrow> daily_action \<Rightarrow> int" where
  "daily_due k d = (if k = daily_key d then da_prize d else 0)"

definition order_due :: "voucher \<Rightarrow> recharge_order \<Rightarrow> int" where
  "order_due k o' = (if ord_status o' \<noteq> OrderPaid then 0
     else if k = order_key o' LedgerGrantRecharge then max 0 (ord_coins o')
     else if k = order_key o' LedgerGrantRechargeBonus then max 0 (ord_bonus o') else 0)"

definition tip_due :: "voucher \<Rightarrow> tip_record \<Rightarrow> int" where
  "tip_due k r = (if k = (tip_from r, LedgerConsumeTip, lit ''tip'', tip_ref r) then - tip_coins r
     else if k = (tip_to r, LedgerGrantTip, lit ''tip'', tip_ref r) then max 0 (tip_received r) else 0)"

definition owed :: "wallet_tables \<Rightarrow> voucher \<Rightarrow> int" where
  "owed t k = (\<Sum>d\<leftarrow>dailies t. daily_due k d) + (\<Sum>o'\<leftarrow>orders t. order_due k o') + (\<Sum>r\<leftarrow>tips t. tip_due k r)"

definition accounted :: "voucher \<Rightarrow> bool" where
  "accounted k \<longleftrightarrow> fst (snd k) \<notin> {LedgerGrantRegister, LedgerExpire}"

definition vouched :: "wallet_tables \<Rightarrow> bool" where
  "vouched t \<longleftrightarrow> (\<forall>k. accounted k \<longrightarrow> ledger_sum (rows_at k) t = owed t k)"

section \<open>The other parts\<close>

definition pending_ok :: "recharge_order list \<Rightarrow> bool" where
  "pending_ok os \<longleftrightarrow> (\<forall>x \<in> set os. \<forall>y \<in> set os. ord_status x = OrderPending \<longrightarrow> ord_status y = OrderPending
     \<longrightarrow> ord_account x = ord_account y \<longrightarrow> ord_id x = ord_id y)"

definition unique_ok :: "(table \<Rightarrow> nat) \<Rightarrow> wallet_tables \<Rightarrow> bool" where
  "unique_ok q t \<longleftrightarrow> distinct (map daily_key (dailies t)) \<and> distinct (map ord_no (orders t))
     \<and> distinct (map ord_id (orders t)) \<and> (\<forall>o' \<in> set (orders t). 0 < ord_id o' \<and> ord_id o' \<le> q WalletRechargeOrders)
     \<and> pending_ok (orders t)
     \<and> distinct (map tip_id (tips t)) \<and> (\<forall>r \<in> set (tips t). tip_id r \<le> q WalletTips
          \<and> TipMinCoins \<le> tip_coins r \<and> tip_from r \<noteq> tip_to r \<and> split_tip (tip_coins r) = (tip_received r, tip_cut r))"

definition platform_ok :: "wallet_tables \<Rightarrow> bool" where
  "platform_ok t \<longleftrightarrow> (\<Sum>p\<leftarrow>platform t. pe_amount p) = (\<Sum>r\<leftarrow>tips t. max 0 (tip_cut r))"

definition gift_rows :: "nat \<Rightarrow> wallet_tables \<Rightarrow> ledger list" where
  "gift_rows acc t = filter (\<lambda>e. led_account e = acc \<and> led_biz e = LedgerGrantRegister) (ledgers t)"

definition gift_ok :: "wallet_tables \<Rightarrow> bool" where
  "gift_ok t \<longleftrightarrow> (\<forall>acc. gift_rows acc t = [] \<or> (\<Sum>e\<leftarrow>gift_rows acc t. led_amount e) = RegisterGiftCoins)"

definition wallet_ok :: "(table \<Rightarrow> nat) \<Rightarrow> wallet_tables \<Rightarrow> bool" where
  "wallet_ok q t \<longleftrightarrow> books_ok (q WalletLots) t \<and> vouched t \<and> unique_ok q t \<and> platform_ok t \<and> gift_ok t"

lemma unique_ok_mono: "unique_ok q t \<Longrightarrow> \<forall>s. q s \<le> q' s \<Longrightarrow> unique_ok q' t"
  unfolding unique_ok_def by (meson le_trans)

lemma wallet_ok_mono: "wallet_ok q t \<Longrightarrow> \<forall>s. q s \<le> q' s \<Longrightarrow> wallet_ok q' t"
  unfolding wallet_ok_def using books_ok_mono unique_ok_mono by blast

text \<open>How the wallet may move on: the ledger, the tips, the daily actions and the platform
  account only grow, and an order keeps its number, account and amounts; a paid order stays
  paid, and nothing becomes pending again.\<close>

definition order_step :: "recharge_order \<Rightarrow> recharge_order \<Rightarrow> bool" where
  "order_step x y \<longleftrightarrow> ord_id y = ord_id x \<and> ord_no y = ord_no x \<and> ord_account y = ord_account x
     \<and> ord_yuan y = ord_yuan x \<and> ord_coins y = ord_coins x \<and> ord_bonus y = ord_bonus x
     \<and> ord_created y = ord_created x \<and> ord_status x \<le> ord_status y"

definition prefix_of :: "'a list \<Rightarrow> 'a list \<Rightarrow> bool" where
  "prefix_of xs ys \<longleftrightarrow> (\<exists>zs. ys = xs @ zs)"

definition history :: "wallet_tables \<Rightarrow> wallet_tables \<Rightarrow> bool" where
  "history t t' \<longleftrightarrow> prefix_of (ledgers t) (ledgers t') \<and> prefix_of (dailies t) (dailies t')
     \<and> prefix_of (tips t) (tips t') \<and> prefix_of (platform t) (platform t')
     \<and> (\<forall>x \<in> set (orders t). \<exists>y \<in> set (orders t'). order_step x y)"

lemma order_step_refl [simp]: "order_step x x"
  by (simp add: order_step_def)

lemma order_step_trans: "order_step x y \<Longrightarrow> order_step y z \<Longrightarrow> order_step x z"
  by (auto simp: order_step_def intro: order_trans)

lemma order_step_self [simp]: "x \<in> set xs \<Longrightarrow> \<exists>y \<in> set xs. order_step x y"
  using order_step_refl by blast

lemma prefix_of_simps [simp]: "prefix_of xs xs" "prefix_of xs (xs @ ys)"
  by (simp_all add: prefix_of_def)

lemma prefix_of_trans: "prefix_of xs ys \<Longrightarrow> prefix_of ys zs \<Longrightarrow> prefix_of xs zs"
  by (auto simp: prefix_of_def)

lemma history_refl [simp]: "history t t"
  by (simp add: history_def)

lemma history_trans: "history t u \<Longrightarrow> history u v \<Longrightarrow> history t v"
  unfolding history_def by (meson order_step_trans prefix_of_trans)

interpretation books: table_inv "d_wallet :: db \<Rightarrow> wallet_tables" wallet_ok history
  by unfold_locales (auto intro: wallet_ok_mono history_trans)

abbreviation sound :: "db world \<Rightarrow> bool" where
  "sound w \<equiv> wallet_ok (seqs w) (wallet_of w)"

abbreviation keeps_wallet :: "db world \<Rightarrow> db world \<Rightarrow> bool" where
  "keeps_wallet \<equiv> keeps d_wallet wallet_ok history"

lemma holds_sound [simp]: "holds d_wallet wallet_ok (w :: db world) = sound w"
  by (simp add: holds_def)

text \<open>The rules for composing programs that keep the wallet sound, without the one for
  transactions: inside a transaction the invariant may be broken for a while.\<close>

lemmas kept_rules = books.kept.steps_env books.kept.steps_bnd books.kept.steps_result_of
  books.kept.steps_ignore books.kept.steps_if books.kept.steps_option books.kept.steps_sum books.kept.steps_prod

lemma sound_good: "sound w \<Longrightarrow> good w"
  by (simp add: wallet_ok_def good_def)

lemma empty_wallet_ok: "wallet_ok q empty_wallet"
  by (simp add: wallet_ok_def empty_wallet_def books_ok_def vouched_def owed_def ledger_sum_def
      unique_ok_def pending_ok_def platform_ok_def gift_ok_def gift_rows_def)

section \<open>How the parts change\<close>

lemma rows_of_at: "rows_of acc biz rt rid = rows_at (acc, biz, rt, rid)"
  by (rule ext) (simp add: rows_of_def rows_at_def)

lemma owed_cong: "dailies t' = dailies t \<Longrightarrow> orders t' = orders t \<Longrightarrow> tips t' = tips t \<Longrightarrow> owed t' = owed t"
  by (rule ext) (simp add: owed_def)

lemma posted_owed: "posted P s t t' \<Longrightarrow> owed t' = owed t"
  by (drule posted_rest) (auto intro: owed_cong)

lemma posted_at: "posted (rows_at k0) s t t' \<Longrightarrow>
    ledger_sum (rows_at k) t' = ledger_sum (rows_at k) t + (if k = k0 then s else 0)"
  by (erule posted_sum) (auto simp: rows_at_def)

lemma posted_expiry_at: "posted (expiry_rows P) s t t' \<Longrightarrow> accounted k \<Longrightarrow>
    ledger_sum (rows_at k) t' = ledger_sum (rows_at k) t"
  by (drule posted_sum [where b = False and Q = "rows_at k"]) (auto simp: rows_at_def accounted_def expiry_rows_def)

lemma posted_gift_rows:
  "posted P s t t' \<Longrightarrow> (\<And>e. P e \<Longrightarrow> led_biz e \<noteq> LedgerGrantRegister) \<Longrightarrow> gift_rows acc t' = gift_rows acc t"
  by (auto simp: posted_def gift_rows_def)

lemma posted_gift_ok:
  "posted P s t t' \<Longrightarrow> (\<And>e. P e \<Longrightarrow> led_biz e \<noteq> LedgerGrantRegister) \<Longrightarrow> gift_ok t \<Longrightarrow> gift_ok t'"
  by (simp add: gift_ok_def posted_gift_rows [of P s t t'])

lemma posted_history: "posted P s t t' \<Longrightarrow> history t t'"
  by (auto simp: posted_def same_rest_def history_def)

lemma posted_unique_ok: "posted P s t t' \<Longrightarrow> unique_ok q t' = unique_ok q t"
  by (drule posted_rest) (simp add: unique_ok_def)

lemma posted_platform_ok: "posted P s t t' \<Longrightarrow> platform_ok t' = platform_ok t"
  by (drule posted_rest) (simp add: platform_ok_def)

text \<open>The wallet is sound once the books are, whenever rows posted and facts recorded agree.\<close>

lemma wallet_ok_step:
  assumes "wallet_ok q t" "books_ok (q' WalletLots) t'"
    and "\<And>k. accounted k \<Longrightarrow> ledger_sum (rows_at k) t' - ledger_sum (rows_at k) t = owed t' k - owed t k"
    and "unique_ok q' t'" "platform_ok t'" "gift_ok t'"
  shows "wallet_ok q' t'"
proof -
  have "ledger_sum (rows_at k) t' = owed t' k" if "accounted k" for k
  proof -
    have "vouched t" using assms(1) by (simp add: wallet_ok_def)
    then have "ledger_sum (rows_at k) t = owed t k" using that unfolding vouched_def by blast
    then show ?thesis using assms(3) [OF that] by simp
  qed
  then have "vouched t'" unfolding vouched_def by blast
  with assms show ?thesis by (simp add: wallet_ok_def)
qed

lemma wallet_ok_expired:
  assumes "wallet_ok q t" "books_ok (q' WalletLots) t'" "\<forall>s. q s \<le> q' s"
    and p: "posted (expiry_rows P) s t t'"
  shows "wallet_ok q' t'"
proof (rule wallet_ok_step [where q = q and q' = q' and t = t])
  show "wallet_ok q t" "books_ok (q' WalletLots) t'" by fact+
  show "unique_ok q' t'" "platform_ok t'" "gift_ok t'"
    using assms(1,3) posted_gift_ok [OF p, unfolded expiry_rows_def]
    by (auto simp: wallet_ok_def posted_unique_ok [OF p] posted_platform_ok [OF p] intro: unique_ok_mono)
qed (simp add: posted_expiry_at [OF p] posted_owed [OF p])

text \<open>A frame that is good to have: programs that leave the wallet tables alone keep it sound.\<close>

lemma wallet_untouched: "steps (frame d_wallet) m \<Longrightarrow> steps keeps_wallet m"
  by (rule books.untouched)

section \<open>One recorded fact and its rows\<close>

text \<open>A fact \<open>u\<close> adds to what is owed under \<open>k0\<close>, and the rows posted after it, agree.\<close>

lemma wallet_ok_fact:
  assumes "wallet_ok q t" "books_ok (q' WalletLots) t'"
    and U: "ledgers u = ledgers t" "\<And>k. owed u k = owed t k + (if k = k0 then s else 0)"
    and p: "posted (rows_at k0) s u t'" and k0: "fst (snd k0) \<noteq> LedgerGrantRegister"
    and "unique_ok q' u" "platform_ok u"
  shows "wallet_ok q' t'"
proof (rule wallet_ok_step [where q = q and q' = q' and t = t])
  show "wallet_ok q t" "books_ok (q' WalletLots) t'" by fact+
  show "ledger_sum (rows_at k) t' - ledger_sum (rows_at k) t = owed t' k - owed t k" for k
  proof -
    have "ledger_sum (rows_at k) u = ledger_sum (rows_at k) t" by (simp add: ledger_sum_def U(1))
    then show ?thesis using posted_at [OF p, of k] posted_owed [OF p] U(2) [of k] by simp
  qed
  show "unique_ok q' t'" "platform_ok t'"
    using assms(7,8) by (simp_all add: posted_unique_ok [OF p] posted_platform_ok [OF p])
  have "gift_ok u" using assms(1) U(1) by (simp add: wallet_ok_def gift_ok_def gift_rows_def)
  then show "gift_ok t'" by (rule posted_gift_ok [OF p, rotated]) (use k0 in \<open>auto simp: rows_at_def\<close>)
qed

lemma wallet_ok_parts:
  assumes "wallet_ok q t"
  shows "books_ok (q WalletLots) t" "vouched t" "unique_ok q t" "platform_ok t" "gift_ok t"
  using assms by (simp_all add: wallet_ok_def)

lemma vouched_at: "wallet_ok q t \<Longrightarrow> accounted k \<Longrightarrow> ledger_sum (rows_at k) t = owed t k"
  using wallet_ok_parts(2) unfolding vouched_def by blast

lemma wallet_ok_gift:
  assumes ok: "wallet_ok q t" "\<forall>s. q s \<le> q' s" "books_ok (q' WalletLots) t'"
    and none: "gift_rows acc t = []"
    and p: "posted (rows_at (acc, LedgerGrantRegister, rt, rid)) RegisterGiftCoins t t'"
  shows "wallet_ok q' t'"
proof (rule wallet_ok_step [where q = q and q' = q' and t = t])
  show "wallet_ok q t" "books_ok (q' WalletLots) t'" by fact+
  show "unique_ok q' t'" "platform_ok t'"
    using ok wallet_ok_parts [OF ok(1)]
    by (auto simp: posted_unique_ok [OF p] posted_platform_ok [OF p] intro: unique_ok_mono)
  obtain es where es: "ledgers t' = ledgers t @ es" "\<forall>e \<in> set es. rows_at (acc, LedgerGrantRegister, rt, rid) e"
    "(\<Sum>e\<leftarrow>es. led_amount e) = RegisterGiftCoins" using p by (auto simp: posted_def)
  have "gift_rows a t' = gift_rows a t @ (if a = acc then es else [])" for a
  proof -
    have "filter (\<lambda>e. led_account e = a \<and> led_biz e = LedgerGrantRegister) es = filter (\<lambda>e. a = acc) es"
      using es(2) by (intro filter_cong) (auto simp: rows_at_def)
    then show ?thesis using es(1) by (simp add: gift_rows_def)
  qed
  then show "gift_ok t'"
    using none es(3) wallet_ok_parts(5) [OF ok(1)] by (simp add: gift_ok_def)
qed (use posted_owed [OF p] posted_at [OF p] in \<open>auto simp: accounted_def\<close>)

end
