(* ===== verification/Notification.thy ===== *)
theory Notification
  imports Schema
begin

text \<open>
  Interaction notices (\<open>internal/notification/writer.go\<close> and the parts of \<open>repo.go\<close> it uses):
  the \<open>Writer\<close> projects likes, follows, tips and comments into the recipient's inbox inside the
  transaction of the fact itself. The column \<open>actor_ids\<close> is the JSON of a list of account
  identifiers and is kept as that list. The flag \<open>on\<close> is \<open>w != nil\<close>.
\<close>

section \<open>The notices table\<close>

definition maxStoredActors :: nat where "maxStoredActors = 20"

definition blank_notice :: notification where
  "blank_notice = \<lparr>nt_id = 0, nt_recipient = 0, nt_kind = KindLike, nt_actor = 0, nt_actors = [],
     nt_count = 0, nt_video = 0, nt_comment = 0, nt_root = 0, nt_tip = 0, nt_coins = 0, nt_text = [],
     nt_dedup = [], nt_hidden = False, nt_read_at = None, nt_created = 0, nt_updated = 0\<rparr>"

definition find_by_dedup :: "nat \<Rightarrow> gostr \<Rightarrow> notification option op" where
  "find_by_dedup recipient key = query (\<lambda>d. find (\<lambda>n. nt_recipient n = recipient \<and> nt_dedup n = key) (d_notifs d))"

definition create_notice :: "notification \<Rightarrow> nat op" where
  "create_notice n = create Notifications
     (\<lambda>_ d. \<exists>m \<in> set (d_notifs d). nt_recipient m = nt_recipient n \<and> nt_dedup m = nt_dedup n)
     (\<lambda>i d. d\<lparr>d_notifs := d_notifs d @ [n\<lparr>nt_id := i\<rparr>]\<rparr>)"

definition save_notice :: "notification \<Rightarrow> unit op" where
  "save_notice n = exec (\<lambda>d. d\<lparr>d_notifs := update_where (\<lambda>m. nt_id m = nt_id n) (\<lambda>_. n) (d_notifs d)\<rparr>)"

definition hide_by_comment :: "bool \<Rightarrow> nat \<Rightarrow> unit op" where
  "hide_by_comment on c = (if \<not> on then ret () else if c = 0 then ret () else
     exec (\<lambda>d. d\<lparr>d_notifs := update_where (\<lambda>m. nt_comment m = c \<or> nt_root m = c)
       (\<lambda>m. m\<lparr>nt_hidden := True\<rparr>) (d_notifs d)\<rparr>))"

text \<open>\<open>prependUnique\<close>, \<open>removeID\<close>, \<open>containsID\<close>.\<close>

fun prepend_loop :: "nat list \<Rightarrow> nat list \<Rightarrow> nat \<Rightarrow> nat \<Rightarrow> nat list" where
  "prepend_loop out [] i k = out"
| "prepend_loop out (x # xs) i k = (if x = i then prepend_loop out xs i k
     else if k \<le> length (out @ [x]) then out @ [x] else prepend_loop (out @ [x]) xs i k)"

definition prepend_unique :: "nat list \<Rightarrow> nat \<Rightarrow> nat \<Rightarrow> nat list" where
  "prepend_unique ids i k = prepend_loop [i] ids i k"

definition remove_id :: "nat list \<Rightarrow> nat \<Rightarrow> nat list" where
  "remove_id ids i = filter (\<lambda>x. x \<noteq> i) ids"

section \<open>Likes: one notice per video and author\<close>

definition like_key :: "nat \<Rightarrow> gostr" where
  "like_key vid = lit ''like:v:'' @ dec_nat vid"

definition like_merge :: "nat \<Rightarrow> instant \<Rightarrow> notification \<Rightarrow> notification" where
  "like_merge actor now row = row\<lparr>
     nt_count := (if actor \<in> set (nt_actors row) then nt_count row else nt_count row + 1),
     nt_actor := actor, nt_actors := prepend_unique (nt_actors row) actor maxStoredActors,
     nt_hidden := False, nt_read_at := None, nt_updated := now\<rparr>"

fun like_attempts :: "nat \<Rightarrow> nat \<Rightarrow> nat \<Rightarrow> nat \<Rightarrow> instant \<Rightarrow> unit op" where
  "like_attempts 0 actor vid author now = throw ErrOther"
| "like_attempts (Suc k) actor vid author now = bnd (find_by_dedup author (like_key vid)) (\<lambda>r. case r of
      None \<Rightarrow> bnd (result_of (create_notice (blank_notice\<lparr>nt_recipient := author, nt_kind := KindLike,
          nt_actor := actor, nt_actors := [actor], nt_count := 1, nt_video := vid,
          nt_dedup := like_key vid, nt_created := now, nt_updated := now\<rparr>))) (\<lambda>res. case res of
        Inr _ \<Rightarrow> ret ()
      | Inl e \<Rightarrow> if e = DbDuplicate then like_attempts k actor vid author now else throw e)
    | Some row \<Rightarrow> save_notice (like_merge actor now row))"

definition apply_like :: "bool \<Rightarrow> nat \<Rightarrow> nat \<Rightarrow> nat \<Rightarrow> unit op" where
  "apply_like on actor vid author =
    (if \<not> on \<or> actor = 0 \<or> vid = 0 \<or> author = 0 \<or> actor = author then ret ()
     else bnd read_now (\<lambda>now. like_attempts 3 actor vid author now))"

definition like_retract :: "nat \<Rightarrow> instant \<Rightarrow> notification \<Rightarrow> notification" where
  "like_retract actor now row = (let actors = remove_id (nt_actors row) actor;
     count = (if 0 < nt_count row then nt_count row - 1 else nt_count row);
     row1 = (if count \<le> 0 \<or> actors = []
       then row\<lparr>nt_hidden := True, nt_count := 0, nt_actors := [], nt_actor := 0\<rparr>
       else row\<lparr>nt_count := count, nt_actor := hd actors, nt_actors := actors\<rparr>)
     in row1\<lparr>nt_updated := now\<rparr>)"

definition retract_like :: "bool \<Rightarrow> nat \<Rightarrow> nat \<Rightarrow> nat \<Rightarrow> unit op" where
  "retract_like on actor vid author =
    (if \<not> on \<or> actor = 0 \<or> vid = 0 \<or> author = 0 \<or> actor = author then ret ()
     else bnd (find_by_dedup author (like_key vid)) (\<lambda>r. case r of
        None \<Rightarrow> ret ()
      | Some row \<Rightarrow> bnd read_now (\<lambda>now. save_notice (like_retract actor now row))))"

section \<open>Follows and tips\<close>

definition follow_key :: "nat \<Rightarrow> gostr" where
  "follow_key follower = lit ''follow:a:'' @ dec_nat follower"

fun follow_attempts :: "nat \<Rightarrow> nat \<Rightarrow> nat \<Rightarrow> instant \<Rightarrow> unit op" where
  "follow_attempts 0 follower vlogger now = throw ErrOther"
| "follow_attempts (Suc k) follower vlogger now = bnd (find_by_dedup vlogger (follow_key follower)) (\<lambda>r. case r of
      None \<Rightarrow> bnd (result_of (create_notice (blank_notice\<lparr>nt_recipient := vlogger, nt_kind := KindFollow,
          nt_actor := follower, nt_actors := [follower], nt_count := 1,
          nt_dedup := follow_key follower, nt_created := now, nt_updated := now\<rparr>))) (\<lambda>res. case res of
        Inr _ \<Rightarrow> ret ()
      | Inl e \<Rightarrow> if e = DbDuplicate then follow_attempts k follower vlogger now else throw e)
    | Some row \<Rightarrow> save_notice (row\<lparr>nt_hidden := False, nt_read_at := None, nt_updated := now\<rparr>))"

definition apply_follow :: "bool \<Rightarrow> nat \<Rightarrow> nat \<Rightarrow> unit op" where
  "apply_follow on follower vlogger =
    (if \<not> on \<or> follower = 0 \<or> vlogger = 0 \<or> follower = vlogger then ret ()
     else bnd read_now (\<lambda>now. follow_attempts 3 follower vlogger now))"

definition create_once :: "notification \<Rightarrow> unit op" where
  "create_once n = bnd (result_of (create_notice n)) (\<lambda>res. case res of
     Inr _ \<Rightarrow> ret () | Inl e \<Rightarrow> if e = DbDuplicate then ret () else throw e)"

definition tip_notice :: "nat \<Rightarrow> nat \<Rightarrow> nat \<Rightarrow> nat \<Rightarrow> int \<Rightarrow> instant \<Rightarrow> notification" where
  "tip_notice tip from to vid coins now = blank_notice\<lparr>nt_recipient := to, nt_kind := KindTip,
     nt_actor := from, nt_actors := [from], nt_count := 1, nt_video := vid, nt_tip := tip,
     nt_coins := coins, nt_dedup := lit ''tip:t:'' @ dec_nat tip, nt_created := now, nt_updated := now\<rparr>"

definition apply_tip :: "bool \<Rightarrow> nat \<Rightarrow> nat \<Rightarrow> nat \<Rightarrow> nat \<Rightarrow> int \<Rightarrow> unit op" where
  "apply_tip on tip from to vid coins =
    (if \<not> on \<or> tip = 0 \<or> from = 0 \<or> to = 0 \<or> from = to then ret ()
     else bnd read_now (\<lambda>now. create_once (tip_notice tip from to vid coins now)))"

section \<open>Frames\<close>

lemma frame_notice_stmts [rel_rules]:
  assumes "\<And>d x. g (d\<lparr>d_notifs := x\<rparr>) = g d"
  shows "steps (frame g) (find_by_dedup r k)" "steps (frame g) (create_notice n)"
    "steps (frame g) (save_notice n)" "steps (frame g) (create_once n)" "steps (frame g) (hide_by_comment on c)"
  unfolding find_by_dedup_def create_notice_def save_notice_def create_once_def hide_by_comment_def
  by (intro rel_rules; auto simp: frame_def assms)+

lemma frame_like_attempts [rel_rules]:
  assumes "\<And>d x. g (d\<lparr>d_notifs := x\<rparr>) = g d"
  shows "steps (frame g) (like_attempts k a v u now)" "steps (frame g) (follow_attempts k a v now)"
  by (induction k) (auto intro!: rel_rules assms)

lemma frame_writer [rel_rules]:
  assumes "\<And>d x. g (d\<lparr>d_notifs := x\<rparr>) = g d"
  shows "steps (frame g) (apply_like on a v u)" "steps (frame g) (retract_like on a v u)"
    "steps (frame g) (apply_follow on a v)" "steps (frame g) (apply_tip on t a u v c)"
  unfolding apply_like_def retract_like_def apply_follow_def apply_tip_def
  by (intro rel_rules assms; auto simp: assms)+

end
