(* ===== verification/Outbox.thy ===== *)
theory Outbox
  imports Schema
begin

text \<open>
  The transactional outbox: \<open>internal/mq/message.go\<close> builds the events, \<open>internal/outbox/repo.go\<close>
  stores them in the transaction that causes them and hands them out in leased batches, and
  \<open>internal/outbox/poller.go\<close> delivers them. The broker is the parameter \<open>pub\<close> of
  \<open>run_once\<close>: \<open>None\<close> when it took the event, \<open>Some\<close> of its error text when it did not.
\<close>

section \<open>Events\<close>

definition EventTypePopularityChanged :: gostr where
  "EventTypePopularityChanged = lit ''popularity.changed''"

definition EventTypeVideoTimelinePush :: gostr where
  "EventTypeVideoTimelinePush = lit ''video.timeline.publish''"

definition EventTypeVideoEmbedRequested :: gostr where
  "EventTypeVideoEmbedRequested = lit ''video.embed.requested''"

definition EventTypeTipCreated :: gostr where
  "EventTypeTipCreated = lit ''tip.created''"

definition EventTypeLikeCreated :: gostr where
  "EventTypeLikeCreated = lit ''like.created''"

definition EventTypeLikeDeleted :: gostr where
  "EventTypeLikeDeleted = lit ''like.deleted''"

definition EventTypeCommentCreated :: gostr where
  "EventTypeCommentCreated = lit ''comment.created''"

definition EventTypeCommentDeleted :: gostr where
  "EventTypeCommentDeleted = lit ''comment.deleted''"

definition EventTypeSocialFollowed :: gostr where
  "EventTypeSocialFollowed = lit ''social.followed''"

definition EventTypeSocialUnfollowed :: gostr where
  "EventTypeSocialUnfollowed = lit ''social.unfollowed''"

definition EventTypeAuditRequested :: gostr where
  "EventTypeAuditRequested = lit ''audit.requested''"

definition EventTypeCacheInvalidated :: gostr where
  "EventTypeCacheInvalidated = lit ''cache.invalidated''"

definition CacheNameVideoDetail :: gostr where
  "CacheNameVideoDetail = lit ''video.detail''"

definition ProducerAPIServer :: gostr where
  "ProducerAPIServer = lit ''api-server''"

definition ProducerWorker :: gostr where
  "ProducerWorker = lit ''worker''"

definition new_event_id :: "gostr op" where
  "new_event_id = bnd (result_of rand_read) (\<lambda>r. bnd read_now (\<lambda>t. ret (case r of
     Inl _ \<Rightarrow> dec t | Inr n \<Rightarrow> dec t @ [45] @ hex_bytes 12 n)))"

definition new_envelope :: "gostr \<Rightarrow> gostr \<Rightarrow> payload \<Rightarrow> envelope op" where
  "new_envelope ty producer p = bnd new_event_id (\<lambda>i. bnd read_now (\<lambda>t. ret
     \<lparr>ev_id = i, ev_type = ty, ev_occurred = t, ev_producer = producer, ev_version = 1, ev_payload = p\<rparr>))"

section \<open>Storing and leasing messages\<close>

definition new_message :: "envelope \<Rightarrow> instant \<Rightarrow> nat \<Rightarrow> outbox_msg" where
  "new_message ev now i = \<lparr>ob_id = i, ob_event = ev, ob_status = OutboxPending, ob_attempts = 0,
     ob_next_attempt = now, ob_locked_at = None, ob_lease = [], ob_last_error = []\<rparr>"

definition enqueue :: "envelope \<Rightarrow> unit op" where
  "enqueue ev = bnd read_now (\<lambda>now. bnd (create OutboxMessages
     (\<lambda>_ d. \<exists>m \<in> set (d_outbox d). ev_id (ob_event m) = ev_id ev)
     (\<lambda>i d. d\<lparr>d_outbox := d_outbox d @ [new_message ev now i]\<rparr>)) (\<lambda>_. ret ()))"

definition claimable :: "instant \<Rightarrow> instant \<Rightarrow> outbox_msg \<Rightarrow> bool" where
  "claimable now cutoff m \<longleftrightarrow> ob_status m = OutboxPending \<and> ob_next_attempt m \<le> now
     \<or> ob_status m = OutboxPublishing \<and> (case ob_locked_at m of None \<Rightarrow> False | Some t \<Rightarrow> t \<le> cutoff)"

definition new_lease_token :: "gostr op" where
  "new_lease_token = bnd (result_of rand_read) (\<lambda>r. case r of
     Inl _ \<Rightarrow> bnd read_now (\<lambda>t. ret (lit ''lease-'' @ dec t)) | Inr n \<Rightarrow> ret (hex_bytes 12 n))"

definition claim_row :: "instant \<Rightarrow> gostr \<Rightarrow> outbox_msg \<Rightarrow> outbox_msg" where
  "claim_row now token m = m\<lparr>ob_status := OutboxPublishing, ob_locked_at := Some now,
     ob_lease := token, ob_last_error := [], ob_attempts := ob_attempts m + 1, ob_next_attempt := now\<rparr>"

definition claim_batch :: "int \<Rightarrow> instant \<Rightarrow> duration \<Rightarrow> outbox_msg list op" where
  "claim_batch limit0 now lock_timeout = (let limit = (if limit0 \<le> 0 then 20 else nat limit0);
     cutoff = now - lock_timeout in
   bnd new_lease_token (\<lambda>token. transaction
    (bnd (query (\<lambda>d. take limit (sort_key ob_id (filter (claimable now cutoff) (d_outbox d))))) (\<lambda>candidates.
     if candidates = [] then ret [] else
     let ids = map ob_id candidates; hit = (\<lambda>m. ob_id m \<in> set ids \<and> claimable now cutoff m) in
     bnd (exec_count (\<lambda>d. length (filter hit (d_outbox d)))
            (\<lambda>d. d\<lparr>d_outbox := update_where hit (claim_row now token) (d_outbox d)\<rparr>)) (\<lambda>n.
     if n = 0 then ret [] else
     query (\<lambda>d. sort_key ob_id (filter (\<lambda>m. ob_lease m = token) (d_outbox d))))))))"

definition delete_message :: "nat \<Rightarrow> unit op" where
  "delete_message i = exec (\<lambda>d. d\<lparr>d_outbox := filter (\<lambda>m. ob_id m \<noteq> i) (d_outbox d)\<rparr>)"

text \<open>The error text is cut at 2000 bytes; the model cuts at 2000 code points of the text it is given.\<close>

definition mark_pending :: "nat \<Rightarrow> instant \<Rightarrow> gostr \<Rightarrow> unit op" where
  "mark_pending i retry_at e = exec (\<lambda>d. d\<lparr>d_outbox := update_where (\<lambda>m. ob_id m = i)
     (\<lambda>m. m\<lparr>ob_status := OutboxPending, ob_next_attempt := retry_at, ob_locked_at := None,
            ob_lease := [], ob_last_error := take 2000 e\<rparr>) (d_outbox d)\<rparr>)"

section \<open>The poller\<close>

definition maxRetryDelay :: duration where "maxRetryDelay = Minute"

fun retry_loop :: "nat \<Rightarrow> duration \<Rightarrow> duration" where
  "retry_loop 0 delay = delay"
| "retry_loop (Suc k) delay = (if delay < maxRetryDelay then retry_loop k (delay * 2) else delay)"

definition next_retry_delay :: "int \<Rightarrow> duration" where
  "next_retry_delay attempt = (if attempt \<le> 1 then 2 * Second else
     let delay = retry_loop (nat (attempt - 1)) (2 * Second)
     in if delay > maxRetryDelay then maxRetryDelay else delay)"

definition deliver :: "(envelope \<Rightarrow> gostr option) \<Rightarrow> outbox_msg \<Rightarrow> unit op" where
  "deliver pub row = (case pub (ob_event row) of
      Some e \<Rightarrow> bnd read_now (\<lambda>now. ignore (mark_pending (ob_id row) (now + next_retry_delay (ob_attempts row)) e))
    | None \<Rightarrow> bnd (call (Delivered (ob_id row))) (\<lambda>_. ignore (delete_message (ob_id row))))"

definition run_once :: "(envelope \<Rightarrow> gostr option) \<Rightarrow> unit op" where
  "run_once pub = bnd read_now (\<lambda>now. bnd (claim_batch 20 now (30 * Second)) (each (deliver pub)))"

section \<open>Retry delays\<close>

lemma retry_loop_bounds: "0 < d \<Longrightarrow> d \<le> retry_loop k d \<and> retry_loop k d \<le> max d (2 * maxRetryDelay)"
  by (induction k d rule: retry_loop.induct) (auto simp: maxRetryDelay_def)

lemma retry_loop_mono: "0 < d \<Longrightarrow> retry_loop k d \<le> retry_loop (Suc k) d"
proof (induction k arbitrary: d)
  case (Suc k)
  show ?case
  proof (cases "d < maxRetryDelay")
    case True
    with Suc.prems Suc.IH [of "d * 2"] show ?thesis by simp
  qed simp
qed (simp add: maxRetryDelay_def)

lemma next_retry_delay_bounds: "2 * Second \<le> next_retry_delay a \<and> next_retry_delay a \<le> maxRetryDelay"
  using retry_loop_bounds [of "2 * Second" "nat (a - 1)"]
  by (auto simp: next_retry_delay_def Let_def maxRetryDelay_def)

lemma next_retry_delay_step: "next_retry_delay a \<le> next_retry_delay (a + 1)"
proof (cases "a \<le> 1")
  case True
  then show ?thesis using next_retry_delay_bounds [of "a + 1"] by (simp add: next_retry_delay_def)
next
  case False
  then have "nat (a + 1 - 1) = Suc (nat (a - 1))" by simp
  then show ?thesis using False retry_loop_mono [of "2 * Second" "nat (a - 1)"]
    by (auto simp: next_retry_delay_def Let_def simp del: retry_loop.simps)
qed

section \<open>Frames\<close>

lemma frame_new_event_id [rel_rules]: "steps (frame g) new_event_id"
  unfolding new_event_id_def by (intro rel_rules)

lemma frame_new_envelope [rel_rules]: "steps (frame g) (new_envelope ty p x)"
  unfolding new_envelope_def by (intro rel_rules)

lemma frame_enqueue [rel_rules]:
  "(\<And>d x. g (d\<lparr>d_outbox := x\<rparr>) = g d) \<Longrightarrow> steps (frame g) (enqueue ev)"
  unfolding enqueue_def by (intro rel_rules) (auto simp: frame_def)

end
