(* ===== verification/Tag.thy ===== *)
theory Tag
  imports Schema
begin

text \<open>
  Tags (\<open>internal/tag/tag.go\<close>) and the interest tags of an account
  (\<open>internal/account/interests.go\<close>). A tag list is stored as JSON; \<open>Encode\<close> and \<open>Parse\<close>
  both normalise, so the stored list is a normalised one, normalised again when it is read.
\<close>

section \<open>Labels\<close>

definition Max :: nat where "Max = 7"

definition maxRunes :: nat where "maxRunes = 32"

definition compact :: "gostr \<Rightarrow> gostr" where
  "compact raw = (let s = trim_space raw in
     if s = [] then [] else if length s \<le> maxRunes then s else take maxRunes s)"

text \<open>The loop of \<open>Normalize\<close>, which stops as soon as \<open>out\<close> holds \<open>Max\<close> labels; \<open>seen\<close> always
  has exactly the labels of \<open>out\<close>.\<close>

fun normalize_loop :: "gostr list \<Rightarrow> gostr list \<Rightarrow> gostr list" where
  "normalize_loop out [] = out"
| "normalize_loop out (t # ts) = (let label = compact t in
     if label = [] then normalize_loop out ts
     else if label \<in> set out then normalize_loop out ts
     else if Max \<le> length (out @ [label]) then out @ [label]
     else normalize_loop (out @ [label]) ts)"

definition normalize :: "gostr list \<Rightarrow> gostr list" where
  "normalize tags = normalize_loop [] tags"

fun merge_loop :: "gostr list \<Rightarrow> gostr list \<Rightarrow> gostr list" where
  "merge_loop out [] = out"
| "merge_loop out (raw # rest) = (let label = compact raw in
     if label = [] then merge_loop out rest
     else merge_loop (filter (\<lambda>x. x \<noteq> label) out @ [label]) rest)"

definition merge :: "gostr list \<Rightarrow> gostr list \<Rightarrow> gostr list" where
  "merge existing incoming = (let out = merge_loop (normalize existing) incoming in
     if Max < length out then drop (length out - Max) out else out)"

section \<open>The shape of stored tag lists\<close>

definition tag_list :: "gostr list \<Rightarrow> bool" where
  "tag_list ts \<longleftrightarrow> distinct ts \<and> (\<forall>t \<in> set ts. t \<noteq> [] \<and> length t \<le> maxRunes) \<and> length ts \<le> Max"

lemma length_compact: "length (compact t) \<le> maxRunes"
  by (simp add: compact_def Let_def)

lemma tag_list_Nil [simp]: "tag_list []"
  by (simp add: tag_list_def)

lemma tag_list_snoc:
  "tag_list ts \<Longrightarrow> length ts < Max \<Longrightarrow> t \<noteq> [] \<Longrightarrow> t \<notin> set ts \<Longrightarrow> length t \<le> maxRunes \<Longrightarrow> tag_list (ts @ [t])"
  by (auto simp: tag_list_def)

lemma tag_list_normalize_loop: "tag_list out \<Longrightarrow> length out < Max \<Longrightarrow> tag_list (normalize_loop out ts)"
  by (induction out ts rule: normalize_loop.induct)
    (auto simp: Let_def tag_list_snoc length_compact)

lemma tag_list_normalize: "tag_list (normalize ts)"
  by (simp add: normalize_def tag_list_normalize_loop Max_def)

lemma merge_loop_shape:
  "distinct out \<and> (\<forall>t \<in> set out. t \<noteq> [] \<and> length t \<le> maxRunes) \<Longrightarrow>
   distinct (merge_loop out ts) \<and> (\<forall>t \<in> set (merge_loop out ts). t \<noteq> [] \<and> length t \<le> maxRunes)"
  by (induction out ts rule: merge_loop.induct) (auto simp: Let_def length_compact)

lemma tag_list_merge: "tag_list (merge old new)"
proof -
  have "distinct (merge_loop (normalize old) new) \<and>
      (\<forall>t \<in> set (merge_loop (normalize old) new). t \<noteq> [] \<and> length t \<le> maxRunes)"
    using tag_list_normalize [of old] by (intro merge_loop_shape) (simp add: tag_list_def)
  then show ?thesis
    by (auto simp: merge_def Let_def tag_list_def dest: in_set_dropD)
qed

lemma merge_loop_snoc:
  "merge_loop out (ts @ [t]) = (if compact t = [] then merge_loop out ts
     else filter (\<lambda>x. x \<noteq> compact t) (merge_loop out ts) @ [compact t])"
  by (induction out ts rule: merge_loop.induct) (auto simp: Let_def)

lemma last_drop_suffix: "xs \<noteq> [] \<Longrightarrow> 0 < n \<Longrightarrow> last (drop (length xs - n) xs) = last xs"
  by (simp add: last_drop)

lemma last_merge:
  assumes "compact t \<noteq> []"
  shows "merge old (ts @ [t]) \<noteq> [] \<and> last (merge old (ts @ [t])) = compact t"
  using assms by (auto simp: merge_def Let_def merge_loop_snoc Max_def)

section \<open>Interest tags of an account\<close>

text \<open>\<open>AppendInterestTags\<close>: scanning the column normalises it once.\<close>

definition append_interest_tags :: "nat \<Rightarrow> gostr list \<Rightarrow> unit op" where
  "append_interest_tags acc incoming = (if acc = 0 \<or> incoming = [] then ret () else
   transaction (bnd (query (\<lambda>d. find (\<lambda>a. acc_id a = acc) (d_accounts d))) (\<lambda>r. case r of
      None \<Rightarrow> ret ()
    | Some a \<Rightarrow>
        let row = normalize (acc_interests a); encoded = normalize (merge row incoming) in
        if encoded = normalize row then ret ()
        else exec (\<lambda>d. d\<lparr>d_accounts := update_where (\<lambda>b. acc_id b = acc)
               (\<lambda>b. b\<lparr>acc_interests := encoded\<rparr>) (d_accounts d)\<rparr>))))"

definition record_from_video :: "nat \<Rightarrow> gostr list \<Rightarrow> unit op" where
  "record_from_video acc tags = append_interest_tags acc tags"

lemma frame_append_interest_tags [rel_rules]:
  "(\<And>d x. g (d\<lparr>d_accounts := x\<rparr>) = g d) \<Longrightarrow> steps (frame g) (append_interest_tags acc ts)"
  unfolding append_interest_tags_def Let_def by (intro rel_rules) (auto simp: frame_def)

lemma frame_record_from_video [rel_rules]:
  "(\<And>d x. g (d\<lparr>d_accounts := x\<rparr>) = g d) \<Longrightarrow> steps (frame g) (record_from_video acc ts)"
  unfolding record_from_video_def by (intro rel_rules)

end
