(* ===== verification/Video_Store.thy ===== *)
theory Video_Store
  imports Schema
begin

text \<open>
  Who may see a video (\<open>internal/video/visibility.go\<close>, \<open>entity.go\<close>, \<open>internal/audit/entity.go\<close>)
  and the queries other packages make on the videos table (\<open>internal/video/repo.go\<close>). The empty
  string and the null of the lifecycle column are \<open>LifecycleUnset\<close>.
\<close>

section \<open>Visibility\<close>

definition IsPublic :: "audit_status \<Rightarrow> bool" where
  "IsPublic s \<longleftrightarrow> s = StatusApproved"

definition EffectiveLifecycle :: "video \<Rightarrow> lifecycle" where
  "EffectiveLifecycle v = (if vid_lifecycle v = LifecycleUnset then LifecyclePublished else vid_lifecycle v)"

definition IsDeleted :: "video \<Rightarrow> bool" where
  "IsDeleted v \<longleftrightarrow> vid_deleted_at v \<noteq> None"

definition IsPubliclyListed :: "video \<Rightarrow> bool" where
  "IsPubliclyListed v \<longleftrightarrow> \<not> IsDeleted v \<and> EffectiveLifecycle v = LifecyclePublished \<and> IsPublic (vid_audit v)"

definition IsDraft :: "video \<Rightarrow> bool" where
  "IsDraft v \<longleftrightarrow> \<not> IsDeleted v \<and> EffectiveLifecycle v = LifecycleDraft"

definition IsUnpublished :: "video \<Rightarrow> bool" where
  "IsUnpublished v \<longleftrightarrow> \<not> IsDeleted v \<and> EffectiveLifecycle v = LifecycleUnpublished"

definition ScopePublic :: "video \<Rightarrow> bool" where
  "ScopePublic v \<longleftrightarrow> vid_audit v = StatusApproved
     \<and> (vid_lifecycle v = LifecyclePublished \<or> vid_lifecycle v = LifecycleUnset)
     \<and> vid_deleted_at v = None"

definition scopeAuthorOwned :: "video \<Rightarrow> bool" where
  "scopeAuthorOwned v \<longleftrightarrow> vid_deleted_at v = None
     \<and> (vid_lifecycle v = LifecycleUnset \<or> vid_lifecycle v \<noteq> LifecycleDraft)"

definition scopeDrafts :: "video \<Rightarrow> bool" where
  "scopeDrafts v \<longleftrightarrow> vid_lifecycle v = LifecycleDraft \<and> vid_deleted_at v = None"

definition scopeReviewable :: "video \<Rightarrow> bool" where
  "scopeReviewable v \<longleftrightarrow> vid_deleted_at v = None
     \<and> (vid_lifecycle v = LifecyclePublished \<or> vid_lifecycle v = LifecycleUnset)"

text \<open>The SQL filter and the Go predicate decide the same thing; the four states of a video that
  is not deleted are told apart.\<close>

lemma ScopePublic_iff: "ScopePublic v \<longleftrightarrow> IsPubliclyListed v"
  by (auto simp: ScopePublic_def IsPubliclyListed_def IsDeleted_def EffectiveLifecycle_def IsPublic_def)

lemma scopeDrafts_iff: "scopeDrafts v \<longleftrightarrow> IsDraft v"
  by (auto simp: scopeDrafts_def IsDraft_def IsDeleted_def EffectiveLifecycle_def)

lemma scopeAuthorOwned_iff: "scopeAuthorOwned v \<longleftrightarrow> \<not> IsDeleted v \<and> \<not> IsDraft v"
  by (auto simp: scopeAuthorOwned_def IsDraft_def IsDeleted_def EffectiveLifecycle_def)

lemma lifecycle_partition:
  "\<not> IsDeleted v \<Longrightarrow> IsDraft v \<or> IsUnpublished v \<or> EffectiveLifecycle v = LifecyclePublished"
  by (cases "vid_lifecycle v") (auto simp: IsDraft_def IsUnpublished_def EffectiveLifecycle_def)

section \<open>Queries\<close>

definition video_by_id :: "nat \<Rightarrow> video option op" where
  "video_by_id i = query (\<lambda>d. find (\<lambda>v. vid_id v = i) (d_videos d))"

definition add_clamped :: "int \<Rightarrow> int \<Rightarrow> int" where
  "add_clamped x delta = (if x + delta < 0 then 0 else x + delta)"

definition adjust_video :: "int \<Rightarrow> int \<Rightarrow> int \<Rightarrow> video \<Rightarrow> video" where
  "adjust_video likes comments pop v = v\<lparr>
     vid_likes := (if likes \<noteq> 0 then add_clamped (vid_likes v) likes else vid_likes v),
     vid_comments := (if comments \<noteq> 0 then add_clamped (vid_comments v) comments else vid_comments v),
     vid_popularity := (if pop \<noteq> 0 then add_clamped (vid_popularity v) pop else vid_popularity v)\<rparr>"

definition adjust_counters :: "nat \<Rightarrow> int \<Rightarrow> int \<Rightarrow> int \<Rightarrow> unit op" where
  "adjust_counters i likes comments pop = (if likes = 0 \<and> comments = 0 \<and> pop = 0 then ret ()
     else exec (\<lambda>d. d\<lparr>d_videos := update_where (\<lambda>v. vid_id v = i) (adjust_video likes comments pop) (d_videos d)\<rparr>))"

lemma add_clamped_nonneg: "0 \<le> add_clamped x delta"
  by (simp add: add_clamped_def)

lemma frame_video_by_id [rel_rules]: "steps (frame g) (video_by_id i)"
  unfolding video_by_id_def by (intro rel_rules)

lemma frame_adjust_counters [rel_rules]:
  "(\<And>d x. g (d\<lparr>d_videos := x\<rparr>) = g d) \<Longrightarrow> steps (frame g) (adjust_counters i a b c)"
  unfolding adjust_counters_def by (intro rel_rules) (auto simp: frame_def)

end
