(* ===== verification/Wallet_Service.thy ===== *)
theory Wallet_Service
  imports Wallet_Books Notification Outbox Tag Video_Store
begin

text \<open>
  The operations of \<open>internal/wallet/service.go\<close> other than recharges: the registration gift, the
  summary, the daily check-in and lottery, and tips, with the queries of
  \<open>internal/wallet/repo.go\<close> they make. \<open>wallet_svc\<close> tells which of the optional collaborators of
  the \<open>Service\<close> struct are set; \<open>SetPublisher\<close> sets the outbox together with the publisher.
\<close>

record wallet_svc =
  ws_publisher :: bool
  ws_popularity :: bool
  ws_notify :: bool
  ws_interest :: bool
  ws_recorder :: bool

section \<open>Registration gift\<close>

definition has_register_gift :: "nat \<Rightarrow> bool op" where
  "has_register_gift acc =
     bnd (query (\<lambda>d. \<exists>l \<in> set (lots (d_wallet d)). lot_account l = acc \<and> lot_source l = SourceRegister)) (\<lambda>b.
     if b then ret True
     else query (\<lambda>d. \<exists>e \<in> set (ledgers (d_wallet d)). led_account e = acc \<and> led_biz e = LedgerGrantRegister))"

definition grant_register_gift_tx :: "nat \<Rightarrow> unit op" where
  "grant_register_gift_tx acc = bnd (has_register_gift acc) (\<lambda>exists. if exists then ret ()
     else grant_in_tx acc SourceRegister RegisterGiftCoins LedgerGrantRegister (lit ''account'') (dec_nat acc))"

section \<open>Summary and ledger\<close>

record summary =
  su_available :: int
  su_expiring_soon :: int
  su_next_at :: "instant option"
  su_next_coins :: int

fun summary_loop :: "instant \<Rightarrow> summary \<Rightarrow> lot list \<Rightarrow> summary" where
  "summary_loop warn out [] = out"
| "summary_loop warn out (l # ls) = (let
     out1 = out\<lparr>su_available := wrap64 (su_available out + lot_remaining l)\<rparr>
   in case lot_expire l of None \<Rightarrow> summary_loop warn out1 ls
   | Some t \<Rightarrow> let
       out2 = (if t \<le> warn then out1\<lparr>su_expiring_soon := wrap64 (su_expiring_soon out1 + lot_remaining l)\<rparr> else out1);
       out3 = (case su_next_at out2 of
           None \<Rightarrow> out2\<lparr>su_next_at := Some t, su_next_coins := lot_remaining l\<rparr>
         | Some n \<Rightarrow> if t < n then out2\<lparr>su_next_at := Some t, su_next_coins := lot_remaining l\<rparr>
             else if t = n then out2\<lparr>su_next_coins := wrap64 (su_next_coins out2 + lot_remaining l)\<rparr> else out2)
     in summary_loop warn out3 ls)"

definition repo_summary :: "nat \<Rightarrow> instant \<Rightarrow> summary op" where
  "repo_summary acc now = bnd (query (\<lambda>d. filter (available acc now) (lots (d_wallet d)))) (\<lambda>rows.
     ret (summary_loop (now + ExpireWarnWindow)
       \<lparr>su_available = 0, su_expiring_soon = 0, su_next_at = None, su_next_coins = 0\<rparr> rows))"

definition summary_of :: "nat \<Rightarrow> summary op" where
  "summary_of acc = bnd read_now (\<lambda>now. bnd (expire_account acc now) (\<lambda>_. repo_summary acc now))"

definition list_ledger :: "nat \<Rightarrow> int \<Rightarrow> int \<Rightarrow> ledger list op" where
  "list_ledger acc limit offset = (let (l, m) = clamp_list limit offset in
     query (\<lambda>d. page l m (newest led_id (\<lambda>e. led_account e = acc) (ledgers (d_wallet d)))))"

section \<open>Daily actions\<close>

definition push_daily :: "daily_action \<Rightarrow> wallet_tables \<Rightarrow> wallet_tables" where
  "push_daily a t = t\<lparr>dailies := dailies t @ [a]\<rparr>"

definition claim_daily :: "nat \<Rightarrow> daily \<Rightarrow> int \<Rightarrow> instant \<Rightarrow> unit op" where
  "claim_daily acc action prize now = (let row = (\<lambda>i. \<lparr>da_id = i, da_account = acc, da_action = action,
       da_date = biz_date now, da_prize = prize, da_created = now\<rparr>) in
     bnd (result_of (create WalletDailyActions
       (\<lambda>i d. \<exists>a \<in> set (dailies (d_wallet d)). da_account a = acc \<and> da_action a = action \<and> da_date a = biz_date now)
       (\<lambda>i. upd_wallet (push_daily (row i))))) (\<lambda>r. case r of
         Inl e \<Rightarrow> throw (if e = DbDuplicate then ErrAlreadyClaimed else e)
       | Inr _ \<Rightarrow> ret ()))"

definition checkin_tx :: "nat \<Rightarrow> int \<Rightarrow> instant \<Rightarrow> unit op" where
  "checkin_tx acc prize now = bnd (claim_daily acc ActionCheckin prize now) (\<lambda>_.
     grant_in_tx acc SourceCheckin prize LedgerGrantCheckin (lit ''checkin'') (biz_date now))"

definition checkin :: "nat \<Rightarrow> int op" where
  "checkin acc = bnd random_checkin_bucket (\<lambda>n. let prize = draw_checkin_prize n in
     bnd read_now (\<lambda>now. bnd (transaction (checkin_tx acc prize now)) (\<lambda>_. ret prize)))"

record checkin_month =
  cm_year :: int
  cm_month :: int
  cm_today :: gostr
  cm_claimed_today :: bool
  cm_days :: "(gostr \<times> int) list"

definition checkin_days_in_range :: "nat \<Rightarrow> gostr \<Rightarrow> gostr \<Rightarrow> daily_action list op" where
  "checkin_days_in_range acc start stop = query (\<lambda>d. sort_key da_date (filter (\<lambda>a. da_account a = acc
     \<and> da_action a = ActionCheckin \<and> start \<le> da_date a \<and> da_date a \<le> stop) (dailies (d_wallet d))))"

definition checkin_month :: "nat \<Rightarrow> checkin_month op" where
  "checkin_month acc = bnd read_now (\<lambda>now. let c = shanghai_date now; y = c_year c; m = c_month c;
     start = format_date (civil_of_day (day_of_date y m 1));
     stop = format_date (civil_of_day (day_of_date y (m + 1) 0));
     today = biz_date now in
     bnd (checkin_days_in_range acc start stop) (\<lambda>actions.
     ret \<lparr>cm_year = y, cm_month = m, cm_today = today,
          cm_claimed_today = (\<exists>a \<in> set actions. da_date a = today),
          cm_days = map (\<lambda>a. (da_date a, da_prize a)) actions\<rparr>))"

definition lottery_tx :: "nat \<Rightarrow> int \<Rightarrow> instant \<Rightarrow> unit op" where
  "lottery_tx acc prize now = bnd (claim_daily acc ActionLottery prize now) (\<lambda>_.
     if prize = 0 then write_ledger acc 0 0 LedgerGrantLottery (lit ''lottery'') (biz_date now)
     else grant_in_tx acc SourceLottery prize LedgerGrantLottery (lit ''lottery'') (biz_date now))"

definition lottery :: "nat \<Rightarrow> (int \<times> int) op" where
  "lottery acc = bnd random_lottery_bucket (\<lambda>n. let (prize, index) = draw_lottery n in
     bnd read_now (\<lambda>now. bnd (transaction (lottery_tx acc prize now)) (\<lambda>_. ret (prize, index))))"

section \<open>Tips\<close>

definition push_tip :: "tip_record \<Rightarrow> wallet_tables \<Rightarrow> wallet_tables" where
  "push_tip r t = t\<lparr>tips := tips t @ [r]\<rparr>"

definition push_platform :: "platform_entry \<Rightarrow> wallet_tables \<Rightarrow> wallet_tables" where
  "push_platform p t = t\<lparr>platform := platform t @ [p]\<rparr>"

definition last_tip :: "nat \<Rightarrow> nat \<Rightarrow> tip_record option op" where
  "last_tip acc vid = query (\<lambda>d. case newest tip_id (\<lambda>r. tip_from r = acc \<and> tip_video r = vid) (tips (d_wallet d)) of
     [] \<Rightarrow> None | r # _ \<Rightarrow> Some r)"

definition create_platform :: "int \<Rightarrow> gostr \<Rightarrow> instant \<Rightarrow> unit op" where
  "create_platform amount ref now = bnd (create WalletPlatformEntries no_dup (\<lambda>i. upd_wallet (push_platform
     \<lparr>pe_id = i, pe_amount = amount, pe_ref_type = lit ''tip'', pe_ref_id = ref, pe_created = now\<rparr>))) (\<lambda>_. ret ())"

definition tip_event :: "nat \<Rightarrow> int \<Rightarrow> unit op" where
  "tip_event vid coins = bnd (new_envelope EventTypePopularityChanged ProducerAPIServer
     (PopularityChanged vid coins EventTypeTipCreated)) enqueue"

text \<open>The body of the transaction, from the expiry of the payer's lots to the outbox event.\<close>

definition tip_tx :: "wallet_svc \<Rightarrow> nat \<Rightarrow> gostr \<Rightarrow> nat \<Rightarrow> int \<Rightarrow> nat \<Rightarrow> instant \<Rightarrow> tip_record op" where
  "tip_tx s acc username vid coins author now = (let (received, cut) = split_tip coins in
     bnd (expire_account_tx acc now) (\<lambda>_.
     bnd (last_tip acc vid) (\<lambda>last.
     fail_if (case last of None \<Rightarrow> False | Some r \<Rightarrow> now - tip_created r < TipDebounce) ErrTipTooFrequent
     (let rec = (\<lambda>i. \<lparr>tip_id = i, tip_from = acc, tip_username = username, tip_to = author, tip_video = vid,
        tip_coins = coins, tip_received = received, tip_cut = cut, tip_created = now\<rparr>) in
     bnd (create WalletTips no_dup (\<lambda>i. upd_wallet (push_tip (rec i)))) (\<lambda>i.
     bnd (apply_tip (ws_notify s) i acc author vid coins) (\<lambda>_.
     let ref = dec_nat i in
     bnd (spend_in_tx acc coins LedgerConsumeTip (lit ''tip'') ref) (\<lambda>_.
     bnd (whenever (received > 0) (grant_in_tx author SourceTipIn received LedgerGrantTip (lit ''tip'') ref)) (\<lambda>_.
     bnd (whenever (cut > 0) (create_platform cut ref now)) (\<lambda>_.
     bnd (whenever (ws_publisher s) (tip_event vid coins)) (\<lambda>_.
     ret (rec i)))))))))))"

text \<open>The effects after the commit, none of which can fail the tip.\<close>

definition after_tip :: "wallet_svc \<Rightarrow> nat \<Rightarrow> nat \<Rightarrow> int \<Rightarrow> instant \<Rightarrow> gostr list \<Rightarrow> unit op" where
  "after_tip s acc vid coins now tags =
     bnd (whenever (\<not> ws_publisher s \<and> ws_popularity s) (call (PopularityRecord vid coins now))) (\<lambda>_.
     bnd (whenever (ws_interest s) (call (InvalidateUser acc))) (\<lambda>_.
     whenever (ws_recorder s) (ignore (record_from_video acc tags))))"

definition tip :: "wallet_svc \<Rightarrow> nat \<Rightarrow> gostr \<Rightarrow> nat \<Rightarrow> int \<Rightarrow> tip_record op" where
  "tip s acc username vid coins =
     fail_if (coins < TipMinCoins) ErrInvalidAmount
     (bnd (video_by_id vid) (\<lambda>current. case current of
        None \<Rightarrow> throw ErrVideoNotTippable
      | Some v \<Rightarrow>
        fail_if (\<not> IsPubliclyListed v) ErrVideoNotTippable
        (fail_if (vid_author v = acc) ErrTipSelf
        (bnd read_now (\<lambda>now.
         bnd (transaction (tip_tx s acc username vid coins (vid_author v) now)) (\<lambda>rec.
         bnd (after_tip s acc vid coins now (vid_tags v)) (\<lambda>_. ret rec)))))))"

definition list_my_tips :: "nat \<Rightarrow> int \<Rightarrow> int \<Rightarrow> tip_record list op" where
  "list_my_tips acc limit offset = (let (l, m) = clamp_list limit offset in
     query (\<lambda>d. page l m (newest tip_id (\<lambda>r. tip_from r = acc) (tips (d_wallet d)))))"

definition list_video_tips :: "nat \<Rightarrow> nat \<Rightarrow> int \<Rightarrow> int \<Rightarrow> tip_record list op" where
  "list_video_tips viewer vid limit offset = bnd (video_by_id vid) (\<lambda>current. case current of
      None \<Rightarrow> throw ErrVideoNotTippable
    | Some v \<Rightarrow> let (l, m) = clamp_list limit offset in
        query (\<lambda>d. page l m (newest tip_id
          (\<lambda>r. tip_video r = vid \<and> (vid_author v \<noteq> viewer \<longrightarrow> tip_from r = viewer)) (tips (d_wallet d)))))"

section \<open>Frames\<close>

lemma frame_wallet_service [rel_rules]:
  assumes "\<And>f d. g (upd_wallet f d) = g d"
  shows "steps (frame g) (has_register_gift acc)" "steps (frame g) (claim_daily acc a p now)"
    "steps (frame g) (checkin_tx acc p now)" "steps (frame g) (lottery_tx acc p now)"
    "steps (frame g) (create_platform x ref now)" "steps (frame g) (last_tip acc vid)"
  unfolding has_register_gift_def claim_daily_def checkin_tx_def lottery_tx_def create_platform_def last_tip_def Let_def
  by (intro rel_rules assms; simp add: assms frame_def)+

lemma frame_tip_event [rel_rules]:
  "(\<And>d x. g (d\<lparr>d_outbox := x\<rparr>) = g d) \<Longrightarrow> steps (frame g) (tip_event vid coins)"
  unfolding tip_event_def by (intro rel_rules)

lemma grows_tip_tx [rel_rules]: "steps grows (tip_tx s acc u vid coins author now)"
  unfolding tip_tx_def Let_def by (intro rel_rules) (simp_all add: frame_def)

section \<open>The daily actions keep the wallet sound\<close>

lemma daily_key_eq:
  "daily_key a = daily_key b \<longleftrightarrow> da_account a = da_account b \<and> da_action a = da_action b \<and> da_date a = da_date b"
  by (cases "da_action a"; cases "da_action b") (auto simp: daily_key_def)

lemma push_daily_sel [simp]:
  "lots (push_daily a t) = lots t" "ledgers (push_daily a t) = ledgers t" "dailies (push_daily a t) = dailies t @ [a]"
  "orders (push_daily a t) = orders t" "tips (push_daily a t) = tips t" "platform (push_daily a t) = platform t"
  by (simp_all add: push_daily_def)

lemma wallet_ok_daily:
  assumes "wallet_ok q t" "\<forall>s. q s \<le> q' s" "books_ok (q' WalletLots) t'"
    and new: "\<forall>b \<in> set (dailies t). daily_key b \<noteq> daily_key a"
    and p: "posted (rows_at (daily_key a)) (da_prize a) (push_daily a t) t'"
  shows "wallet_ok q' t'"
proof (rule wallet_ok_fact [where q = q and q' = q' and t = t and u = "push_daily a t", OF assms(1,3) _ _ p])
  show "unique_ok q' (push_daily a t)"
    using unique_ok_mono [OF wallet_ok_parts(3) [OF assms(1)] assms(2)] new
    by (auto simp: unique_ok_def image_iff)
  show "platform_ok (push_daily a t)"
    using wallet_ok_parts(4) [OF assms(1)] by (simp add: platform_ok_def)
  show "fst (snd (daily_key a)) \<noteq> LedgerGrantRegister"
    by (cases "da_action a") (simp_all add: daily_key_def)
qed (simp_all add: owed_def daily_due_def)

lemma posted_daily_history: "posted P s (push_daily a t) t' \<Longrightarrow> history t t'"
  by (rule history_trans [OF _ posted_history]) (simp_all add: history_def)

text \<open>What a successful claim did: the row is new, and nothing else changed.\<close>

definition claimed :: "nat \<Rightarrow> daily \<Rightarrow> int \<Rightarrow> instant \<Rightarrow> wallet_tables \<Rightarrow> daily_action \<Rightarrow> bool" where
  "claimed acc action prize now t a \<longleftrightarrow> da_account a = acc \<and> da_action a = action \<and> da_date a = biz_date now
     \<and> da_prize a = prize \<and> da_created a = now \<and> (\<forall>b \<in> set (dailies t). daily_key b \<noteq> daily_key a)"

lemma wp_claim_daily:
  assumes "sound w"
  shows "wp (claim_daily acc action prize now)
    (\<lambda>_ w'. \<exists>a. claimed acc action prize now (wallet_of w) a \<and> wallet_of w' = push_daily a (wallet_of w)
        \<and> good w' \<and> (\<forall>s. seqs w s \<le> seqs w' s)) (\<lambda>_ _. True) w"
proof -
  let ?a = "\<lambda>i. \<lparr>da_id = i, da_account = acc, da_action = action,
       da_date = biz_date now, da_prize = prize, da_created = now\<rparr>"
  have "books_ok (lot_seq w) (push_daily a (wallet_of w)) = books_ok (lot_seq w) (wallet_of w)" for a
    by (rule books_ok_cong) simp_all
  moreover have "claimed acc action prize now (wallet_of w) (?a i)"
    if "\<not> (\<exists>a \<in> set (dailies (wallet_of w)). da_account a = acc \<and> da_action a = action \<and> da_date a = biz_date now)" for i
    using that by (simp add: claimed_def daily_key_eq)
  ultimately show ?thesis
    using assms by (auto simp: claim_daily_def wp_rules Let_def good_def wallet_ok_parts(1))
qed

text \<open>The claim and its rows, from which both daily actions follow.\<close>

lemma wp_claim_and_post:
  assumes "sound w"
    and post: "\<And>w'. good w' \<Longrightarrow> wp m (\<lambda>_ w''. good w'' \<and>
        posted (rows_at (acc, daily_biz action, daily_ref action, biz_date now)) prize (wallet_of w') (wallet_of w'')) (\<lambda>_ _. True) w'"
    and grow: "steps grows m"
  shows "wp (bnd (claim_daily acc action prize now) (\<lambda>_. m))
    (\<lambda>_ w''. sound w'' \<and> (\<exists>a. claimed acc action prize now (wallet_of w) a
        \<and> posted (rows_at (daily_key a)) prize (push_daily a (wallet_of w)) (wallet_of w''))) (\<lambda>_ _. True) w"
proof (rule wp_and_then [OF wp_claim_daily [OF assms(1)]])
  fix x w'
  assume "\<exists>a. claimed acc action prize now (wallet_of w) a \<and> wallet_of w' = push_daily a (wallet_of w)
        \<and> good w' \<and> (\<forall>s. seqs w s \<le> seqs w' s)"
  then obtain a where a: "claimed acc action prize now (wallet_of w) a" "wallet_of w' = push_daily a (wallet_of w)"
    "good w'" "\<forall>s. seqs w s \<le> seqs w' s" by blast
  have key: "daily_key a = (acc, daily_biz action, daily_ref action, biz_date now)" and prize: "da_prize a = prize"
    using a(1) by (simp_all add: claimed_def daily_key_def)
  show "wp m (\<lambda>_ w''. sound w'' \<and> (\<exists>a. claimed acc action prize now (wallet_of w) a
        \<and> posted (rows_at (daily_key a)) prize (push_daily a (wallet_of w)) (wallet_of w''))) (\<lambda>_ _. True) w'"
  proof (rule wp_mono [OF wp_grows [OF grow post [OF a(3)]]])
    fix y w''
    assume q: "(good w'' \<and> posted (rows_at (acc, daily_biz action, daily_ref action, biz_date now)) prize (wallet_of w') (wallet_of w''))
      \<and> (\<forall>t. seqs w' t \<le> seqs w'' t)"
    have "\<forall>s. seqs w s \<le> seqs w'' s" using a(4) q le_trans by blast
    then have "sound w''"
      using q a key prize by (intro wallet_ok_daily [where a = a, OF assms(1)]) (simp_all add: good_def claimed_def)
    then show "sound w'' \<and> (\<exists>a. claimed acc action prize now (wallet_of w) a
        \<and> posted (rows_at (daily_key a)) prize (push_daily a (wallet_of w)) (wallet_of w''))"
      using a(1,2) q key by auto
  qed simp
qed

lemma wp_zero_row:
  assumes "good w"
  shows "wp (write_ledger acc 0 0 biz rt rid)
    (\<lambda>_ w'. good w' \<and> posted (rows_at (acc, biz, rt, rid)) 0 (wallet_of w) (wallet_of w')) (\<lambda>_ _. True) w"
proof -
  let ?e = "\<lambda>i now. \<lparr>led_id = i, led_account = acc, led_lot = 0, led_biz = biz,
        led_amount = 0, led_ref_type = rt, led_ref_id = rid, led_created = now\<rparr>"
  have "posted (rows_at (acc, biz, rt, rid)) (led_amount (?e i now)) (wallet_of w) (push_ledger (?e i now) (wallet_of w))" for i now
    by (rule posted_push) (simp_all add: rows_at_def)
  then show ?thesis
    using assms by (simp add: write_ledger_def create_ledger_def wp_rules Let_def good_def books_ok_zero_row)
qed

lemma wp_checkin_tx:
  assumes "sound w" "0 \<le> prize"
  shows "wp (checkin_tx acc prize now)
    (\<lambda>_ w''. sound w'' \<and> (\<exists>a. claimed acc ActionCheckin prize now (wallet_of w) a
        \<and> posted (rows_at (daily_key a)) prize (push_daily a (wallet_of w)) (wallet_of w''))) (\<lambda>_ _. True) w"
  unfolding checkin_tx_def
  by (rule wp_claim_and_post [OF assms(1)])
    (use wp_grant_pos [unfolded rows_of_at] assms(2) in \<open>auto intro!: rel_rules\<close>)

lemma wp_lottery_tx:
  assumes "sound w" "0 \<le> prize"
  shows "wp (lottery_tx acc prize now)
    (\<lambda>_ w''. sound w'' \<and> (\<exists>a. claimed acc ActionLottery prize now (wallet_of w) a
        \<and> posted (rows_at (daily_key a)) prize (push_daily a (wallet_of w)) (wallet_of w''))) (\<lambda>_ _. True) w"
  unfolding lottery_tx_def
proof (rule wp_claim_and_post [OF assms(1)])
  fix w' assume "good w'"
  then show "wp (if prize = 0 then write_ledger acc 0 0 LedgerGrantLottery (lit ''lottery'') (biz_date now)
         else grant_in_tx acc SourceLottery prize LedgerGrantLottery (lit ''lottery'') (biz_date now))
      (\<lambda>_ w''. good w'' \<and> posted (rows_at (acc, daily_biz ActionLottery, daily_ref ActionLottery, biz_date now)) prize
         (wallet_of w') (wallet_of w'')) (\<lambda>_ _. True) w'"
    using wp_zero_row wp_grant_pos [unfolded rows_of_at, of w' prize acc SourceLottery] assms(2)
    by (cases "prize = 0") simp_all
qed (intro rel_rules; simp)

section \<open>Tips keep the wallet sound\<close>

lemma push_tip_sel [simp]:
  "lots (push_tip r t) = lots t" "ledgers (push_tip r t) = ledgers t" "dailies (push_tip r t) = dailies t"
  "orders (push_tip r t) = orders t" "tips (push_tip r t) = tips t @ [r]" "platform (push_tip r t) = platform t"
  by (simp_all add: push_tip_def)

lemma push_platform_sel [simp]:
  "lots (push_platform p t) = lots t" "ledgers (push_platform p t) = ledgers t" "dailies (push_platform p t) = dailies t"
  "orders (push_platform p t) = orders t" "tips (push_platform p t) = tips t" "platform (push_platform p t) = platform t @ [p]"
  by (simp_all add: push_platform_def)

lemma books_push [simp]:
  "books_ok n (push_platform p t) = books_ok n t" "books_ok n (push_tip r t) = books_ok n t"
  "books_ok n (push_daily a t) = books_ok n t"
  by (rule books_ok_cong; simp)+

text \<open>The rows of a tip: the payer's, the author's and the platform's share.\<close>

definition paid_rows :: "tip_record \<Rightarrow> voucher" where
  "paid_rows r = (tip_from r, LedgerConsumeTip, lit ''tip'', tip_ref r)"

definition earned_rows :: "tip_record \<Rightarrow> voucher" where
  "earned_rows r = (tip_to r, LedgerGrantTip, lit ''tip'', tip_ref r)"

definition take_cut :: "tip_record \<Rightarrow> wallet_tables \<Rightarrow> wallet_tables \<Rightarrow> bool" where
  "take_cut r t t' \<longleftrightarrow> (if tip_cut r > 0
     then \<exists>p. pe_amount p = tip_cut r \<and> pe_ref_id p = tip_ref r \<and> t' = push_platform p t else t' = t)"

definition tip_rows :: "tip_record \<Rightarrow> wallet_tables \<Rightarrow> wallet_tables \<Rightarrow> bool" where
  "tip_rows r t t' \<longleftrightarrow> (\<exists>t3 t4. posted (rows_at (paid_rows r)) (- tip_coins r) t t3
     \<and> posted (rows_at (earned_rows r)) (max 0 (tip_received r)) t3 t4 \<and> take_cut r t4 t')"

lemma take_cut_rest: "take_cut r t t' \<Longrightarrow> ledger_sum P t' = ledger_sum P t \<and> owed t' = owed t
    \<and> unique_ok q t' = unique_ok q t \<and> gift_ok t' = gift_ok t \<and> books_ok n t' = books_ok n t
    \<and> lots t' = lots t \<and> ledgers t' = ledgers t \<and> balance acc t' = balance acc t
    \<and> (\<Sum>p\<leftarrow>platform t'. pe_amount p) = (\<Sum>p\<leftarrow>platform t. pe_amount p) + max 0 (tip_cut r)"
  by (auto simp: take_cut_def ledger_sum_def unique_ok_def gift_ok_def gift_rows_def balance_def
      intro: owed_cong split: if_splits)

lemma wallet_ok_tip:
  assumes ok: "wallet_ok q t" and q: "\<forall>s. q s \<le> q' s" and books: "books_ok (q' WalletLots) t'"
    and id: "q WalletTips < tip_id r" "tip_id r \<le> q' WalletTips"
    and r: "TipMinCoins \<le> tip_coins r" "tip_from r \<noteq> tip_to r" "split_tip (tip_coins r) = (tip_received r, tip_cut r)"
    and p: "tip_rows r (push_tip r t) t'"
  shows "wallet_ok q' t'"
proof -
  obtain t3 t4 where p3: "posted (rows_at (paid_rows r)) (- tip_coins r) (push_tip r t) t3"
    and p4: "posted (rows_at (earned_rows r)) (max 0 (tip_received r)) t3 t4" and cut: "take_cut r t4 t'"
    using p by (auto simp: tip_rows_def)
  note rest = take_cut_rest [OF cut]
  have "\<forall>r' \<in> set (tips t). tip_id r' < tip_id r"
    using wallet_ok_parts(3) [OF ok] id(1) unfolding unique_ok_def by fastforce
  then have u: "unique_ok q' (push_tip r t)"
    using unique_ok_mono [OF wallet_ok_parts(3) [OF ok] q] id(2) r by (auto simp: unique_ok_def)
  have g: "gift_ok (push_tip r t)"
    using wallet_ok_parts(5) [OF ok] by (simp add: gift_ok_def gift_rows_def)
  show ?thesis
  proof (rule wallet_ok_step [where q = q and q' = q' and t = t])
    show "wallet_ok q t" "books_ok (q' WalletLots) t'" by fact+
    show "ledger_sum (rows_at k) t' - ledger_sum (rows_at k) t = owed t' k - owed t k" for k
    proof -
      have "ledger_sum (rows_at k) t' = ledger_sum (rows_at k) t + (if k = paid_rows r then - tip_coins r else 0)
          + (if k = earned_rows r then max 0 (tip_received r) else 0)"
        using rest posted_at [OF p3, of k] posted_at [OF p4, of k] by (simp add: ledger_sum_def)
      moreover have "owed t' k = owed t k + tip_due k r"
        using rest posted_owed [OF p3] posted_owed [OF p4] by (simp add: owed_def)
      ultimately show ?thesis by (simp add: tip_due_def paid_rows_def earned_rows_def)
    qed
    show "unique_ok q' t'" using u rest posted_unique_ok [OF p3] posted_unique_ok [OF p4] by simp
    have "(\<Sum>p\<leftarrow>platform t'. pe_amount p) = (\<Sum>p\<leftarrow>platform t. pe_amount p) + max 0 (tip_cut r)"
      "tips t' = tips t @ [r]"
      using rest posted_rest [OF p3] posted_rest [OF p4] cut by (auto simp: take_cut_def split: if_splits)
    then show "platform_ok t'" using wallet_ok_parts(4) [OF ok] by (simp add: platform_ok_def)
    have "gift_ok t3"
      by (rule posted_gift_ok [OF p3 _ g]) (auto simp: rows_at_def paid_rows_def)
    then have "gift_ok t4"
      by (rule posted_gift_ok [OF p4, rotated]) (auto simp: rows_at_def earned_rows_def)
    then show "gift_ok t'" using rest by simp
  qed
qed

lemma wp_wallet_untouched:
  assumes "steps (frame d_wallet) m" "good w"
  shows "wp m (\<lambda>_ w'. wallet_of w' = wallet_of w \<and> good w') (\<lambda>_ _. True) w"
proof (rule wpI)
  fix x w' assume m: "m w = (Inr x, w')"
  then have "wallet_of w' = wallet_of w" "lot_seq w \<le> lot_seq w'"
    using stepsD [OF assms(1) m] steps_seqsD [OF assms(1) m] by simp_all
  then show "wallet_of w' = wallet_of w \<and> good w'"
    using assms(2) by (auto simp: good_def intro: books_ok_mono)
qed simp

lemma books_good: "good w \<Longrightarrow> books_ok (lot_seq w) (wallet_of w)"
  by (simp add: good_def)

text \<open>The last three steps of the transaction: from the recorded tip to its event.\<close>

definition tip_rest :: "wallet_svc \<Rightarrow> tip_record \<Rightarrow> instant \<Rightarrow> tip_record op" where
  "tip_rest s r now = bnd (apply_tip (ws_notify s) (tip_id r) (tip_from r) (tip_to r) (tip_video r) (tip_coins r)) (\<lambda>_.
     bnd (spend_in_tx (tip_from r) (tip_coins r) LedgerConsumeTip (lit ''tip'') (tip_ref r)) (\<lambda>_.
     bnd (whenever (tip_received r > 0) (grant_in_tx (tip_to r) SourceTipIn (tip_received r) LedgerGrantTip (lit ''tip'') (tip_ref r))) (\<lambda>_.
     bnd (whenever (tip_cut r > 0) (create_platform (tip_cut r) (tip_ref r) now)) (\<lambda>_.
     bnd (whenever (ws_publisher s) (tip_event (tip_video r) (tip_coins r))) (\<lambda>_. ret r)))))"

lemma wp_take_cut:
  assumes "good w"
  shows "wp (whenever (tip_cut r > 0) (create_platform (tip_cut r) (tip_ref r) now))
    (\<lambda>_ w'. good w' \<and> take_cut r (wallet_of w) (wallet_of w')) (\<lambda>_ _. True) w"
proof -
  let ?p = "\<lambda>i. \<lparr>pe_id = i, pe_amount = tip_cut r, pe_ref_type = lit ''tip'', pe_ref_id = tip_ref r, pe_created = now\<rparr>"
  have "0 < tip_cut r \<Longrightarrow> take_cut r t (push_platform (?p i) t)" for i t
    unfolding take_cut_def by simp (rule exI [of _ "?p i"], simp)
  moreover have "\<not> 0 < tip_cut r \<Longrightarrow> take_cut r t t" for t
    by (simp add: take_cut_def)
  ultimately show ?thesis
    using assms by (cases "0 < tip_cut r") (simp_all add: create_platform_def wp_rules Let_def good_def)
qed

lemma wp_tip_rest:
  assumes good: "good w"
  shows "wp (tip_rest s r now)
    (\<lambda>r' w'. r' = r \<and> good w' \<and> tip_rows r (wallet_of w) (wallet_of w')) (\<lambda>_ _. True) w"
  unfolding tip_rest_def
proof (rule wp_and_then [OF wp_wallet_untouched [OF _ good]])
  show "steps (frame d_wallet) (apply_tip (ws_notify s) (tip_id r) (tip_from r) (tip_to r) (tip_video r) (tip_coins r))"
    by (intro rel_rules) simp
next
  fix x1 w1 assume w1: "wallet_of w1 = wallet_of w \<and> good w1"
  show "wp (bnd (spend_in_tx (tip_from r) (tip_coins r) LedgerConsumeTip (lit ''tip'') (tip_ref r)) (\<lambda>_.
     bnd (whenever (tip_received r > 0) (grant_in_tx (tip_to r) SourceTipIn (tip_received r) LedgerGrantTip (lit ''tip'') (tip_ref r))) (\<lambda>_.
     bnd (whenever (tip_cut r > 0) (create_platform (tip_cut r) (tip_ref r) now)) (\<lambda>_.
     bnd (whenever (ws_publisher s) (tip_event (tip_video r) (tip_coins r))) (\<lambda>_. ret r)))))
    (\<lambda>r' w'. r' = r \<and> good w' \<and> tip_rows r (wallet_of w) (wallet_of w')) (\<lambda>_ _. True) w1"
  proof (rule wp_and_then [OF wp_spend_in_tx])
    show "good w1" using w1 by simp
    fix x2 w2
    assume "good w2 \<and> 0 < tip_coins r \<and> spent (rows_of (tip_from r) LedgerConsumeTip (lit ''tip'') (tip_ref r)) (tip_coins r)
        (available_list (tip_from r) (clock w1 (ticks w1)) (wallet_of w1)) (wallet_of w1) (wallet_of w2)"
    then have w2: "good w2" "posted (rows_at (paid_rows r)) (- tip_coins r) (wallet_of w) (wallet_of w2)"
      using w1 by (auto simp: spent_def rows_of_at paid_rows_def)
    have grant: "wp (whenever (tip_received r > 0) (grant_in_tx (tip_to r) SourceTipIn (tip_received r) LedgerGrantTip (lit ''tip'') (tip_ref r)))
       (\<lambda>_ w3. good w3 \<and> posted (rows_at (earned_rows r)) (max 0 (tip_received r)) (wallet_of w2) (wallet_of w3)) (\<lambda>_ _. True) w2"
      using wp_grant_in_tx [OF w2(1), of "tip_to r" SourceTipIn "tip_received r" LedgerGrantTip "lit ''tip''" "tip_ref r"] w2(1)
      by (auto simp: wp_rules rows_of_at earned_rows_def max_def)
    show "wp (bnd (whenever (tip_received r > 0) (grant_in_tx (tip_to r) SourceTipIn (tip_received r) LedgerGrantTip (lit ''tip'') (tip_ref r))) (\<lambda>_.
       bnd (whenever (tip_cut r > 0) (create_platform (tip_cut r) (tip_ref r) now)) (\<lambda>_.
       bnd (whenever (ws_publisher s) (tip_event (tip_video r) (tip_coins r))) (\<lambda>_. ret r))))
      (\<lambda>r' w'. r' = r \<and> good w' \<and> tip_rows r (wallet_of w) (wallet_of w')) (\<lambda>_ _. True) w2"
    proof (rule wp_and_then [OF grant])
      fix x3 w3 assume w3: "good w3 \<and> posted (rows_at (earned_rows r)) (max 0 (tip_received r)) (wallet_of w2) (wallet_of w3)"
      show "wp (bnd (whenever (tip_cut r > 0) (create_platform (tip_cut r) (tip_ref r) now)) (\<lambda>_.
         bnd (whenever (ws_publisher s) (tip_event (tip_video r) (tip_coins r))) (\<lambda>_. ret r)))
        (\<lambda>r' w'. r' = r \<and> good w' \<and> tip_rows r (wallet_of w) (wallet_of w')) (\<lambda>_ _. True) w3"
      proof (rule wp_and_then [OF wp_take_cut])
        show "good w3" using w3 by simp
        fix x4 w4 assume w4: "good w4 \<and> take_cut r (wallet_of w3) (wallet_of w4)"
        have "steps (frame d_wallet) (whenever (ws_publisher s) (tip_event (tip_video r) (tip_coins r)))"
          by (intro rel_rules) simp
        from wp_wallet_untouched [OF this, of w4]
        have event: "wp (whenever (ws_publisher s) (tip_event (tip_video r) (tip_coins r)))
            (\<lambda>_ w'. wallet_of w' = wallet_of w4 \<and> good w') (\<lambda>_ _. True) w4" using w4 by simp
        show "wp (bnd (whenever (ws_publisher s) (tip_event (tip_video r) (tip_coins r))) (\<lambda>_. ret r))
          (\<lambda>r' w'. r' = r \<and> good w' \<and> tip_rows r (wallet_of w) (wallet_of w')) (\<lambda>_ _. True) w4"
          by (rule wp_and_then [OF event]) (use w2 w3 w4 in \<open>auto simp: wp_basic(1) tip_rows_def\<close>)
      qed
    qed
  qed
qed

text \<open>What a successful tip did to the wallet tables: the payer's expired lots are written off,
  the tip is recorded, and its rows are posted.\<close>

definition tipped :: "nat \<Rightarrow> gostr \<Rightarrow> nat \<Rightarrow> nat \<Rightarrow> int \<Rightarrow> instant \<Rightarrow> tip_record \<Rightarrow> wallet_tables \<Rightarrow> wallet_tables \<Rightarrow> bool" where
  "tipped acc username author vid coins now r t t' \<longleftrightarrow>
     tip_from r = acc \<and> tip_username r = username \<and> tip_to r = author \<and> tip_video r = vid \<and> tip_coins r = coins
     \<and> split_tip coins = (tip_received r, tip_cut r) \<and> tip_created r = now
     \<and> (\<exists>t1. posted (expiry_rows (\<lambda>a. a = acc)) (- expired_due acc now t) t t1 \<and> none_expired acc now t1
          \<and> tip_rows r (push_tip r t1) t')"

lemma tipped_history: "tipped acc u author vid coins now r t t' \<Longrightarrow> history t t'"
proof -
  assume "tipped acc u author vid coins now r t t'"
  then obtain t1 t3 t4 where steps: "history t t1" "history (push_tip r t1) t3" "history t3 t4" "take_cut r t4 t'"
    by (auto simp: tipped_def tip_rows_def dest!: posted_history)
  have "history t1 (push_tip r t1)" by (simp add: history_def)
  moreover have "history t4 t'" using steps(4) by (auto simp: take_cut_def history_def split: if_splits)
  ultimately show ?thesis using steps history_trans by blast
qed

lemma tip_tx_rest:
  "tip_tx s acc username vid coins author now = bnd (expire_account_tx acc now) (\<lambda>_. bnd (last_tip acc vid) (\<lambda>last.
     fail_if (case last of None \<Rightarrow> False | Some r \<Rightarrow> now - tip_created r < TipDebounce) ErrTipTooFrequent
     (let rec = (\<lambda>i. \<lparr>tip_id = i, tip_from = acc, tip_username = username, tip_to = author, tip_video = vid,
        tip_coins = coins, tip_received = fst (split_tip coins), tip_cut = snd (split_tip coins), tip_created = now\<rparr>) in
     bnd (create WalletTips no_dup (\<lambda>i. upd_wallet (push_tip (rec i)))) (\<lambda>i. tip_rest s (rec i) now))))"
  by (simp add: tip_tx_def tip_rest_def Let_def case_prod_beta tip_ref_def cong: if_cong split del: if_split)

lemma grows_tip_rest [rel_rules]: "steps grows (tip_rest s r now)"
  unfolding tip_rest_def by (intro rel_rules) simp_all

lemma wp_tip_tx:
  assumes ok: "sound w" and tip: "TipMinCoins \<le> coins" "acc \<noteq> author"
  shows "wp (tip_tx s acc username vid coins author now)
    (\<lambda>r w'. sound w' \<and> tipped acc username author vid coins now r (wallet_of w) (wallet_of w')) (\<lambda>_ _. True) w"
  unfolding tip_tx_rest
proof (rule wp_and_then [OF wp_grows [OF _ wp_expire_account_tx [OF sound_good [OF ok]]]])
  show "steps grows (expire_account_tx acc now)" by (intro rel_rules) simp
next
  let ?rec = "\<lambda>i. \<lparr>tip_id = i, tip_from = acc, tip_username = username, tip_to = author, tip_video = vid,
        tip_coins = coins, tip_received = fst (split_tip coins), tip_cut = snd (split_tip coins), tip_created = now\<rparr>"
  let ?Q = "\<lambda>r w'. sound w' \<and> tipped acc username author vid coins now r (wallet_of w) (wallet_of w')"
  fix x w1
  assume w1: "(good w1 \<and> posted (expiry_rows (\<lambda>a. a = acc)) (- expired_due acc now (wallet_of w)) (wallet_of w) (wallet_of w1)
       \<and> none_expired acc now (wallet_of w1)) \<and> (\<forall>t. seqs w t \<le> seqs w1 t)"
  then have ok1: "sound w1"
    using books_good [of w1] by (intro wallet_ok_expired [OF ok]) auto
  have rest: "wp (tip_rest s (?rec i) now) ?Q (\<lambda>_ _. True) w2"
    if w2: "wallet_of w2 = push_tip (?rec i) (wallet_of w1)" "seqs w2 = (seqs w1)(WalletTips := i)"
      "i = Suc (seqs w1 WalletTips)" for w2 i
  proof -
    have "good w2" using w1 w2 by (simp add: good_def)
    from wp_grows [OF grows_tip_rest wp_tip_rest [OF this, of s "?rec i" now]] show ?thesis
    proof (rule wp_mono)
      fix r w3
      assume w3: "(r = ?rec i \<and> good w3 \<and> tip_rows (?rec i) (wallet_of w2) (wallet_of w3)) \<and> (\<forall>t. seqs w2 t \<le> seqs w3 t)"
      have "seqs w1 s \<le> seqs w3 s" for s
        using w2(2,3) w3 by (cases "s = WalletTips") (metis fun_upd_same Suc_leD, metis fun_upd_other)
      moreover have "i \<le> seqs w3 WalletTips" using w2(2) w3 by (metis fun_upd_same)
      ultimately have "sound w3"
        using w2 w3 tip books_good [of w3] by (intro wallet_ok_tip [where r = "?rec i", OF ok1]) simp_all
      then show "?Q r w3" using w1 w2(1) w3 by (auto simp: tipped_def)
    qed simp
  qed
  show "wp (bnd (last_tip acc vid) (\<lambda>last.
     fail_if (case last of None \<Rightarrow> False | Some r \<Rightarrow> now - tip_created r < TipDebounce) ErrTipTooFrequent
     (let rec = ?rec in bnd (create WalletTips no_dup (\<lambda>i. upd_wallet (push_tip (rec i)))) (\<lambda>i. tip_rest s (rec i) now))))
     ?Q (\<lambda>_ _. True) w1"
    by (auto simp: last_tip_def wp_rules Let_def intro!: rest)
qed

section \<open>Every operation keeps the wallet sound\<close>

lemma wp_register_gift:
  assumes ok: "sound w"
  shows "wp (grant_register_gift_tx acc) (\<lambda>_ w'. sound w' \<and> history (wallet_of w) (wallet_of w')) (\<lambda>_ _. True) w"
proof -
  let ?g = "grant_in_tx acc SourceRegister RegisterGiftCoins LedgerGrantRegister (lit ''account'') (dec_nat acc)"
  have "wp ?g (\<lambda>_ w'. sound w' \<and> history (wallet_of w) (wallet_of w')) (\<lambda>_ _. True) v"
    if v: "tabs v = tabs w" "seqs v = seqs w" and none: "gift_rows acc (wallet_of w) = []" for v
  proof -
    have "good v" using v sound_good [OF ok] by (simp add: good_def)
    then have g: "wp ?g (\<lambda>_ w'. good w' \<and> posted (rows_of acc LedgerGrantRegister (lit ''account'') (dec_nat acc))
        RegisterGiftCoins (wallet_of v) (wallet_of w')) (\<lambda>_ _. True) v"
      by (rule wp_grant_pos) (simp add: RegisterGiftCoins_def)
    show ?thesis
    proof (rule wp_mono [OF wp_grows [OF _ g]])
      show "steps grows ?g" by (intro rel_rules) simp
      fix x w'
      assume w': "(good w' \<and> posted (rows_of acc LedgerGrantRegister (lit ''account'') (dec_nat acc))
        RegisterGiftCoins (wallet_of v) (wallet_of w')) \<and> (\<forall>t. seqs v t \<le> seqs w' t)"
      have "history (wallet_of w) (wallet_of w')"
        using w' v(1) by (auto intro: posted_history)
      moreover from w' have "sound w'"
        using v books_good [of w'] 
          by (intro wallet_ok_gift [OF ok _ _ none, where rt = "lit ''account''" and rid = "dec_nat acc"])
            (simp_all add: rows_of_at)
      ultimately show "sound w' \<and> history (wallet_of w) (wallet_of w')" by simp
    qed simp
  qed
  then show ?thesis
    using ok by (auto simp: grant_register_gift_tx_def has_register_gift_def wp_rules gift_rows_def filter_empty_conv)
qed

lemma wp_expire_sound:
  assumes ok: "sound w"
  shows "wp (expire_account_tx acc now)
    (\<lambda>_ w'. sound w' \<and> posted (expiry_rows (\<lambda>a. a = acc)) (- expired_due acc now (wallet_of w)) (wallet_of w) (wallet_of w')
       \<and> none_expired acc now (wallet_of w')) (\<lambda>_ _. True) w"
proof (rule wp_mono [OF wp_grows [OF _ wp_expire_account_tx [OF sound_good [OF ok]]]])
  show "steps grows (expire_account_tx acc now)" by (intro rel_rules) simp
  fix x w'
  assume w': "(good w' \<and> posted (expiry_rows (\<lambda>a. a = acc)) (- expired_due acc now (wallet_of w)) (wallet_of w) (wallet_of w')
       \<and> none_expired acc now (wallet_of w')) \<and> (\<forall>t. seqs w t \<le> seqs w' t)"
  then have "sound w'" using books_good [of w'] by (intro wallet_ok_expired [OF ok]) auto
  with w' show "sound w' \<and> posted (expiry_rows (\<lambda>a. a = acc)) (- expired_due acc now (wallet_of w)) (wallet_of w) (wallet_of w')
       \<and> none_expired acc now (wallet_of w')" by simp
qed simp

lemma keeps_expire_account [rel_rules]: "steps keeps_wallet (expire_account acc now)"
  unfolding expire_account_def
  by (rule books.committed) (auto intro!: rel_rules elim!: wp_mono [OF wp_expire_sound] intro: posted_history)

lemma keeps_random [rel_rules]: "steps keeps_wallet (random_bucket m)"
  unfolding random_bucket_def by (intro rel_rules)

lemma keeps_checkin [rel_rules]: "steps keeps_wallet (checkin acc)"
proof -
  have "steps keeps_wallet (transaction (checkin_tx acc (draw_checkin_prize n) now))" for n now
    using draw_checkin_prize_range [of n]
    by (intro books.committed) (auto intro!: rel_rules elim!: wp_mono [OF wp_checkin_tx] intro: posted_daily_history)
  then show ?thesis
    unfolding checkin_def random_checkin_bucket_def Let_def by (intro kept_rules keeps_random)
qed

lemma draw_lottery_nonneg: "0 \<le> fst (draw_lottery n)"
  by (simp add: draw_lottery_def Let_def LotteryPrizes_def)

lemma keeps_lottery [rel_rules]: "steps keeps_wallet (lottery acc)"
proof -
  have "steps keeps_wallet (transaction (lottery_tx acc (fst (draw_lottery n)) now))" for n now
    using draw_lottery_nonneg [of n]
    by (intro books.committed) (auto intro!: rel_rules elim!: wp_mono [OF wp_lottery_tx] intro: posted_daily_history)
  then show ?thesis
    unfolding lottery_def random_lottery_bucket_def Let_def case_prod_beta by (intro kept_rules keeps_random)
qed

lemma keeps_tip [rel_rules]: "steps keeps_wallet (tip s acc username vid coins)"
proof -
  have tx: "steps keeps_wallet (transaction (tip_tx s acc username vid coins author now))"
    if "\<not> coins < TipMinCoins" "author \<noteq> acc" for author now
    using that by (intro books.committed) (auto intro!: rel_rules elim!: wp_mono [OF wp_tip_tx] intro: tipped_history)
  have rec: "steps keeps_wallet (after_tip s acc vid coins now ts)" for now ts
    unfolding after_tip_def by (rule wallet_untouched) (intro rel_rules, simp)
  have vid: "steps keeps_wallet (video_by_id vid)"
    by (rule wallet_untouched) (intro rel_rules)
  show ?thesis
    unfolding tip_def
    by (cases "coins < TipMinCoins")
      (auto intro!: books.kept.steps_env books.kept.steps_bnd books.kept.steps_ignore
          books.kept.steps_option vid rec tx)
qed

lemma keeps_reads [rel_rules]:
  "steps keeps_wallet (summary_of acc)" "steps keeps_wallet (list_ledger acc limit offset)"
  "steps keeps_wallet (checkin_month acc)" "steps keeps_wallet (list_my_tips acc limit offset)"
  "steps keeps_wallet (list_video_tips acc vid limit offset)"
  unfolding summary_of_def repo_summary_def list_ledger_def checkin_month_def checkin_days_in_range_def
    list_my_tips_def list_video_tips_def video_by_id_def Let_def case_prod_beta
  by (intro rel_rules)+

end
