(* ===== verification/Stripe.thy ===== *)
theory Stripe
  imports Wallet_Rules
begin

text \<open>
  The payment provider as the wallet sees it (\<open>internal/wallet/stripe.go\<close>). \<open>gateway\<close> is the
  interface \<open>StripeGateway\<close>; \<open>stripe_gateway\<close> is the client of the repository behind it. What the
  client does not do itself is a parameter: \<open>net\<close> is the provider's answer to a request (sent by
  \<open>stripeForm\<close>), \<open>sign\<close> the hexadecimal HMAC-SHA256 of a message under a key, \<open>decode\<close> the JSON
  decoding of an event, and \<open>url_set\<close> and \<open>escape\<close> the functions of package \<open>net/url\<close> that set
  query values of an absolute URL and escape a path segment.
\<close>

section \<open>The interface\<close>

record checkout_request =
  cr_out_trade_no :: gostr
  cr_yuan :: int
  cr_subject :: gostr
  cr_success_url :: gostr
  cr_cancel_url :: gostr
  cr_expire :: instant

record checkout =
  sc_session :: gostr
  sc_url :: gostr
  sc_status :: gostr
  sc_ref :: gostr
  sc_amount :: int
  sc_currency :: gostr

record stripe_event =
  se_type :: gostr
  se_checkout :: checkout
  se_out_trade_no :: gostr

record gateway =
  gw_create :: "instant \<Rightarrow> checkout_request \<Rightarrow> err + checkout"
  gw_query :: "gostr \<Rightarrow> err + checkout"
  gw_verify :: "instant \<Rightarrow> gostr \<Rightarrow> gostr \<Rightarrow> instant \<Rightarrow> err + stripe_event"

definition stripe_paid :: "gostr \<Rightarrow> bool" where
  "stripe_paid status \<longleftrightarrow> status = lit ''paid''"

section \<open>Configuration\<close>

record stripe_config =
  cfg_secret_key :: gostr
  cfg_webhook_secret :: gostr
  cfg_success_url :: gostr
  cfg_currency :: gostr

definition new_stripe_client :: "(rune \<Rightarrow> rune) \<Rightarrow> stripe_config \<Rightarrow> err + stripe_config" where
  "new_stripe_client tab cfg = (if trim_space (cfg_secret_key cfg) = [] then Inl ErrStripeNotConfigured else
     let currency = to_lower tab (trim_space (cfg_currency cfg));
         cfg1 = cfg\<lparr>cfg_currency := (if currency = [] then lit ''usd'' else currency)\<rparr>
     in Inr (if trim_space (cfg_success_url cfg1) = []
       then cfg1\<lparr>cfg_success_url := lit ''https://lvmouren.indevs.in/wallet''\<rparr> else cfg1))"

section \<open>Requests\<close>

type_synonym form = "(gostr \<times> gostr) list"

record raw_session =
  rs_id :: gostr
  rs_url :: gostr
  rs_status :: gostr
  rs_intent :: gostr
  rs_amount :: int
  rs_currency :: gostr
  rs_error :: "gostr option"

type_synonym network = "gostr \<Rightarrow> gostr \<Rightarrow> form option \<Rightarrow> err + raw_session"

definition with_wallet_return :: "(gostr \<Rightarrow> (gostr \<times> gostr option) list \<Rightarrow> gostr option) \<Rightarrow> gostr \<Rightarrow> gostr \<Rightarrow> bool \<Rightarrow> gostr" where
  "with_wallet_return url_set raw no canceled =
     (case url_set (trim_space raw) [(lit ''out_trade_no'', Some no),
        (lit ''canceled'', if canceled then Some (lit ''1'') else None)] of
      None \<Rightarrow> trim_space raw | Some u \<Rightarrow> u)"

text \<open>The instant of Go's zero \<open>time.Time\<close>.\<close>

definition zero_time :: instant where
  "zero_time = - 62135596800 * Second"

definition unix :: "instant \<Rightarrow> int" where
  "unix t = t div Second"

definition expires_at :: "instant \<Rightarrow> instant \<Rightarrow> form" where
  "expires_at now expire = (if expire = zero_time then [] else
     let min = now + 31 * Minute in
     [(lit ''expires_at'', dec (unix (if expire < min then min else expire)))])"

definition checkout_form :: "(gostr \<Rightarrow> (gostr \<times> gostr option) list \<Rightarrow> gostr option) \<Rightarrow> stripe_config \<Rightarrow> instant \<Rightarrow> checkout_request \<Rightarrow> form" where
  "checkout_form url_set cfg now req = (let
     success = first_non_empty [cr_success_url req, cfg_success_url cfg];
     cancel = first_non_empty [cr_cancel_url req, success] in
   [(lit ''mode'', lit ''payment''), (lit ''client_reference_id'', cr_out_trade_no req),
    (lit ''success_url'', with_wallet_return url_set success (cr_out_trade_no req) False),
    (lit ''cancel_url'', with_wallet_return url_set cancel (cr_out_trade_no req) True),
    (lit ''metadata[out_trade_no]'', cr_out_trade_no req),
    (lit ''line_items[0][quantity]'', lit ''1''),
    (lit ''line_items[0][price_data][currency]'', cfg_currency cfg),
    (lit ''line_items[0][price_data][unit_amount]'', dec (wrap64 (cr_yuan req * 100))),
    (lit ''line_items[0][price_data][product_data][name]'', cr_subject req)] @ expires_at now (cr_expire req))"

definition stripe_failed :: "raw_session \<Rightarrow> bool" where
  "stripe_failed raw \<longleftrightarrow> (case rs_error raw of None \<Rightarrow> False | Some m \<Rightarrow> m \<noteq> [])"

definition create_checkout :: "network \<Rightarrow> (gostr \<Rightarrow> (gostr \<times> gostr option) list \<Rightarrow> gostr option) \<Rightarrow> stripe_config \<Rightarrow> instant \<Rightarrow> checkout_request \<Rightarrow> err + checkout" where
  "create_checkout net url_set cfg now req =
     (case net (lit ''POST'') (lit ''/checkout/sessions'') (Some (checkout_form url_set cfg now req)) of
       Inl e \<Rightarrow> Inl e
     | Inr raw \<Rightarrow> if stripe_failed raw then Inl ErrStripeCall
         else if trim_space (rs_id raw) = [] \<or> trim_space (rs_url raw) = [] then Inl ErrStripeCall
         else Inr \<lparr>sc_session = rs_id raw, sc_url = rs_url raw, sc_status = rs_status raw, sc_ref = rs_intent raw,
                sc_amount = rs_amount raw, sc_currency = rs_currency raw\<rparr>)"

definition query_session :: "network \<Rightarrow> (gostr \<Rightarrow> gostr) \<Rightarrow> gostr \<Rightarrow> err + checkout" where
  "query_session net escape session =
     (case net (lit ''GET'') (lit ''/checkout/sessions/'' @ escape session) None of
       Inl e \<Rightarrow> Inl e
     | Inr raw \<Rightarrow> if stripe_failed raw then Inl ErrStripeCall
         else Inr \<lparr>sc_session = rs_id raw, sc_url = [], sc_status = rs_status raw, sc_ref = rs_intent raw,
                sc_amount = rs_amount raw, sc_currency = rs_currency raw\<rparr>)"

section \<open>Webhook signatures\<close>

text \<open>\<open>strconv.ParseInt(s, 10, 64)\<close>: an optional sign, then digits, in range.\<close>

definition parse_int64 :: "gostr \<Rightarrow> int option" where
  "parse_int64 s = (let neg = (s \<noteq> [] \<and> hd s = 45);
     ds = (if s \<noteq> [] \<and> (hd s = 45 \<or> hd s = 43) then tl s else s) in
   if ds = [] \<or> (\<exists>r \<in> set ds. r < 48 \<or> 57 < r) then None else
   let n = int (dec_val 0 ds); x = (if neg then - n else n) in if i64 x then Some x else None)"

text \<open>\<open>strings.Split\<close> at a one-rune separator.\<close>

fun split_at :: "rune \<Rightarrow> gostr \<Rightarrow> gostr list" where
  "split_at c [] = [[]]"
| "split_at c (r # rs) = (if r = c then [] # split_at c rs
     else case split_at c rs of [] \<Rightarrow> [[r]] | p # ps \<Rightarrow> (r # p) # ps)"

text \<open>The loop over the parts of the header, collecting the timestamp and the signatures.\<close>

fun header_parts :: "int \<times> gostr list \<Rightarrow> gostr list \<Rightarrow> (int \<times> gostr list) option" where
  "header_parts acc [] = Some acc"
| "header_parts (ts, sigs) (part # parts) = (let (name, val, ok) = cut 61 (trim_space part) in
     if \<not> ok then header_parts (ts, sigs) parts
     else if name = lit ''t'' then (case parse_int64 val of None \<Rightarrow> None | Some n \<Rightarrow> header_parts (n, sigs) parts)
     else if name = lit ''v1'' then header_parts (ts, sigs @ [val]) parts
     else header_parts (ts, sigs) parts)"

type_synonym signer = "gostr \<Rightarrow> gostr \<Rightarrow> gostr"

definition verify_stripe_signature :: "signer \<Rightarrow> instant \<Rightarrow> gostr \<Rightarrow> gostr \<Rightarrow> gostr \<Rightarrow> instant \<Rightarrow> duration \<Rightarrow> bool" where
  "verify_stripe_signature sign wall payload header secret now0 tol =
     (case header_parts (0, []) (split_at 44 header) of
       None \<Rightarrow> False
     | Some (ts, sigs) \<Rightarrow>
         if ts = 0 \<or> sigs = [] then False else
         let now = (if now0 = zero_time then wall else now0); d = now - ts * Second in
         if d > tol \<or> d < - tol then False
         else sign secret (dec ts @ [46] @ payload) \<in> set sigs)"

record raw_event =
  re_type :: gostr
  re_id :: gostr
  re_status :: gostr
  re_intent :: gostr
  re_amount :: int
  re_currency :: gostr
  re_client_ref :: gostr
  re_out_trade_no :: gostr

definition verify_event :: "signer \<Rightarrow> (gostr \<Rightarrow> raw_event option) \<Rightarrow> stripe_config \<Rightarrow> instant \<Rightarrow> gostr \<Rightarrow> gostr \<Rightarrow> instant \<Rightarrow> err + stripe_event" where
  "verify_event sign decode cfg wall payload header now =
     (if trim_space (cfg_webhook_secret cfg) = [] then Inl ErrNotifyInvalid
      else if \<not> verify_stripe_signature sign wall payload header (cfg_webhook_secret cfg) now (5 * Minute) then Inl ErrNotifyInvalid
      else case decode payload of None \<Rightarrow> Inl ErrNotifyInvalid
      | Some raw \<Rightarrow> Inr \<lparr>se_type = re_type raw,
          se_checkout = \<lparr>sc_session = re_id raw, sc_url = [], sc_status = re_status raw, sc_ref = re_intent raw,
             sc_amount = re_amount raw, sc_currency = re_currency raw\<rparr>,
          se_out_trade_no = first_non_empty [re_out_trade_no raw, re_client_ref raw]\<rparr>)"

definition stripe_gateway :: "network \<Rightarrow> (gostr \<Rightarrow> (gostr \<times> gostr option) list \<Rightarrow> gostr option) \<Rightarrow> (gostr \<Rightarrow> gostr) \<Rightarrow> signer \<Rightarrow> (gostr \<Rightarrow> raw_event option) \<Rightarrow> stripe_config \<Rightarrow> gateway" where
  "stripe_gateway net url_set escape sign decode cfg = \<lparr>
     gw_create = create_checkout net url_set cfg,
     gw_query = query_session net escape,
     gw_verify = verify_event sign decode cfg\<rparr>"

section \<open>What an accepted event carries\<close>

lemma split_at_ne [simp]: "split_at c s \<noteq> []"
  by (cases s) (auto split: list.split)

lemma header_parts_sigs:
  "header_parts (ts, sigs) parts = Some (ts', sigs') \<Longrightarrow>
     set sigs' \<subseteq> set sigs \<union> {v. \<exists>p \<in> set parts. cut 61 (trim_space p) = (lit ''v1'', v, True)}"
proof (induction "(ts, sigs)" parts arbitrary: ts sigs rule: header_parts.induct)
  case (2 ts sigs part parts)
  obtain name val ok where c: "cut 61 (trim_space part) = (name, val, ok)" by (cases "cut 61 (trim_space part)")
  show ?case
  proof (cases "ok \<and> name = lit ''t''")
    case True
    then show ?thesis using 2 c by (fastforce simp: Let_def split: option.splits)
  next
    case False
    then show ?thesis using 2 c by (fastforce simp: Let_def split: if_splits)
  qed
qed auto

lemma verify_event_signed:
  assumes "verify_event sign decode cfg wall payload header now = Inr ev" "now \<noteq> zero_time"
  obtains ts sigs where "trim_space (cfg_webhook_secret cfg) \<noteq> []"
    "header_parts (0, []) (split_at 44 header) = Some (ts, sigs)"
    "\<bar>now - ts * Second\<bar> \<le> 5 * Minute" "sign (cfg_webhook_secret cfg) (dec ts @ [46] @ payload) \<in> set sigs"
proof -
  have "verify_stripe_signature sign wall payload header (cfg_webhook_secret cfg) now (5 * Minute)"
    "trim_space (cfg_webhook_secret cfg) \<noteq> []"
    using assms(1) by (auto simp: verify_event_def split: if_splits)
  then show ?thesis
    using assms(2) that by (auto simp: verify_stripe_signature_def Let_def split: option.splits prod.splits if_splits)
qed

end
