(* ===== verification/Wallet_Orders.thy ===== *)
theory Wallet_Orders
  imports Wallet_Service Stripe
begin

text \<open>
  Recharges and the sweeper (\<open>internal/wallet/service.go\<close>): creating an order with its checkout,
  crediting a payment from a webhook or a poll, closing and expiring orders, and the read-only
  view of paid orders the invoices use. The gateway is an argument, \<open>None\<close> when payments are not
  configured.
\<close>

section \<open>Statements on orders\<close>

definition put_order :: "nat \<Rightarrow> (recharge_order \<Rightarrow> recharge_order) \<Rightarrow> wallet_tables \<Rightarrow> wallet_tables" where
  "put_order i f t = t\<lparr>orders := update_where (\<lambda>o'. ord_id o' = i) f (orders t)\<rparr>"

definition push_order :: "recharge_order \<Rightarrow> wallet_tables \<Rightarrow> wallet_tables" where
  "push_order o' t = t\<lparr>orders := orders t @ [o']\<rparr>"

definition update_order :: "nat \<Rightarrow> (recharge_order \<Rightarrow> recharge_order) \<Rightarrow> unit op" where
  "update_order i f = exec (upd_wallet (put_order i f))"

definition close_row :: "instant \<Rightarrow> recharge_order \<Rightarrow> recharge_order" where
  "close_row now o' = o'\<lparr>ord_status := OrderClosed, ord_closed_at := Some now\<rparr>"

definition pay_row :: "gostr \<Rightarrow> instant \<Rightarrow> recharge_order \<Rightarrow> recharge_order" where
  "pay_row trade now o' = o'\<lparr>ord_status := OrderPaid, ord_trade_no := trade, ord_paid_at := Some now\<rparr>"

definition order_of :: "gostr \<Rightarrow> wallet_tables \<Rightarrow> recharge_order option" where
  "order_of no t = find (\<lambda>o'. ord_no o' = no) (orders t)"

definition find_order :: "gostr \<Rightarrow> recharge_order option op" where
  "find_order no = query (\<lambda>d. order_of no (d_wallet d))"

definition pending_orders :: "nat \<Rightarrow> recharge_order list op" where
  "pending_orders acc = query (\<lambda>d. filter (\<lambda>o'. ord_account o' = acc \<and> ord_status o' = OrderPending) (orders (d_wallet d)))"

definition due_pending_orders :: "instant \<Rightarrow> nat \<Rightarrow> recharge_order list op" where
  "due_pending_orders now limit = query (\<lambda>d. take limit (sort_key ord_id
     (filter (\<lambda>o'. ord_status o' = OrderPending \<and> ord_expire o' \<le> now) (orders (d_wallet d)))))"

definition close_orders :: "instant \<Rightarrow> recharge_order list \<Rightarrow> unit op" where
  "close_orders now = each (\<lambda>o'. update_order (ord_id o') (close_row now))"

section \<open>Creating a recharge\<close>

definition new_out_trade_no :: "nat \<Rightarrow> instant \<Rightarrow> gostr op" where
  "new_out_trade_no acc now = bnd rand_read (\<lambda>n.
     ret (lit ''WR'' @ dec_nat acc @ dec (unix now) @ hex_bytes 8 n))"

text \<open>\<open>fmt.Sprintf\<close> of the checkout's subject, "recharge of ... yuan" in Chinese.\<close>

definition recharge_subject :: "int \<Rightarrow> gostr" where
  "recharge_subject yuan = [31215, 20998, 20805, 20540, 32] @ dec yuan @ [32, 20803]"

definition recharge_tx :: "nat \<Rightarrow> recharge_order \<Rightarrow> instant \<Rightarrow> nat op" where
  "recharge_tx acc order now = bnd (pending_orders acc) (\<lambda>pending.
     bnd (close_orders now pending) (\<lambda>_.
     create WalletRechargeOrders (\<lambda>_ d. \<exists>o' \<in> set (orders (d_wallet d)). ord_no o' = ord_no order)
       (\<lambda>i. upd_wallet (push_order (order\<lparr>ord_id := i\<rparr>)))))"

record recharge_checkout =
  rc_method :: gostr
  rc_url :: gostr

definition new_order :: "nat \<Rightarrow> gostr \<Rightarrow> int \<Rightarrow> int \<Rightarrow> int \<Rightarrow> gostr \<Rightarrow> instant \<Rightarrow> recharge_order" where
  "new_order acc no yuan coins bonus method now = \<lparr>ord_id = 0, ord_account = acc, ord_no = no, ord_yuan = yuan,
     ord_coins = coins, ord_bonus = bonus, ord_status = OrderPending, ord_method = method, ord_trade_no = [],
     ord_session = [], ord_paid_at = None, ord_closed_at = None, ord_expire = now + OrderTTL, ord_created = now\<rparr>"

definition start_checkout :: "gateway \<Rightarrow> recharge_order \<Rightarrow> instant \<Rightarrow> gostr \<Rightarrow> (recharge_order \<times> recharge_checkout) op" where
  "start_checkout g order now method = bnd read_now (\<lambda>wall.
     case gw_create g wall \<lparr>cr_out_trade_no = ord_no order, cr_yuan = ord_yuan order,
        cr_subject = recharge_subject (ord_yuan order), cr_success_url = [], cr_cancel_url = [], cr_expire = ord_expire order\<rparr> of
       Inl e \<Rightarrow> bnd (ignore (update_order (ord_id order) (close_row now))) (\<lambda>_. throw e)
     | Inr session \<Rightarrow>
         bnd (result_of (update_order (ord_id order) (\<lambda>o'. o'\<lparr>ord_session := sc_session session\<rparr>))) (\<lambda>r. case r of
           Inl e \<Rightarrow> bnd (ignore (update_order (ord_id order) (close_row now))) (\<lambda>_. throw e)
         | Inr _ \<Rightarrow> ret (order\<lparr>ord_session := sc_session session\<rparr>, \<lparr>rc_method = method, rc_url = sc_url session\<rparr>)))"

text \<open>The order is recorded in a transaction; the checkout is opened after its commit.\<close>

definition place_order :: "gateway \<Rightarrow> nat \<Rightarrow> recharge_order \<Rightarrow> instant \<Rightarrow> gostr \<Rightarrow> (recharge_order \<times> recharge_checkout) op" where
  "place_order g acc order now method = bnd (transaction (recharge_tx acc order now)) (\<lambda>i.
     start_checkout g (order\<lparr>ord_id := i\<rparr>) now method)"

definition create_recharge :: "(rune \<Rightarrow> rune) \<Rightarrow> gateway option \<Rightarrow> nat \<Rightarrow> int \<Rightarrow> gostr \<Rightarrow> (recharge_order \<times> recharge_checkout) op" where
  "create_recharge tab gw acc yuan raw =
     bnd (lift (resolve_recharge yuan)) (\<lambda>(coins, bonus).
     bnd (lift (normalize_pay_method tab raw)) (\<lambda>method.
     case gw of None \<Rightarrow> throw ErrStripeNotConfigured | Some g \<Rightarrow>
     bnd read_now (\<lambda>now.
     bnd (new_out_trade_no acc now) (\<lambda>no.
     place_order g acc (new_order acc no yuan coins bonus method now) now method))))"

section \<open>Crediting and closing\<close>

definition credit_tx :: "gostr \<Rightarrow> gostr \<Rightarrow> int \<Rightarrow> unit op" where
  "credit_tx no trade yuan = bnd (find_order no) (\<lambda>r. case r of
      None \<Rightarrow> throw ErrOrderNotFound
    | Some order \<Rightarrow>
      if ord_status order = OrderPaid then ret () else
      fail_if (ord_yuan order \<noteq> yuan) ErrNotifyInvalid
      (bnd read_now (\<lambda>now.
       bnd (update_order (ord_id order) (pay_row trade now)) (\<lambda>_.
       bnd (grant_in_tx (ord_account order) SourceRecharge (ord_coins order) LedgerGrantRecharge (lit ''recharge'') (ord_no order)) (\<lambda>_.
       whenever (ord_bonus order > 0)
         (grant_in_tx (ord_account order) SourceRecharge (ord_bonus order) LedgerGrantRechargeBonus (lit ''recharge'') (ord_no order)))))))"

definition credit_paid :: "gostr \<Rightarrow> gostr \<Rightarrow> gostr \<Rightarrow> unit op" where
  "credit_paid no trade amount = bnd (lift (parse_yuan_amount amount)) (\<lambda>yuan. transaction (credit_tx no trade yuan))"

definition credit_stripe :: "gostr \<Rightarrow> checkout \<Rightarrow> unit op" where
  "credit_stripe no session = bnd (find_order no) (\<lambda>r. case r of
      None \<Rightarrow> throw ErrOrderNotFound
    | Some order \<Rightarrow>
      fail_if (sc_amount session \<noteq> wrap64 (ord_yuan order * 100)) ErrNotifyInvalid
      (credit_paid no (first_non_empty [sc_ref session, sc_session session]) (format_yuan (ord_yuan order))))"

text \<open>The second reading of the clock is the one \<open>verifyStripeSignature\<close> falls back to.\<close>

definition handle_stripe_notify :: "gateway option \<Rightarrow> gostr \<Rightarrow> gostr \<Rightarrow> unit op" where
  "handle_stripe_notify gw payload sig = (case gw of None \<Rightarrow> throw ErrStripeNotConfigured | Some g \<Rightarrow>
     bnd read_now (\<lambda>now. bnd read_now (\<lambda>wall. bnd (lift (gw_verify g wall payload sig now)) (\<lambda>event.
     if se_type event \<noteq> lit ''checkout.session.completed''
         \<and> se_type event \<noteq> lit ''checkout.session.async_payment_succeeded'' then ret ()
     else if \<not> stripe_paid (sc_status (se_checkout event)) \<and> se_type event \<noteq> lit ''checkout.session.completed'' then ret ()
     else credit_stripe (se_out_trade_no event) (se_checkout event)))))"

definition close_tx :: "gostr \<Rightarrow> instant \<Rightarrow> unit op" where
  "close_tx no now = bnd (find_order no) (\<lambda>r. case r of None \<Rightarrow> ret () | Some order \<Rightarrow>
     if ord_status order \<noteq> OrderPending then ret () else update_order (ord_id order) (close_row now))"

definition close_order :: "gostr \<Rightarrow> unit op" where
  "close_order no = bnd read_now (\<lambda>now. transaction (close_tx no now))"

text \<open>\<open>First(order)\<close> with the row's own key; a row that is gone is \<open>gorm.ErrRecordNotFound\<close>.\<close>

definition reload :: "recharge_order \<Rightarrow> recharge_order op" where
  "reload order = bnd (query (\<lambda>d. find (\<lambda>o'. ord_no o' = ord_no order \<and> ord_id o' = ord_id order) (orders (d_wallet d))))
     (\<lambda>r. case r of None \<Rightarrow> throw ErrOther | Some o' \<Rightarrow> ret o')"

definition refresh_stripe_pending :: "gateway \<Rightarrow> recharge_order \<Rightarrow> recharge_order op" where
  "refresh_stripe_pending g order = (if trim_space (ord_session order) = [] then ret order else
     bnd (lift (gw_query g (ord_session order))) (\<lambda>session.
     if stripe_paid (sc_status session) then bnd (credit_stripe (ord_no order) session) (\<lambda>_. reload order)
     else bnd read_now (\<lambda>now.
       if now > ord_expire order then bnd (close_order (ord_no order)) (\<lambda>_. reload order) else ret order)))"

definition query_order :: "gateway option \<Rightarrow> nat \<Rightarrow> gostr \<Rightarrow> recharge_order op" where
  "query_order gw acc no = bnd (find_order no) (\<lambda>r. case r of
      None \<Rightarrow> throw ErrOrderNotFound
    | Some order \<Rightarrow>
      fail_if (ord_account order \<noteq> acc) ErrOrderNotOwned
      (case gw of
         Some g \<Rightarrow> if ord_status order = OrderPending
           then bnd (result_of (refresh_stripe_pending g order)) (\<lambda>res.
             ret (case res of Inl e \<Rightarrow> order | Inr o' \<Rightarrow> o'))
           else ret order
       | None \<Rightarrow> ret order))"

section \<open>Paid orders, as the invoices read them\<close>

record paid_recharge =
  paid_no :: gostr
  paid_account :: nat
  paid_yuan :: int
  paid_coins :: int
  paid_bonus :: int
  paid_method :: gostr
  paid_when :: instant

definition paid_from_order :: "recharge_order \<Rightarrow> paid_recharge" where
  "paid_from_order o' = \<lparr>paid_no = ord_no o', paid_account = ord_account o', paid_yuan = ord_yuan o',
     paid_coins = ord_coins o', paid_bonus = ord_bonus o', paid_method = ord_method o',
     paid_when = (case ord_paid_at o' of None \<Rightarrow> ord_created o' | Some t \<Rightarrow> t)\<rparr>"

definition find_paid_recharge :: "nat \<Rightarrow> gostr \<Rightarrow> paid_recharge option op" where
  "find_paid_recharge acc raw = (let no = trim_space raw in
     if no = [] then ret None else
     query (\<lambda>d. map_option paid_from_order (find (\<lambda>o'. ord_no o' = no \<and> ord_account o' = acc
       \<and> ord_status o' = OrderPaid) (orders (d_wallet d)))))"

text \<open>\<open>ORDER BY paid_at DESC, id DESC\<close>, where a null comes last.\<close>

definition paid_order_key :: "recharge_order \<Rightarrow> nat \<times> int \<times> nat" where
  "paid_order_key o' = (case ord_paid_at o' of None \<Rightarrow> (0, 0, ord_id o') | Some t \<Rightarrow> (1, t, ord_id o'))"

definition list_paid_recharges :: "nat \<Rightarrow> int \<Rightarrow> int \<Rightarrow> paid_recharge list op" where
  "list_paid_recharges acc limit offset = (let (l, m) = clamp_list limit offset in
     bnd (query (\<lambda>d. page l m (rev (sort_key paid_order_key
       (filter (\<lambda>o'. ord_account o' = acc \<and> ord_status o' = OrderPaid) (orders (d_wallet d))))))) (\<lambda>os.
     ret (map paid_from_order os)))"

section \<open>The sweeper\<close>

definition sweep_round_tx :: "instant \<Rightarrow> nat op" where
  "sweep_round_tx now = bnd (expired_lots now 100) (\<lambda>ls. bnd (each (expire_lot now) ls) (\<lambda>_. ret (length ls)))"

text \<open>The loop of \<open>sweepExpired\<close>; it answers \<open>False\<close> when the fuel runs out, which
  \<open>sweep_expired\<close>, with one more round than there are expired lots, never does.\<close>

fun sweep_rounds :: "nat \<Rightarrow> instant \<Rightarrow> bool op" where
  "sweep_rounds 0 now = ret False"
| "sweep_rounds (Suc k) now = bnd (transaction (sweep_round_tx now)) (\<lambda>n.
     if n = 0 then ret True else sweep_rounds k now)"

definition expired_count :: "instant \<Rightarrow> wallet_tables \<Rightarrow> nat" where
  "expired_count now t = length (filter (expired now) (lots t))"

definition sweep_expired :: "instant \<Rightarrow> bool op" where
  "sweep_expired now w = sweep_rounds (Suc (expired_count now (wallet_of w))) now w"

definition sweep_expired_orders :: "instant \<Rightarrow> unit op" where
  "sweep_expired_orders now = transaction (bnd (due_pending_orders now 100) (close_orders now))"

definition sweep :: "unit op" where
  "sweep = bnd read_now (\<lambda>now. bnd (ignore (sweep_expired now)) (\<lambda>_. ignore (sweep_expired_orders now)))"

section \<open>Frames\<close>

lemma frame_orders [rel_rules]:
  assumes "\<And>f d. g (upd_wallet f d) = g d"
  shows "steps (frame g) (update_order i f)" "steps (frame g) (find_order no)"
    "steps (frame g) (pending_orders acc)" "steps (frame g) (due_pending_orders now k)"
    "steps (frame g) (close_orders now os)"
  unfolding update_order_def find_order_def pending_orders_def due_pending_orders_def close_orders_def
  by (intro rel_rules; simp add: assms frame_def)+

lemma frame_order_txs [rel_rules]:
  assumes "\<And>f d. g (upd_wallet f d) = g d"
  shows "steps (frame g) (recharge_tx acc order now)" "steps (frame g) (credit_tx no trade yuan)"
    "steps (frame g) (close_tx no now)" "steps (frame g) (sweep_round_tx now)"
  unfolding recharge_tx_def credit_tx_def close_tx_def sweep_round_tx_def
  by (intro rel_rules; simp add: assms frame_def)+

lemma frame_new_out_trade_no [rel_rules]: "steps (frame g) (new_out_trade_no acc now)"
  unfolding new_out_trade_no_def by (intro rel_rules)

section \<open>How the order table changes\<close>

lemma put_order_sel [simp]:
  "lots (put_order i f t) = lots t" "ledgers (put_order i f t) = ledgers t" "dailies (put_order i f t) = dailies t"
  "tips (put_order i f t) = tips t" "platform (put_order i f t) = platform t"
  "orders (put_order i f t) = update_where (\<lambda>o'. ord_id o' = i) f (orders t)"
  by (simp_all add: put_order_def)

lemma push_order_sel [simp]:
  "lots (push_order x t) = lots t" "ledgers (push_order x t) = ledgers t" "dailies (push_order x t) = dailies t"
  "tips (push_order x t) = tips t" "platform (push_order x t) = platform t" "orders (push_order x t) = orders t @ [x]"
  by (simp_all add: push_order_def)

lemma books_orders [simp]:
  "books_ok n (put_order i f t) = books_ok n t" "books_ok n (push_order x t) = books_ok n t"
  "gift_ok (put_order i f t) = gift_ok t" "gift_ok (push_order x t) = gift_ok t"
  "platform_ok (put_order i f t) = platform_ok t" "platform_ok (push_order x t) = platform_ok t"
  "ledger_sum P (put_order i f t) = ledger_sum P t" "ledger_sum P (push_order x t) = ledger_sum P t"
  by (simp_all add: books_ok_def ledger_sum_def gift_ok_def gift_rows_def platform_ok_def)

lemma close_row_sel [simp]:
  "ord_id (close_row now x) = ord_id x" "ord_no (close_row now x) = ord_no x" "ord_account (close_row now x) = ord_account x"
  "ord_status (close_row now x) = OrderClosed" "ord_yuan (close_row now x) = ord_yuan x"
  "ord_coins (close_row now x) = ord_coins x" "ord_bonus (close_row now x) = ord_bonus x"
  by (simp_all add: close_row_def)

lemma pay_row_sel [simp]:
  "ord_id (pay_row tr now x) = ord_id x" "ord_no (pay_row tr now x) = ord_no x" "ord_account (pay_row tr now x) = ord_account x"
  "ord_status (pay_row tr now x) = OrderPaid" "ord_yuan (pay_row tr now x) = ord_yuan x"
  "ord_coins (pay_row tr now x) = ord_coins x" "ord_bonus (pay_row tr now x) = ord_bonus x"
  by (simp_all add: pay_row_def)

lemma order_due_unpaid [simp]: "ord_status x \<noteq> OrderPaid \<Longrightarrow> order_due k x = 0"
  by (simp add: order_due_def)

text \<open>Edits of a row: they keep its keys and make nothing pending.\<close>

definition edits :: "(recharge_order \<Rightarrow> recharge_order) \<Rightarrow> bool" where
  "edits f \<longleftrightarrow> (\<forall>x. ord_id (f x) = ord_id x \<and> ord_no (f x) = ord_no x \<and> ord_account (f x) = ord_account x
     \<and> (ord_status (f x) = OrderPending \<longrightarrow> ord_status x = OrderPending))"

lemma edits_rows [simp]:
  "edits (close_row now)" "edits (pay_row tr now)" "edits (\<lambda>x. x\<lparr>ord_session := v\<rparr>)"
  by (simp_all add: edits_def)

lemma pending_ok_map:
  assumes "pending_ok xs" "edits f"
  shows "pending_ok (update_where p f xs)"
proof -
  have e: "ord_id (f x) = ord_id x" "ord_account (f x) = ord_account x"
    "ord_status (f x) = OrderPending \<Longrightarrow> ord_status x = OrderPending" for x
    using assms(2) by (simp_all add: edits_def)
  show ?thesis
    unfolding pending_ok_def
  proof (intro ballI impI)
    fix x y
    assume m: "x \<in> set (update_where p f xs)" "y \<in> set (update_where p f xs)"
      and s: "ord_status x = OrderPending" "ord_status y = OrderPending" "ord_account x = ord_account y"
    obtain x0 where x0: "x0 \<in> set xs" "x = (if p x0 then f x0 else x0)" using m(1) by (auto simp: update_where_def)
    obtain y0 where y0: "y0 \<in> set xs" "y = (if p y0 then f y0 else y0)" using m(2) by (auto simp: update_where_def)
    have "ord_status x0 = OrderPending" "ord_status y0 = OrderPending" "ord_account x0 = ord_account y0"
      using s x0(2) y0(2) e by (auto split: if_splits)
    then have "ord_id x0 = ord_id y0" using assms(1) x0(1) y0(1) unfolding pending_ok_def by blast
    then show "ord_id x = ord_id y" using x0(2) y0(2) e(1) by (auto split: if_splits)
  qed
qed

lemma pending_ok_snoc:
  assumes "pending_ok xs" "\<forall>y \<in> set xs. ord_account y = ord_account x \<longrightarrow> ord_status y \<noteq> OrderPending"
  shows "pending_ok (xs @ [x])"
  unfolding pending_ok_def
proof (intro ballI impI)
  fix a b
  assume m: "a \<in> set (xs @ [x])" "b \<in> set (xs @ [x])"
    and s: "ord_status a = OrderPending" "ord_status b = OrderPending" "ord_account a = ord_account b"
  consider "a \<in> set xs" "b \<in> set xs" | "a = x" "b = x" | "a \<in> set xs" "b = x" | "a = x" "b \<in> set xs"
    using m by auto
  then show "ord_id a = ord_id b"
  proof cases
    case 1
    then show ?thesis using assms(1) s unfolding pending_ok_def by blast
  qed (use assms(2) s in auto)
qed

lemma unique_ok_put:
  assumes "edits f" "unique_ok q t"
  shows "unique_ok q (put_order i f t)"
proof -
  have e: "ord_id (f x) = ord_id x" "ord_no (f x) = ord_no x" for x using assms(1) by (simp_all add: edits_def)
  have "map ord_no (update_where p f xs) = map ord_no xs" "map ord_id (update_where p f xs) = map ord_id xs" for p xs
    by (simp_all add: map_update_where e)
  moreover have "(\<forall>x \<in> set (update_where p f xs). 0 < ord_id x \<and> ord_id x \<le> n) = (\<forall>x \<in> set xs. 0 < ord_id x \<and> ord_id x \<le> n)" for p xs n
  proof -
    have "ord_id (if p x then f x else x) = ord_id x" for x using e by simp
    then show ?thesis unfolding update_where_def set_map ball_simps by (simp only:)
  qed
  moreover have "pending_ok (update_where (\<lambda>x. ord_id x = i) f (orders t))"
    using assms by (intro pending_ok_map) (simp_all add: unique_ok_def)
  ultimately show ?thesis using assms(2) by (simp add: unique_ok_def)
qed

lemma history_put:
  assumes "\<And>x. x \<in> set (orders t) \<Longrightarrow> ord_id x = i \<Longrightarrow> order_step x (f x)"
  shows "history t (put_order i f t)"
proof -
  have "\<exists>y \<in> set (update_where (\<lambda>x. ord_id x = i) f (orders t)). order_step x y" if "x \<in> set (orders t)" for x
    by (rule bexI [OF _ in_update_where [OF that]]) (use assms that in auto)
  then show ?thesis by (simp add: history_def)
qed

lemma owed_put_order:
  assumes "unique_ok q t" "x \<in> set (orders t)"
  shows "owed (put_order (ord_id x) f t) k = owed t k - order_due k x + order_due k (f x)"
  using assms sum_update_where_unique [of ord_id "orders t" x "order_due k" f]
  by (simp add: owed_def unique_ok_def)

lemma owed_put_same:
  assumes "\<And>x. x \<in> set (orders t) \<Longrightarrow> ord_id x = i \<Longrightarrow> order_due k (f x) = order_due k x"
  shows "owed (put_order i f t) k = owed t k"
proof -
  have "map (order_due k) (update_where (\<lambda>x. ord_id x = i) f (orders t)) = map (order_due k) (orders t)"
    using assms by (simp add: update_where_def)
  then show ?thesis unfolding owed_def by (simp only: put_order_sel)
qed

lemma wallet_ok_put:
  assumes ok: "wallet_ok q t" and keys: "edits f"
    and due: "\<And>x k. x \<in> set (orders t) \<Longrightarrow> ord_id x = i \<Longrightarrow> order_due k (f x) = order_due k x"
  shows "wallet_ok q (put_order i f t)"
proof (rule wallet_ok_step [where q = q and q' = q and t = t, OF ok])
  show "unique_ok q (put_order i f t)"
    using wallet_ok_parts(3) [OF ok] keys by (intro unique_ok_put)
  fix k
  have "owed (put_order i f t) k = owed t k" by (rule owed_put_same) (rule due)
  then show "ledger_sum (rows_at k) (put_order i f t) - ledger_sum (rows_at k) t = owed (put_order i f t) k - owed t k"
    by simp
qed (use wallet_ok_parts [OF ok] in simp_all)

definition unpaid_at :: "nat \<Rightarrow> wallet_tables \<Rightarrow> bool" where
  "unpaid_at i t \<longleftrightarrow> (\<forall>x \<in> set (orders t). ord_id x = i \<longrightarrow> ord_status x \<noteq> OrderPaid)"

lemma unpaid_at_put:
  assumes "\<And>x. ord_id (f x) = ord_id x" "\<And>x. ord_status x \<noteq> OrderPaid \<Longrightarrow> ord_status (f x) \<noteq> OrderPaid"
    "unpaid_at i t"
  shows "unpaid_at i (put_order j f t)"
  unfolding unpaid_at_def put_order_sel
proof (intro ballI impI)
  fix y assume y: "y \<in> set (update_where (\<lambda>x. ord_id x = j) f (orders t))" "ord_id y = i"
  then obtain x where "x \<in> set (orders t)" "y = (if ord_id x = j then f x else x)"
    by (auto simp: update_where_def)
  then show "ord_status y \<noteq> OrderPaid"
    using y(2) assms by (cases "ord_id x = j") (simp_all add: unpaid_at_def)
qed

lemma wallet_ok_close: "wallet_ok q t \<Longrightarrow> unpaid_at i t \<Longrightarrow> wallet_ok q (put_order i (close_row now) t)"
  by (rule wallet_ok_put) (simp_all add: unpaid_at_def)

lemma history_close: "unpaid_at i t \<Longrightarrow> history t (put_order i (close_row now) t)"
  by (rule history_put) (auto simp: unpaid_at_def order_step_def close_row_def)

lemma history_pay: "history t (put_order i (pay_row tr now) t)"
  by (rule history_put) (simp add: order_step_def pay_row_def)

lemma history_session: "history t (put_order i (\<lambda>x. x\<lparr>ord_session := v\<rparr>) t)"
  by (rule history_put) (simp add: order_step_def)

lemma history_push: "history t (push_order x t)"
  by (simp add: history_def)

lemma wallet_ok_push_order:
  assumes ok: "wallet_ok q t" "\<forall>s. q s \<le> q' s" and new: "q WalletRechargeOrders < ord_id x"
    "ord_id x \<le> q' WalletRechargeOrders" "ord_no x \<notin> ord_no ` set (orders t)" "ord_status x \<noteq> OrderPaid"
    and alone: "\<forall>y \<in> set (orders t). ord_account y = ord_account x \<longrightarrow> ord_status y \<noteq> OrderPending"
  shows "wallet_ok q' (push_order x t)"
proof -
  have "\<forall>y \<in> set (orders t). ord_id y < ord_id x"
    using wallet_ok_parts(3) [OF ok(1)] new(1) unfolding unique_ok_def by fastforce
  moreover have u: "unique_ok q' t" by (rule unique_ok_mono [OF wallet_ok_parts(3) [OF ok(1)] ok(2)])
  then have "pending_ok (orders t @ [x])"
    using alone by (intro pending_ok_snoc) (simp_all add: unique_ok_def)
  ultimately have "unique_ok q' (push_order x t)"
    using u new by (auto simp: unique_ok_def)
  then show ?thesis
    using wallet_ok_parts [OF ok(1)] books_ok_mono [of "q WalletLots" t] ok new(4)
    by (intro wallet_ok_step [where q = q and q' = q' and t = t]) (simp_all add: owed_def)
qed

section \<open>Closing orders\<close>

definition close_set :: "instant \<Rightarrow> recharge_order list \<Rightarrow> wallet_tables \<Rightarrow> wallet_tables" where
  "close_set now os t = t\<lparr>orders := update_where (\<lambda>x. ord_id x \<in> ord_id ` set os) (close_row now) (orders t)\<rparr>"

lemma close_set_Nil [simp]: "close_set now [] t = t"
  by (simp add: close_set_def update_where_def)

lemma close_set_Cons:
  "close_set now os (put_order (ord_id x) (close_row now) t) = close_set now (x # os) t"
proof -
  have "close_row now (close_row now y) = close_row now y" for y by (simp add: close_row_def)
  then show ?thesis by (simp add: close_set_def put_order_def update_where_def)
qed

lemma wp_close_orders:
  assumes "sound w" "distinct (map ord_id os)" "\<forall>x \<in> set os. unpaid_at (ord_id x) (wallet_of w)"
  shows "wp (close_orders now os)
    (\<lambda>_ w'. sound w' \<and> wallet_of w' = close_set now os (wallet_of w) \<and> seqs w' = seqs w
        \<and> history (wallet_of w) (wallet_of w')) (\<lambda>_ _. True) w"
  using assms
proof (induction os arbitrary: w)
  case Nil
  then show ?case by (simp add: close_orders_def wp_rules)
next
  case (Cons x os)
  let ?Q = "\<lambda>_ w'. sound w' \<and> wallet_of w' = close_set now (x # os) (wallet_of w) \<and> seqs w' = seqs w
        \<and> history (wallet_of w) (wallet_of w')"
  have one: "wp (update_order (ord_id x) (close_row now))
    (\<lambda>_ w'. sound w' \<and> wallet_of w' = put_order (ord_id x) (close_row now) (wallet_of w) \<and> seqs w' = seqs w) (\<lambda>_ _. True) w"
    using Cons.prems by (simp add: update_order_def wp_rules wallet_ok_close)
  have "wp (bnd (update_order (ord_id x) (close_row now)) (\<lambda>_. close_orders now os)) ?Q (\<lambda>_ _. True) w"
  proof (rule wp_and_then [OF one])
    fix y w'
    assume w': "sound w' \<and> wallet_of w' = put_order (ord_id x) (close_row now) (wallet_of w) \<and> seqs w' = seqs w"
    have later: "\<forall>z \<in> set os. unpaid_at (ord_id z) (wallet_of w')"
      using w' Cons.prems(3) by (simp add: unpaid_at_put)
    have first: "history (wallet_of w) (wallet_of w')"
      using w' Cons.prems(3) by (simp add: history_close)
    have "wp (close_orders now os)
      (\<lambda>_ u. sound u \<and> wallet_of u = close_set now os (wallet_of w') \<and> seqs u = seqs w'
        \<and> history (wallet_of w') (wallet_of u)) (\<lambda>_ _. True) w'"
      using Cons.prems(2) w' later by (intro Cons.IH) auto
    then show "wp (close_orders now os) ?Q (\<lambda>_ _. True) w'"
    proof (rule wp_mono)
      fix z u
      assume u: "sound u \<and> wallet_of u = close_set now os (wallet_of w') \<and> seqs u = seqs w'
        \<and> history (wallet_of w') (wallet_of u)"
      then have "wallet_of u = close_set now (x # os) (wallet_of w)"
        using w' close_set_Cons [of now os x "wallet_of w"] by simp
      moreover have "history (wallet_of w) (wallet_of u)" using u history_trans [OF first] by blast
      ultimately show "?Q z u" using u w' by (elim conjE) simp
    qed simp
  qed
  then show ?case by (simp add: close_orders_def)
qed

lemma unpaid_pending:
  "unique_ok q t \<Longrightarrow> x \<in> set (orders t) \<Longrightarrow> ord_status x \<noteq> OrderPaid \<Longrightarrow> unpaid_at (ord_id x) t"
  unfolding unpaid_at_def unique_ok_def by (metis distinct_map_inj_eq)

lemma sort_filter_orders:
  assumes "unique_ok q t" "\<And>x. P x \<Longrightarrow> ord_status x \<noteq> OrderPaid"
  shows "distinct (map ord_id (filter P (orders t)))" "distinct (map ord_id (take n (sort_key ord_id (filter P (orders t)))))"
    "\<forall>x \<in> set (filter P (orders t)). unpaid_at (ord_id x) t"
    "\<forall>x \<in> set (take n (sort_key ord_id (filter P (orders t)))). unpaid_at (ord_id x) t"
proof -
  have "distinct (map ord_id (orders t))" using assms(1) by (simp add: unique_ok_def)
  then show d: "distinct (map ord_id (filter P (orders t)))" by (simp add: distinct_map_filter)
  then have "distinct (map ord_id (sort_key ord_id (filter P (orders t))))"
    by (simp add: distinct_map)
  then show "distinct (map ord_id (take n (sort_key ord_id (filter P (orders t)))))"
    by (simp add: take_map [symmetric])
  show u: "\<forall>x \<in> set (filter P (orders t)). unpaid_at (ord_id x) t"
    using assms unpaid_pending by auto
  then show "\<forall>x \<in> set (take n (sort_key ord_id (filter P (orders t)))). unpaid_at (ord_id x) t"
    by (auto dest: in_set_takeD)
qed

section \<open>Recharges keep the wallet sound\<close>

text \<open>What the transaction of \<open>CreateRecharge\<close> did: the account's pending orders are closed and
  the new one recorded.\<close>

definition recharge_started :: "nat \<Rightarrow> recharge_order \<Rightarrow> instant \<Rightarrow> wallet_tables \<Rightarrow> wallet_tables \<Rightarrow> bool" where
  "recharge_started acc x now t t' \<longleftrightarrow> ord_no x \<notin> ord_no ` set (orders t) \<and> (\<forall>y \<in> set (orders t). ord_id y \<noteq> ord_id x)
     \<and> t' = push_order x (close_set now (filter (\<lambda>y. ord_account y = acc \<and> ord_status y = OrderPending) (orders t)) t)"

lemma orders_close_set_keys:
  "ord_no ` set (orders (close_set now os t)) = ord_no ` set (orders t)"
  "ord_id ` set (orders (close_set now os t)) = ord_id ` set (orders t)"
proof -
  have "map ord_no (orders (close_set now os t)) = map ord_no (orders t)"
    "map ord_id (orders (close_set now os t)) = map ord_id (orders t)"
    by (simp_all add: close_set_def map_update_where)
  then show "ord_no ` set (orders (close_set now os t)) = ord_no ` set (orders t)"
    "ord_id ` set (orders (close_set now os t)) = ord_id ` set (orders t)"
    by (metis set_map)+
qed

lemma wp_recharge_tx:
  assumes ok: "sound w" and new: "ord_status order = OrderPending" "ord_account order = acc"
  shows "wp (recharge_tx acc order now)
    (\<lambda>i w'. sound w' \<and> history (wallet_of w) (wallet_of w') \<and> recharge_started acc (order\<lparr>ord_id := i\<rparr>) now (wallet_of w) (wallet_of w')) (\<lambda>_ _. True) w"
proof -
  let ?ps = "filter (\<lambda>y. ord_account y = acc \<and> ord_status y = OrderPending) (orders (wallet_of w))"
  let ?t = "close_set now ?ps (wallet_of w)"
  let ?ins = "create WalletRechargeOrders (\<lambda>_ d. \<exists>o' \<in> set (orders (d_wallet d)). ord_no o' = ord_no order)
       (\<lambda>i. upd_wallet (push_order (order\<lparr>ord_id := i\<rparr>)))"
  let ?Q = "\<lambda>i w'. sound w' \<and> history (wallet_of w) (wallet_of w') \<and> recharge_started acc (order\<lparr>ord_id := i\<rparr>) now (wallet_of w) (wallet_of w')"
  note u = wallet_ok_parts(3) [OF ok]
  have close: "wp (close_orders now ?ps) (\<lambda>_ w'. sound w' \<and> wallet_of w' = ?t \<and> seqs w' = seqs w
      \<and> history (wallet_of w) (wallet_of w')) (\<lambda>_ _. True) (next_stmt w)"
    using wp_close_orders [of "next_stmt w" ?ps now] ok
      sort_filter_orders(1,3) [OF u, of "\<lambda>y. ord_account y = acc \<and> ord_status y = OrderPending"] by simp
  have ids: "ord_id y \<le> seqs w WalletRechargeOrders" if "y \<in> set (orders (wallet_of w))" for y
    using u that by (simp add: unique_ok_def)
  have "wp ?ins ?Q (\<lambda>_ _. True) v"
    if v: "sound v" "wallet_of v = ?t" "seqs v = seqs w" "history (wallet_of w) (wallet_of v)" for v
  proof -
    have alone: "ord_status y \<noteq> OrderPending" if "y \<in> set (orders ?t)" "ord_account y = acc" for y
      using that by (auto simp: close_set_def set_update_where image_iff)
    let ?i = "Suc (seqs v WalletRechargeOrders)"
    have push: "wallet_ok ((seqs v)(WalletRechargeOrders := ?i)) (push_order (order\<lparr>ord_id := ?i\<rparr>) (wallet_of v))"
      if "\<not> (\<exists>o' \<in> set (orders (wallet_of v)). ord_no o' = ord_no order)"
    proof (rule wallet_ok_push_order [OF v(1)])
      show "\<forall>y \<in> set (orders (wallet_of v)). ord_account y = ord_account (order\<lparr>ord_id := ?i\<rparr>) \<longrightarrow> ord_status y \<noteq> OrderPending"
        unfolding v(2) by (intro ballI impI alone) (simp_all add: new(2))
    qed (use that new(1) in \<open>auto simp: image_iff\<close>)
    have "recharge_started acc (order\<lparr>ord_id := ?i\<rparr>) now (wallet_of w) (push_order (order\<lparr>ord_id := ?i\<rparr>) (wallet_of v))"
      if "\<not> (\<exists>o' \<in> set (orders (wallet_of v)). ord_no o' = ord_no order)"
    proof -
      have "ord_no order \<notin> ord_no ` set (orders (wallet_of w))"
      proof -
        have "ord_no order \<notin> ord_no ` set (orders ?t)" using that by (auto simp: v(2) [symmetric])
        then show ?thesis unfolding orders_close_set_keys(1) .
      qed
      moreover have "\<forall>y \<in> set (orders (wallet_of w)). ord_id y \<noteq> ?i" using ids v(3) by fastforce
      ultimately show ?thesis using v(2) by (simp add: recharge_started_def)
    qed
    with push history_trans [OF v(4) history_push] show ?thesis by (simp add: wp_create Let_def)
  qed
  then have "wp (bnd (close_orders now ?ps) (\<lambda>_. ?ins)) ?Q (\<lambda>_ _. True) (next_stmt w)"
    by (intro wp_and_then [OF close]) auto
  then show ?thesis by (simp add: recharge_tx_def pending_orders_def wp_bnd wp_stmt)
qed

lemma recharge_started_unpaid:
  "recharge_started acc x now t t' \<Longrightarrow> ord_status x \<noteq> OrderPaid \<Longrightarrow> unpaid_at (ord_id x) t'"
proof -
  let ?os = "filter (\<lambda>y. ord_account y = acc \<and> ord_status y = OrderPending) (orders t)"
  assume x: "recharge_started acc x now t t'" "ord_status x \<noteq> OrderPaid"
  then have "ord_id x \<notin> ord_id ` set (orders (close_set now ?os t))"
    unfolding orders_close_set_keys(2) by (auto simp: recharge_started_def)
  then have "\<forall>y \<in> set (orders (close_set now ?os t)). ord_id y \<noteq> ord_id x"
    by (metis imageI)
  then show "unpaid_at (ord_id x) t'"
    using x by (simp add: recharge_started_def unpaid_at_def)
qed

abbreviation advanced :: "wallet_tables \<Rightarrow> db world \<Rightarrow> bool" where
  "advanced t w \<equiv> sound w \<and> history t (wallet_of w)"

lemma wp_close_one:
  assumes "advanced t w" "unpaid_at i (wallet_of w)"
  shows "wp (ignore (update_order i (close_row now))) (\<lambda>_. advanced t) (\<lambda>_. advanced t) w"
  using assms history_trans [OF _ history_close, of t "wallet_of w" i now]
  by (simp add: update_order_def wp_rules wallet_ok_close)

lemma order_due_session [simp]: "order_due k (x\<lparr>ord_session := v\<rparr>) = order_due k x"
  by (simp add: order_due_def order_key_def)

lemma wp_set_session:
  assumes "advanced t w" "unpaid_at i (wallet_of w)"
  shows "wp (result_of (update_order i (\<lambda>x. x\<lparr>ord_session := v\<rparr>)))
    (\<lambda>_ w'. advanced t w' \<and> unpaid_at i (wallet_of w')) (\<lambda>_. advanced t) w"
proof -
  have "wallet_ok (seqs w) (put_order i (\<lambda>x. x\<lparr>ord_session := v\<rparr>) (wallet_of w))"
    by (rule wallet_ok_put) (use assms(1) in simp_all)
  moreover have "unpaid_at i (put_order i (\<lambda>x. x\<lparr>ord_session := v\<rparr>) (wallet_of w))"
    by (rule unpaid_at_put) (use assms(2) in simp_all)
  ultimately show ?thesis
    using assms history_trans [OF _ history_session, of t "wallet_of w" i v] by (simp add: update_order_def wp_rules)
qed

lemma wp_start_checkout:
  assumes "advanced t w" "unpaid_at (ord_id order) (wallet_of w)"
  shows "wp (start_checkout g order now method) (\<lambda>_. advanced t) (\<lambda>_. advanced t) w"
proof -
  have close: "wp (bnd (ignore (update_order (ord_id order) (close_row now))) (\<lambda>_. throw e)) (\<lambda>_. advanced t) (\<lambda>_. advanced t) v"
    if "advanced t v" "unpaid_at (ord_id order) (wallet_of v)" for v e
    using wp_close_one [OF that] by (simp add: wp_bnd wp_basic(2))
  show ?thesis
    using assms
    by (auto simp: start_checkout_def wp_bnd wp_basic(5) wp_sum wp_basic(1) Let_def split: sum.split
        intro!: close [unfolded wp_bnd] wp_mono [OF wp_set_session])
qed

text \<open>What crediting an order did: nothing when it was paid already, otherwise it is paid now and
  its coins and bonus are posted under its number.\<close>

definition pays :: "recharge_order \<Rightarrow> gostr \<Rightarrow> instant \<Rightarrow> wallet_tables \<Rightarrow> wallet_tables \<Rightarrow> bool" where
  "pays x trade now t t' \<longleftrightarrow> (\<exists>t1.
     posted (rows_at (order_key x LedgerGrantRecharge)) (max 0 (ord_coins x)) (put_order (ord_id x) (pay_row trade now) t) t1
     \<and> posted (rows_at (order_key x LedgerGrantRechargeBonus)) (max 0 (ord_bonus x)) t1 t')"

lemma order_ofD: "order_of no t = Some x \<Longrightarrow> x \<in> set (orders t) \<and> ord_no x = no"
  unfolding order_of_def by (rule find_Some_in)

lemma order_due_pay: "ord_status x \<noteq> OrderPaid \<Longrightarrow> order_due k (pay_row trade now x) =
    (if k = order_key x LedgerGrantRecharge then max 0 (ord_coins x) else 0)
    + (if k = order_key x LedgerGrantRechargeBonus then max 0 (ord_bonus x) else 0)"
  by (simp add: order_due_def order_key_def)

lemma wallet_ok_pays:
  assumes ok: "wallet_ok q t" "\<forall>s. q s \<le> q' s" "books_ok (q' WalletLots) t'"
    and x: "x \<in> set (orders t)" "ord_status x \<noteq> OrderPaid" and p: "pays x trade now t t'"
  shows "wallet_ok q' t'"
proof -
  let ?u = "put_order (ord_id x) (pay_row trade now) t"
  obtain t1 where p1: "posted (rows_at (order_key x LedgerGrantRecharge)) (max 0 (ord_coins x)) ?u t1"
    and p2: "posted (rows_at (order_key x LedgerGrantRechargeBonus)) (max 0 (ord_bonus x)) t1 t'"
    using p by (auto simp: pays_def)
  note parts = wallet_ok_parts [OF ok(1)]
  show ?thesis
  proof (rule wallet_ok_step [where q = q and q' = q' and t = t])
    show "wallet_ok q t" "books_ok (q' WalletLots) t'" by fact+
    have "unique_ok q' ?u"
      using unique_ok_mono [OF parts(3) ok(2)] unique_ok_put [of "pay_row trade now"] by simp
    then show "unique_ok q' t'" by (simp add: posted_unique_ok [OF p1] posted_unique_ok [OF p2])
    show "platform_ok t'" using parts(4) by (simp add: posted_platform_ok [OF p1] posted_platform_ok [OF p2])
    have "gift_ok ?u" using parts(5) by simp
    then have "gift_ok t1" by (rule posted_gift_ok [OF p1, rotated]) (auto simp: rows_at_def order_key_def)
    then show "gift_ok t'" by (rule posted_gift_ok [OF p2, rotated]) (auto simp: rows_at_def order_key_def)
    show "ledger_sum (rows_at k) t' - ledger_sum (rows_at k) t = owed t' k - owed t k" for k
      using posted_at [OF p1, of k] posted_at [OF p2, of k] posted_owed [OF p1] posted_owed [OF p2]
        owed_put_order [OF parts(3) x(1), of "pay_row trade now" k] x(2)
      by (simp add: order_due_pay)
  qed
qed

text \<open>The two grants of a credit.\<close>

lemma wp_credit_grants:
  assumes "good w"
  shows "wp (bnd (grant_in_tx (ord_account x) SourceRecharge (ord_coins x) LedgerGrantRecharge (lit ''recharge'') (ord_no x)) (\<lambda>_.
      whenever (ord_bonus x > 0)
        (grant_in_tx (ord_account x) SourceRecharge (ord_bonus x) LedgerGrantRechargeBonus (lit ''recharge'') (ord_no x))))
    (\<lambda>_ w'. good w' \<and> (\<exists>t1. posted (rows_at (order_key x LedgerGrantRecharge)) (max 0 (ord_coins x)) (wallet_of w) t1
       \<and> posted (rows_at (order_key x LedgerGrantRechargeBonus)) (max 0 (ord_bonus x)) t1 (wallet_of w'))) (\<lambda>_ _. True) w"
proof (rule wp_and_then [OF wp_grant_in_tx [OF assms]])
  fix y w1
  assume w1: "good w1 \<and> posted (rows_of (ord_account x) LedgerGrantRecharge (lit ''recharge'') (ord_no x))
     (max 0 (ord_coins x)) (wallet_of w) (wallet_of w1)"
  have bonus: "wp (whenever (ord_bonus x > 0)
        (grant_in_tx (ord_account x) SourceRecharge (ord_bonus x) LedgerGrantRechargeBonus (lit ''recharge'') (ord_no x)))
    (\<lambda>_ w'. good w' \<and> posted (rows_at (order_key x LedgerGrantRechargeBonus)) (max 0 (ord_bonus x)) (wallet_of w1) (wallet_of w'))
    (\<lambda>_ _. True) w1"
    using w1 wp_grant_in_tx [of w1 "ord_account x" SourceRecharge "ord_bonus x" LedgerGrantRechargeBonus "lit ''recharge''" "ord_no x"]
    by (auto simp: wp_rules rows_of_at order_key_def max_def)
  show "wp (whenever (ord_bonus x > 0)
        (grant_in_tx (ord_account x) SourceRecharge (ord_bonus x) LedgerGrantRechargeBonus (lit ''recharge'') (ord_no x)))
    (\<lambda>_ w'. good w' \<and> (\<exists>t1. posted (rows_at (order_key x LedgerGrantRecharge)) (max 0 (ord_coins x)) (wallet_of w) t1
       \<and> posted (rows_at (order_key x LedgerGrantRechargeBonus)) (max 0 (ord_bonus x)) t1 (wallet_of w'))) (\<lambda>_ _. True) w1"
    by (rule wp_mono [OF bonus]) (use w1 in \<open>auto simp: rows_of_at order_key_def\<close>)
qed

definition credited :: "gostr \<Rightarrow> gostr \<Rightarrow> int \<Rightarrow> wallet_tables \<Rightarrow> wallet_tables \<Rightarrow> bool" where
  "credited no trade yuan t t' \<longleftrightarrow> (\<exists>x. order_of no t = Some x
     \<and> (ord_status x = OrderPaid \<and> t' = t
        \<or> ord_status x \<noteq> OrderPaid \<and> ord_yuan x = yuan \<and> (\<exists>now. pays x trade now t t')))"

lemma credited_history: "credited no trade yuan t t' \<Longrightarrow> history t t'"
proof -
  assume "credited no trade yuan t t'"
  then consider "t' = t" | i trade now t1 where "history (put_order i (pay_row trade now) t) t1" "history t1 t'"
    by (auto simp: credited_def pays_def dest!: posted_history)
  then show ?thesis by cases (auto intro: history_trans [OF history_pay] dest: history_trans)
qed

lemma wp_credit_tx:
  assumes ok: "sound w"
  shows "wp (credit_tx no trade yuan)
    (\<lambda>_ w'. sound w' \<and> credited no trade yuan (wallet_of w) (wallet_of w')) (\<lambda>_ _. True) w"
proof (cases "order_of no (wallet_of w)")
  case None
  then show ?thesis by (simp add: credit_tx_def find_order_def wp_rules)
next
  case (Some x)
  note x = order_ofD [OF Some]
  let ?m = "bnd (grant_in_tx (ord_account x) SourceRecharge (ord_coins x) LedgerGrantRecharge (lit ''recharge'') (ord_no x)) (\<lambda>_.
      whenever (ord_bonus x > 0)
        (grant_in_tx (ord_account x) SourceRecharge (ord_bonus x) LedgerGrantRechargeBonus (lit ''recharge'') (ord_no x)))"
  have grow: "steps grows ?m" by (intro rel_rules; simp)
  have "wp ?m (\<lambda>_ w'. sound w' \<and> credited no trade yuan (wallet_of w) (wallet_of w')) (\<lambda>_ _. True) v"
    if v: "wallet_of v = put_order (ord_id x) (pay_row trade now) (wallet_of w)" "seqs v = seqs w"
      and s: "ord_status x \<noteq> OrderPaid" "ord_yuan x = yuan" for v now
  proof -
    have "good v" using v sound_good [OF ok] by (simp add: good_def)
    from wp_grows [OF grow wp_credit_grants [OF this]] show ?thesis
    proof (rule wp_mono)
      fix y w'
      assume w': "(good w' \<and> (\<exists>t1. posted (rows_at (order_key x LedgerGrantRecharge)) (max 0 (ord_coins x)) (wallet_of v) t1
        \<and> posted (rows_at (order_key x LedgerGrantRechargeBonus)) (max 0 (ord_bonus x)) t1 (wallet_of w')))
        \<and> (\<forall>t. seqs v t \<le> seqs w' t)"
      then have p: "pays x trade now (wallet_of w) (wallet_of w')" by (simp add: pays_def v(1))
      then have "sound w'" using w' x s(1) v(2) books_good [of w'] by (intro wallet_ok_pays [OF ok _ _ _ _ p]) auto
      with p s Some show "sound w' \<and> credited no trade yuan (wallet_of w) (wallet_of w')"
        by (auto simp: credited_def)
    qed simp
  qed
  then show ?thesis
    using Some ok
    by (auto simp: credit_tx_def find_order_def update_order_def credited_def wp_bnd [of "query f" for f]
        wp_bnd [of read_now] wp_bnd [of "exec f" for f] wp_if wp_basic wp_stmt wp_option)
qed

lemma wp_close_tx:
  assumes "sound w"
  shows "wp (close_tx no now) (\<lambda>_. advanced (wallet_of w)) (\<lambda>_ _. True) w"
proof -
  have "unpaid_at (ord_id x) (wallet_of w)" if "order_of no (wallet_of w) = Some x" "ord_status x = OrderPending" for x
    using order_ofD [OF that(1)] that(2) unpaid_pending [OF wallet_ok_parts(3) [OF assms], of x] by simp
  then have "history (wallet_of w) (put_order (ord_id x) (close_row now) (wallet_of w))"
    if "order_of no (wallet_of w) = Some x" "ord_status x = OrderPending" for x
    using that by (simp add: history_close)
  moreover have "wallet_ok (seqs w) (put_order (ord_id x) (close_row now) (wallet_of w))"
    if "order_of no (wallet_of w) = Some x" "ord_status x = OrderPending" for x
    using order_ofD [OF that(1)] that(2) unpaid_pending [OF wallet_ok_parts(3) [OF assms], of x]
    by (intro wallet_ok_close [OF assms]) simp
  ultimately show ?thesis
    using assms by (auto simp: close_tx_def find_order_def update_order_def wp_rules split: option.split)
qed

section \<open>The sweeper makes progress\<close>

lemma fewer_filter_map:
  "(\<And>x. P (f x) \<Longrightarrow> P x) \<Longrightarrow> length (filter P (map f xs)) \<le> length (filter P xs)"
  by (induction xs) (auto intro: le_SucI)

lemma fewer_filter_map_strict:
  assumes "\<And>x. P (f x) \<Longrightarrow> P x" "x \<in> set xs" "P x" "\<not> P (f x)"
  shows "length (filter P (map f xs)) < length (filter P xs)"
  using assms(2)
proof (induction xs)
  case (Cons a xs)
  then show ?case
    using assms fewer_filter_map [of P f xs] by (cases "x = a") (auto simp: less_Suc_eq_le)
qed simp

lemma expired_count_zero_lots:
  assumes "ls \<noteq> []" "set ls \<subseteq> set (filter (expired now) (lots t))" "lots t' = lots (zero_lots ls t)"
  shows "expired_count now t' < expired_count now t"
proof -
  let ?f = "\<lambda>l. if lot_id l \<in> lot_id ` set ls then l\<lparr>lot_remaining := 0\<rparr> else l"
  obtain l where l: "l \<in> set ls" using assms(1) by (cases ls) auto
  have "length (filter (expired now) (map ?f (lots t))) < length (filter (expired now) (lots t))"
    by (rule fewer_filter_map_strict [where x = l]) (use l assms(2) in \<open>auto simp: expired_def split: if_splits\<close>)
  then show ?thesis by (simp add: expired_count_def assms(3) zero_lots_def update_where_def)
qed

lemma spendable_zero_lots:
  assumes "distinct (map lot_id (lots t))" "set ls \<subseteq> set (filter (expired now) (lots t))" "lots t' = lots (zero_lots ls t)"
  shows "spendable a now t' = spendable a now t"
proof -
  have "(if available a now l' then lot_remaining l' else 0) = (if available a now l then lot_remaining l else 0)"
    if "l \<in> set (lots t)" "l' = (if lot_id l \<in> lot_id ` set ls then l\<lparr>lot_remaining := 0\<rparr> else l)" for l l'
  proof (cases "lot_id l \<in> lot_id ` set ls")
    case True
    then obtain m where m: "m \<in> set ls" "lot_id m = lot_id l" by auto
    then have "m = l" using assms(1,2) that(1) by (intro distinct_map_inj_eq [OF assms(1)]) auto
    then have "expired now l" using m assms(2) by auto
    then have "\<not> available a now l" by (auto simp: available_def expired_def split: option.splits)
    with True that(2) show ?thesis by (simp add: available_def)
  qed (simp add: that(2))
  then show ?thesis
    by (simp add: spendable_def assms(3) zero_lots_def update_where_def o_def cong: map_cong)
qed

definition swept :: "instant \<Rightarrow> wallet_tables \<Rightarrow> wallet_tables \<Rightarrow> bool" where
  "swept now t t' \<longleftrightarrow> (\<exists>s. posted (expiry_rows (\<lambda>_. True)) s t t') \<and> expired_count now t' = 0
     \<and> (\<forall>a. spendable a now t' = spendable a now t)"

text \<open>One round: \<open>n\<close> lots were written off, and none was left if there were none.\<close>

definition round_done :: "instant \<Rightarrow> wallet_tables \<Rightarrow> nat \<Rightarrow> wallet_tables \<Rightarrow> bool" where
  "round_done now t n t' \<longleftrightarrow> (\<exists>s. posted (expiry_rows (\<lambda>_. True)) s t t')
     \<and> (if n = 0 then expired_count now t' = 0 else expired_count now t' < expired_count now t)
     \<and> (\<forall>a. spendable a now t' = spendable a now t)"

lemma wp_sweep_round:
  assumes ok: "sound w"
  shows "wp (sweep_round_tx now)
    (\<lambda>n w'. sound w' \<and> round_done now (wallet_of w) n (wallet_of w')) (\<lambda>_ _. True) w"
proof -
  let ?t = "wallet_of w"
  define ls where "ls = take 100 (sort_key lot_id (filter (expired now) (lots ?t)))"
  have "distinct (map lot_id (sort_key lot_id (filter (expired now) (lots ?t))))"
    using distinct_sub_lots [OF wallet_ok_parts(1) [OF ok]] by blast
  then have sub: "distinct (map lot_id ls)" "set ls \<subseteq> set (filter (expired now) (lots ?t))" "set ls \<subseteq> set (lots ?t)"
    by (auto simp: ls_def take_map [symmetric] dest: in_set_takeD)
  have empty: "ls = [] \<longleftrightarrow> expired_count now ?t = 0"
    by (simp add: ls_def expired_count_def) (metis length_0_conv length_sort)
  have grow: "steps grows (each (expire_lot now) ls)" by (intro rel_rules) simp
  have "good (next_stmt w)" using sound_good [OF ok] by (simp add: good_def)
  then have run: "wp (each (expire_lot now) ls)
    (\<lambda>_ w'. good w' \<and> posted (expiry_rows (\<lambda>_. True)) (- (\<Sum>l\<leftarrow>ls. lot_remaining l)) (wallet_of (next_stmt w)) (wallet_of w')
       \<and> lots (wallet_of w') = lots (zero_lots ls (wallet_of (next_stmt w)))) (\<lambda>_ _. True) (next_stmt w)"
    by (rule wp_expire_lots) (use sub in simp_all)
  have "wp (each (expire_lot now) ls)
    (\<lambda>_ w'. sound w' \<and> round_done now ?t (length ls) (wallet_of w')) (\<lambda>_ _. True) (next_stmt w)"
  proof (rule wp_mono [OF wp_grows [OF grow run]])
    fix x w'
    assume w': "(good w' \<and> posted (expiry_rows (\<lambda>_. True)) (- (\<Sum>l\<leftarrow>ls. lot_remaining l)) (wallet_of (next_stmt w)) (wallet_of w')
       \<and> lots (wallet_of w') = lots (zero_lots ls (wallet_of (next_stmt w)))) \<and> (\<forall>t. seqs (next_stmt w) t \<le> seqs w' t)"
    then have "sound w'" using books_good [of w'] by (intro wallet_ok_expired [OF ok]) auto
    moreover have "expired_count now (wallet_of w') = 0" if "ls = []"
      using that empty w' by (simp add: expired_count_def)
    moreover have "expired_count now (wallet_of w') < expired_count now ?t" if "ls \<noteq> []"
      by (rule expired_count_zero_lots [OF that sub(2)]) (use w' in simp)
    moreover have "spendable a now (wallet_of w') = spendable a now ?t" for a
      by (rule spendable_zero_lots [OF _ sub(2)])
        (use w' wallet_ok_parts(1) [OF ok] in \<open>simp_all add: books_ok_def\<close>)
    ultimately show "sound w' \<and> round_done now ?t (length ls) (wallet_of w')"
      using w' by (auto simp: round_done_def)
  qed simp
  then show ?thesis
    by (simp add: sweep_round_tx_def expired_lots_def wp_bnd wp_stmt wp_basic ls_def [symmetric])
qed

lemma wp_sweep_rounds:
  assumes "sound w" "expired_count now (wallet_of w) < k"
  shows "wp (sweep_rounds k now) (\<lambda>done w'. done \<and> sound w' \<and> swept now (wallet_of w) (wallet_of w')) (\<lambda>_ _. True) w"
  using assms
proof (induction k arbitrary: w)
  case (Suc k)
  let ?R = "\<lambda>n w'. sound w' \<and> round_done now (wallet_of w) n (wallet_of w')"
  have round: "wp (transaction (sweep_round_tx now)) ?R (\<lambda>_ _. True) w"
    using wp_sweep_round [of "next_stmt w" now] Suc.prems(1) by (intro wp_transactionI) simp_all
  show ?case
    unfolding sweep_rounds.simps
  proof (rule wp_and_then [OF round])
    fix n :: nat and w' assume R: "?R n w'"
    show "wp (if n = 0 then ret True else sweep_rounds k now)
      (\<lambda>done w'. done \<and> sound w' \<and> swept now (wallet_of w) (wallet_of w')) (\<lambda>_ _. True) w'"
    proof (cases "n = 0")
      case True
      with R show ?thesis by (simp add: wp_rules swept_def round_done_def)
    next
      case False
      then have "expired_count now (wallet_of w') < k" using R Suc.prems(2) by (simp add: round_done_def)
      with R False show ?thesis
        by (auto simp: swept_def round_done_def elim!: wp_mono [OF Suc.IH] intro: posted_ex)
    qed
  qed
qed simp

section \<open>Every operation keeps the wallet sound\<close>

lemma keeps_find_order: "steps keeps_wallet (find_order no)"
  by (rule wallet_untouched) (simp add: find_order_def framed.steps_env)

lemma keeps_reload: "steps keeps_wallet (reload order)"
  unfolding reload_def by (intro kept_rules)

lemma keeps_credit_paid: "steps keeps_wallet (credit_paid no trade amount)"
proof -
  have "steps keeps_wallet (transaction (credit_tx no trade yuan))" for yuan
    by (rule books.committed) (auto intro!: rel_rules elim!: wp_mono [OF wp_credit_tx] intro: credited_history)
  then show ?thesis unfolding credit_paid_def by (intro kept_rules)
qed

lemma keeps_credit_stripe: "steps keeps_wallet (credit_stripe no session)"
  unfolding credit_stripe_def by (intro kept_rules keeps_find_order keeps_credit_paid)

lemma keeps_close_order: "steps keeps_wallet (close_order no)"
proof -
  have "steps keeps_wallet (transaction (close_tx no now))" for now
    by (rule books.committed) (auto intro!: rel_rules elim!: wp_mono [OF wp_close_tx])
  then show ?thesis unfolding close_order_def by (intro kept_rules)
qed

lemma keeps_orders [rel_rules]:
  "steps keeps_wallet (handle_stripe_notify gw payload sig)" "steps keeps_wallet (query_order gw acc no)"
  unfolding handle_stripe_notify_def query_order_def refresh_stripe_pending_def
  by (intro kept_rules keeps_find_order keeps_credit_stripe keeps_close_order keeps_reload)+

lemma keeps_paid_views [rel_rules]:
  "steps keeps_wallet (find_paid_recharge acc no)" "steps keeps_wallet (list_paid_recharges acc limit offset)"
  unfolding find_paid_recharge_def list_paid_recharges_def Let_def case_prod_beta by (intro kept_rules)+

lemma grows_start_checkout [rel_rules]: "steps grows (start_checkout g order now method)"
  unfolding start_checkout_def by (intro rel_rules) simp_all

lemma keeps_place_order:
  assumes "ord_status order = OrderPending" "ord_account order = acc"
  shows "steps keeps_wallet (place_order g acc order now method)"
  unfolding place_order_def
proof (rule books.always)
  let ?m = "transaction (recharge_tx acc order now)"
  let ?R = "\<lambda>t i w'. advanced t w' \<and> unpaid_at i (wallet_of w')"
  have kept: "steps keeps_wallet ?m"
    by (rule books.committed) (use assms in \<open>auto intro!: rel_rules elim!: wp_mono [OF wp_recharge_tx]\<close>)
  have ok: "wp ?m (?R (wallet_of w)) (\<lambda>_ _. True) w" if "sound w" for w :: "db world"
  proof (rule wp_transactionI)
    show "wp (recharge_tx acc order now) (\<lambda>i w'. ?R (wallet_of w) i (next_stmt w')) (\<lambda>_ _. True) (next_stmt w)"
    proof (rule wp_mono [OF wp_recharge_tx])
      fix i w'
      assume w': "sound w' \<and> history (wallet_of (next_stmt w)) (wallet_of w')
        \<and> recharge_started acc (order\<lparr>ord_id := i\<rparr>) now (wallet_of (next_stmt w)) (wallet_of w')"
      then have "unpaid_at (ord_id (order\<lparr>ord_id := i\<rparr>)) (wallet_of w')"
        using assms by (intro recharge_started_unpaid [of acc "order\<lparr>ord_id := i\<rparr>" now "wallet_of w"]) simp_all
      with w' show "?R (wallet_of w) i (next_stmt w')" by simp
    qed (use \<open>sound w\<close> assms in simp_all)
  qed simp
  fix w :: "db world" assume "holds d_wallet wallet_ok w"
  then have w: "sound w" by simp
  have "wp ?m (?R (wallet_of w)) (\<lambda>_. advanced (wallet_of w)) w"
    using ok [OF w] books.afterwards [OF kept, of w] w by (auto simp: wp_def split: prod.splits sum.splits)
  then have "wp ?m (\<lambda>i. wp (start_checkout g (order\<lparr>ord_id := i\<rparr>) now method)
      (\<lambda>_. advanced (wallet_of w)) (\<lambda>_. advanced (wallet_of w))) (\<lambda>_. advanced (wallet_of w)) w"
    by (rule wp_mono) (auto intro!: wp_start_checkout)
  then show "wp (bnd ?m (\<lambda>i. start_checkout g (order\<lparr>ord_id := i\<rparr>) now method))
     (\<lambda>_ w'. holds d_wallet wallet_ok w' \<and> history (wallet_of w) (wallet_of w'))
     (\<lambda>_ w'. holds d_wallet wallet_ok w' \<and> history (wallet_of w) (wallet_of w')) w"
    by (simp add: wp_bnd)
qed (intro rel_rules, simp)

lemma keeps_recharge [rel_rules]: "steps keeps_wallet (create_recharge tab gw acc yuan raw)"
  unfolding create_recharge_def new_out_trade_no_def
  by (intro kept_rules books.kept.steps_env keeps_place_order) (simp_all add: new_order_def)

lemma keeps_sweep_rounds: "steps keeps_wallet (sweep_rounds k now)"
proof (induction k)
  case (Suc k)
  have "steps keeps_wallet (transaction (sweep_round_tx now))"
    by (rule books.committed) (auto intro!: rel_rules elim!: wp_mono [OF wp_sweep_round] intro: posted_history simp: round_done_def)
  with Suc show ?case by (simp add: books.kept.steps_bnd books.kept.steps_env)
qed (simp add: books.kept.steps_env)

lemma keeps_sweep_expired: "steps keeps_wallet (sweep_expired now)"
  using keeps_sweep_rounds by (simp add: sweep_expired_def steps_def del: sweep_rounds.simps)

lemma wp_sweep_orders:
  assumes "sound w"
  shows "wp (bnd (due_pending_orders now 100) (close_orders now)) (\<lambda>_ w'. sound w' \<and> history (wallet_of w) (wallet_of w')
     \<and> wallet_of w' = close_set now (take 100 (sort_key ord_id
         (filter (\<lambda>x. ord_status x = OrderPending \<and> ord_expire x \<le> now) (orders (wallet_of w))))) (wallet_of w))
     (\<lambda>_ _. True) w"
proof -
  let ?os = "take 100 (sort_key ord_id (filter (\<lambda>x. ord_status x = OrderPending \<and> ord_expire x \<le> now) (orders (wallet_of w))))"
  have "wp (close_orders now ?os) (\<lambda>_ w'. sound w' \<and> wallet_of w' = close_set now ?os (wallet_of (next_stmt w))
      \<and> seqs w' = seqs (next_stmt w) \<and> history (wallet_of (next_stmt w)) (wallet_of w')) (\<lambda>_ _. True) (next_stmt w)"
    using sort_filter_orders(2,4) [OF wallet_ok_parts(3) [OF assms], of "\<lambda>x. ord_status x = OrderPending \<and> ord_expire x \<le> now"] assms
    by (intro wp_close_orders) simp_all
  then show ?thesis by (auto simp: due_pending_orders_def wp_bnd wp_stmt elim!: wp_mono)
qed

lemma keeps_sweep [rel_rules]: "steps keeps_wallet sweep"
proof -
  have "steps keeps_wallet (sweep_expired_orders now)" for now
    unfolding sweep_expired_orders_def
    by (rule books.committed) (auto intro!: rel_rules elim!: wp_mono [OF wp_sweep_orders])
  then show ?thesis unfolding sweep_def by (intro kept_rules keeps_sweep_expired)
qed

end
