(* ===== verification/Wallet_Properties.thy ===== *)
theory Wallet_Properties
  imports Wallet_Orders
begin

text \<open>
  What the wallet guarantees. \<open>wallet_step\<close> is one request to the wallet, with whatever the clock,
  the random source, the database driver and the payment provider answer, or anything the rest of
  the system does; \<open>wallet_reachable\<close> are the states such steps lead to from an empty wallet.
\<close>

section \<open>Requests\<close>

inductive wallet_step :: "db world \<Rightarrow> db world \<Rightarrow> bool" where
  step_register: "steps (frame d_wallet) m \<Longrightarrow>
     wallet_step w (snd (transaction (bnd (m :: unit op) (\<lambda>_. grant_register_gift_tx acc)) w))"
| step_summary: "wallet_step w (snd (summary_of acc w))"
| step_checkin: "wallet_step w (snd (checkin acc w))"
| step_lottery: "wallet_step w (snd (lottery acc w))"
| step_tip: "wallet_step w (snd (tip s acc username vid coins w))"
| step_recharge: "wallet_step w (snd (create_recharge tab gw acc yuan raw w))"
| step_query: "wallet_step w (snd (query_order gw acc no w))"
| step_notify: "wallet_step w (snd (handle_stripe_notify gw payload sig w))"
| step_sweep: "wallet_step w (snd (sweep w))"
| step_other: "wallet_of w' = wallet_of w \<Longrightarrow> (\<forall>t. seqs w t \<le> seqs w' t) \<Longrightarrow> wallet_step w w'"

inductive wallet_steps :: "db world \<Rightarrow> db world \<Rightarrow> bool" where
  steps_none: "wallet_steps w w"
| steps_more: "wallet_steps w w' \<Longrightarrow> wallet_step w' w'' \<Longrightarrow> wallet_steps w w''"

definition wallet_reachable :: "db world \<Rightarrow> bool" where
  "wallet_reachable w \<longleftrightarrow> (\<exists>w0. wallet_of w0 = empty_wallet \<and> wallet_steps w0 w)"

inductive_cases wallet_stepsE: "wallet_steps w w'"

lemma keeps_register:
  assumes "steps (frame d_wallet) (m :: unit op)"
  shows "steps keeps_wallet (transaction (bnd m (\<lambda>_. grant_register_gift_tx acc)))"
proof (rule books.committed)
  have seqs: "steps grows m" using assms by (simp add: steps_def frame_def)
  then show "steps grows (bnd m (\<lambda>_. grant_register_gift_tx acc))"
    unfolding grant_register_gift_tx_def by (intro rel_rules) simp_all
  fix w :: "db world" assume "holds d_wallet wallet_ok w"
  then have w: "sound w" by simp
  have "wp m (\<lambda>_ w'. sound w' \<and> wallet_of w' = wallet_of w) (\<lambda>_ _. True) w"
  proof (rule wpI)
    fix x w' assume m: "m w = (Inr x, w')"
    have "wallet_of w' = wallet_of w" "\<forall>t. seqs w t \<le> seqs w' t"
      using stepsD [OF assms m] steps_seqsD [OF assms m] by simp_all
    then show "sound w' \<and> wallet_of w' = wallet_of w" using w wallet_ok_mono by simp
  qed simp
  then have "wp (bnd m (\<lambda>_. grant_register_gift_tx acc))
      (\<lambda>_ w'. sound w' \<and> history (wallet_of w) (wallet_of w')) (\<lambda>_ _. True) w"
  proof (rule wp_and_then)
    fix x w' assume w': "sound w' \<and> wallet_of w' = wallet_of w"
    then show "wp (grant_register_gift_tx acc) (\<lambda>_ u. sound u \<and> history (wallet_of w) (wallet_of u)) (\<lambda>_ _. True) w'"
      using wp_register_gift [of w' acc] by (elim conjE) simp
  qed
  then show "wp (bnd m (\<lambda>_. grant_register_gift_tx acc))
      (\<lambda>_ w'. holds d_wallet wallet_ok w' \<and> history (wallet_of w) (wallet_of w')) (\<lambda>_ _. True) w" by simp
qed

lemma keepsD: "steps keeps_wallet m \<Longrightarrow> keeps_wallet w (snd (m w))"
  by (simp add: steps_def)

lemma wallet_step_keeps: "wallet_step w w' \<Longrightarrow> keeps_wallet w w'"
proof (induction rule: wallet_step.induct)
  case (step_register m w acc)
  then show ?case by (intro keepsD keeps_register)
next
  case (step_other w' w)
  then show ?case by (auto simp: keeps_def intro: wallet_ok_mono)
qed (intro keepsD rel_rules)+

lemma wallet_steps_keeps: "wallet_steps w w' \<Longrightarrow> keeps_wallet w w'"
proof (induction rule: wallet_steps.induct)
  case (steps_none w)
  then show ?case by (simp add: keeps_def)
next
  case (steps_more w w' w'')
  then show ?case using wallet_step_keeps books.kept.trans by blast
qed

lemma reachable_sound: "wallet_reachable w \<Longrightarrow> sound w"
  unfolding wallet_reachable_def using wallet_steps_keeps empty_wallet_ok
  by (auto simp: keeps_def)

lemma reachable_step: "wallet_reachable w \<Longrightarrow> wallet_step w w' \<Longrightarrow> wallet_reachable w'"
  unfolding wallet_reachable_def using steps_more by blast

lemma reachable_quiet: "d_wallet d = empty_wallet \<Longrightarrow> wallet_reachable (quiet_world t d)"
  unfolding wallet_reachable_def
  by (intro exI [of _ "quiet_world t d"]) (simp add: quiet_world_def steps_none)

section \<open>An example world\<close>

text \<open>Account 1 has just registered; video 7 of account 2 is public.\<close>

definition demo_video :: video where
  "demo_video = \<lparr>vid_id = 7, vid_author = 2, vid_username = lit ''bob'', vid_title = lit ''cat'',
     vid_description = [], vid_tags = [lit ''pets''], vid_play_url = [], vid_cover_url = [], vid_likes = 0,
     vid_comments = 0, vid_popularity = 0, vid_audit = StatusApproved, vid_lifecycle = LifecyclePublished,
     vid_deleted_at = None, vid_created = 0\<rparr>"

definition demo_start :: "db world" where
  "demo_start = quiet_world (1700000000 * Second) (empty_db\<lparr>d_videos := [demo_video]\<rparr>)"

definition demo_gift :: "db world" where
  "demo_gift = snd (transaction (bnd (ret ()) (\<lambda>_. grant_register_gift_tx 1)) demo_start)"

definition demo_svc :: wallet_svc where
  "demo_svc = \<lparr>ws_publisher = False, ws_popularity = True, ws_notify = True, ws_interest = False, ws_recorder = False\<rparr>"

lemma demo_start_reachable: "wallet_reachable demo_start"
  unfolding demo_start_def by (rule reachable_quiet) (simp add: empty_db_def)

lemma demo_gift_reachable: "wallet_reachable demo_gift"
  unfolding demo_gift_def
  by (rule reachable_step [OF demo_start_reachable step_register]) (rule framed.steps_env)

text \<open>The definitions that running an operation on a concrete world unfolds.\<close>

lemmas run_tx = bnd_def ret_def throw_def lift_def result_of_def ignore_def read_now_def rand_read_def call_def
  query_def exec_def exec_count_def create_def transaction_def next_stmt_def Let_def quiet_world_def
  empty_db_def empty_wallet_def upd_wallet_def

lemmas run_ledger = grant_in_tx_def write_ledger_def create_ledger_def set_remaining_def spend_in_tx_def
  available_lots_def available_list_def push_lot_def push_ledger_def put_remaining_def

definition demo_checked :: "db world" where
  "demo_checked = snd (checkin 1 demo_start)"

definition demo_tipped :: "db world" where
  "demo_tipped = snd (tip demo_svc 1 (lit ''ann'') 7 10 demo_gift)"

lemma demo_checked_reachable: "wallet_reachable demo_checked"
  unfolding demo_checked_def by (rule reachable_step [OF demo_start_reachable step_checkin])

lemma demo_tipped_reachable: "wallet_reachable demo_tipped"
  unfolding demo_tipped_def by (rule reachable_step [OF demo_gift_reachable step_tip])

section \<open>The invariant\<close>

text \<open>C1 Whatever requests arrive, in whatever order, and wherever statements, commits, random
  readings or the provider fail, the wallet's books stay right: every lot holds exactly what its
  ledger rows add up to and never less than nothing, the ledger shows under every reference what
  the recorded daily actions, paid orders and tips say, keys are unique, an account has at most one
  pending order, the platform account holds the cuts of the recorded tips, and an account got the
  registration gift at most once.\<close>

theorem wallet_always_sound:
  assumes "wallet_reachable w"
  shows "wallet_ok (seqs w) (wallet_of w)"
  by (rule reachable_sound [OF assms])

theorem wallet_always_sound_witness:
  "wallet_ok (seqs demo_gift) (wallet_of demo_gift) \<and> length (lots (wallet_of demo_gift)) = 1"
proof
  show "length (lots (wallet_of demo_gift)) = 1" by code_simp
qed (rule wallet_always_sound [OF demo_gift_reachable])

text \<open>C2 The wallet's past is never rewritten: over any sequence of requests the ledger, the daily
  actions, the tips and the platform account only grow, and every order stays in the table with its
  number, account and amounts, moving only from pending to closed or paid and from closed to paid.\<close>

theorem wallet_history:
  assumes "wallet_reachable w" "wallet_steps w w'"
  shows "history (wallet_of w) (wallet_of w')"
  using wallet_steps_keeps [OF assms(2)] reachable_sound [OF assms(1)] by (simp add: keeps_def)

theorem wallet_history_witness:
  "history (wallet_of demo_start) (wallet_of demo_gift)"
  by (rule wallet_history [OF demo_start_reachable steps_more [OF steps_none]])
    (simp add: demo_gift_def step_register framed.steps_env)

text \<open>C3 An account's balance, the sum of its lots, is at all times the sum of its ledger rows and
  never negative.\<close>

theorem balance_is_ledger:
  assumes "wallet_reachable w"
  shows "balance acc (wallet_of w) = ledger_sum (\<lambda>e. led_account e = acc) (wallet_of w)
    \<and> 0 \<le> balance acc (wallet_of w)"
proof
  have ok: "books_ok (lot_seq w) (wallet_of w)"
    using reachable_sound [OF assms] by (rule wallet_ok_parts(1))
  then show "balance acc (wallet_of w) = ledger_sum (\<lambda>e. led_account e = acc) (wallet_of w)"
    by (rule balance_ledger)
  show "0 \<le> balance acc (wallet_of w)"
    unfolding balance_def using books_okD(2) [OF ok] by (intro sum_list_nonneg_int) auto
qed

theorem balance_is_ledger_witness:
  "balance 1 (wallet_of demo_gift) = 10 \<and> ledger_sum (\<lambda>e. led_account e = 1) (wallet_of demo_gift) = 10"
proof -
  have "balance 1 (wallet_of demo_gift) = 10" by code_simp
  then show ?thesis using balance_is_ledger [OF demo_gift_reachable, of 1] by simp
qed

section \<open>Facts and their rows\<close>

lemma sum_one_key:
  fixes f :: "'a \<Rightarrow> int"
  assumes "distinct (map key xs)" "x \<in> set xs" "\<And>y. y \<in> set xs \<Longrightarrow> key y \<noteq> key x \<Longrightarrow> f y = 0"
  shows "(\<Sum>y\<leftarrow>xs. f y) = f x"
proof -
  have "map f xs = map (\<lambda>y. if key y = key x then f y else 0) xs"
    using assms(3) by simp
  then show ?thesis using sum_list_distinct_unique [OF assms(1,2)] by metis
qed

lemma sum_all_zero: "(\<And>y. y \<in> set xs \<Longrightarrow> f y = 0) \<Longrightarrow> (\<Sum>y\<leftarrow>xs. f y) = (0 :: int)"
  by (induction xs) auto

lemma owed_kinds:
  assumes "k = (acc, b, rt, rid)"
  shows "b \<notin> {LedgerGrantCheckin, LedgerGrantLottery} \<Longrightarrow> (\<Sum>d\<leftarrow>dailies t. daily_due k d) = 0"
    and "b \<notin> {LedgerGrantRecharge, LedgerGrantRechargeBonus} \<Longrightarrow> (\<Sum>x\<leftarrow>orders t. order_due k x) = 0"
    and "b \<notin> {LedgerConsumeTip, LedgerGrantTip} \<Longrightarrow> (\<Sum>r\<leftarrow>tips t. tip_due k r) = 0"
proof -
  show "(\<Sum>d\<leftarrow>dailies t. daily_due k d) = 0" if "b \<notin> {LedgerGrantCheckin, LedgerGrantLottery}"
  proof (rule sum_all_zero)
    fix d assume "d \<in> set (dailies t)"
    show "daily_due k d = 0"
      using that assms by (cases "da_action d") (auto simp: daily_due_def daily_key_def)
  qed
  show "(\<Sum>x\<leftarrow>orders t. order_due k x) = 0" if "b \<notin> {LedgerGrantRecharge, LedgerGrantRechargeBonus}"
    using that assms by (intro sum_all_zero) (auto simp: order_due_def order_key_def)
  show "(\<Sum>r\<leftarrow>tips t. tip_due k r) = 0" if "b \<notin> {LedgerConsumeTip, LedgerGrantTip}"
    using that assms by (intro sum_all_zero) (auto simp: tip_due_def)
qed

lemma owed_order:
  assumes "unique_ok q t" "x \<in> set (orders t)" "b \<in> {LedgerGrantRecharge, LedgerGrantRechargeBonus}"
  shows "owed t (order_key x b) = order_due (order_key x b) x"
proof -
  have "(\<Sum>y\<leftarrow>orders t. order_due (order_key x b) y) = order_due (order_key x b) x"
    by (rule sum_one_key [where key = ord_no])
      (use assms in \<open>auto simp: unique_ok_def order_due_def order_key_def\<close>)
  then show ?thesis
    using assms(3) owed_kinds(1,3) [OF order_key_def [of x b], of t] by (auto simp: owed_def)
qed

lemma owed_daily:
  assumes "unique_ok q t" "a \<in> set (dailies t)"
  shows "owed t (daily_key a) = da_prize a"
proof -
  have "(\<Sum>d\<leftarrow>dailies t. daily_due (daily_key a) d) = daily_due (daily_key a) a"
    by (rule sum_one_key [where key = daily_key]) (use assms in \<open>auto simp: unique_ok_def daily_due_def\<close>)
  moreover have "daily_biz (da_action a) \<in> {LedgerGrantCheckin, LedgerGrantLottery}"
    by (cases "da_action a") simp_all
  ultimately show ?thesis
    using owed_kinds(2,3) [OF daily_key_def [of a], of t] by (auto simp: owed_def daily_due_def)
qed

lemma owed_tip:
  assumes "unique_ok q t" "r \<in> set (tips t)"
  shows "owed t (paid_rows r) = - tip_coins r" "owed t (earned_rows r) = max 0 (tip_received r)"
proof -
  have "(\<Sum>y\<leftarrow>tips t. tip_due k y) = tip_due k r" if "k = paid_rows r \<or> k = earned_rows r" for k
    by (rule sum_one_key [where key = tip_id])
      (use assms that in \<open>auto simp: unique_ok_def tip_due_def paid_rows_def earned_rows_def tip_ref_def\<close>)
  then have "(\<Sum>y\<leftarrow>tips t. tip_due (paid_rows r) y) = - tip_coins r"
    "(\<Sum>y\<leftarrow>tips t. tip_due (earned_rows r) y) = max 0 (tip_received r)"
    by (simp_all add: tip_due_def [of _ r] paid_rows_def earned_rows_def)
  then show "owed t (paid_rows r) = - tip_coins r" "owed t (earned_rows r) = max 0 (tip_received r)"
    using owed_kinds(1,2) [OF paid_rows_def [of r], of t] owed_kinds(1,2) [OF earned_rows_def [of r], of t]
    by (simp_all add: owed_def)
qed

text \<open>However often the registration hook runs for an account, it is granted the registration
  gift at most once.\<close>

lemma register_gift_once:
  assumes "wallet_reachable w"
  shows "ledger_sum (\<lambda>e. led_account e = acc \<and> led_biz e = LedgerGrantRegister) (wallet_of w)
    \<in> {0, RegisterGiftCoins}"
proof -
  have "gift_ok (wallet_of w)" using reachable_sound [OF assms] by (rule wallet_ok_parts(5))
  then have "gift_rows acc (wallet_of w) = []
      \<or> (\<Sum>e\<leftarrow>gift_rows acc (wallet_of w). led_amount e) = RegisterGiftCoins" by (simp add: gift_ok_def)
  moreover have "ledger_sum (\<lambda>e. led_account e = acc \<and> led_biz e = LedgerGrantRegister) (wallet_of w)
      = (\<Sum>e\<leftarrow>gift_rows acc (wallet_of w). led_amount e)"
    by (simp add: ledger_sum_def gift_rows_def sum_list_filter_if)
  ultimately show ?thesis by auto
qed

theorem register_gift_once_witness:
  "ledger_sum (\<lambda>e. led_account e = 1 \<and> led_biz e = LedgerGrantRegister) (wallet_of demo_gift) \<in> {0, RegisterGiftCoins}"
  by (rule register_gift_once [OF demo_gift_reachable])

text \<open>Every recorded tip is settled: the ledger charges the payer its coins, credits the author
  their share, the platform account holds the cuts of all tips, and share and cut together are the
  coins of the tip.\<close>

lemma tips_settled:
  assumes "wallet_reachable w" "r \<in> set (tips (wallet_of w))" "tip_coins r * 70 < 2 ^ 63"
  shows "ledger_sum (rows_at (paid_rows r)) (wallet_of w) = - tip_coins r
    \<and> ledger_sum (rows_at (earned_rows r)) (wallet_of w) = tip_coins r * 70 div 100
    \<and> tip_received r + tip_cut r = tip_coins r
    \<and> (\<Sum>p\<leftarrow>platform (wallet_of w). pe_amount p) = (\<Sum>r\<leftarrow>tips (wallet_of w). max 0 (tip_cut r))"
proof -
  have ok: "sound w" by (rule reachable_sound [OF assms(1)])
  note u = wallet_ok_parts(3) [OF ok]
  have split: "split_tip (tip_coins r) = (tip_received r, tip_cut r)" and min: "TipMinCoins \<le> tip_coins r"
    using u assms(2) by (auto simp: unique_ok_def)
  then have share: "tip_received r = tip_coins r * 70 div 100" "tip_cut r = tip_coins r - tip_coins r * 70 div 100"
    using split_tip_exact [of "tip_coins r"] assms(3) by (auto simp: TipMinCoins_def)
  have "0 \<le> tip_received r" using min by (simp add: share(1) TipMinCoins_def)
  moreover have "accounted (paid_rows r)" "accounted (earned_rows r)"
    by (simp_all add: accounted_def paid_rows_def earned_rows_def)
  ultimately show ?thesis
    using vouched_at [OF ok, of "paid_rows r"] vouched_at [OF ok, of "earned_rows r"] owed_tip [OF u assms(2)]
      wallet_ok_parts(4) [OF ok] by (simp add: share platform_ok_def)
qed

section \<open>Tips\<close>

text \<open>What a tip found and did.\<close>

definition tip_done :: "nat \<Rightarrow> gostr \<Rightarrow> nat \<Rightarrow> int \<Rightarrow> db world \<Rightarrow> tip_record \<Rightarrow> db world \<Rightarrow> bool" where
  "tip_done acc username vid coins w r w' \<longleftrightarrow> TipMinCoins \<le> coins
     \<and> (\<exists>v. find (\<lambda>v. vid_id v = vid) (d_videos (tabs w)) = Some v \<and> IsPubliclyListed v \<and> vid_author v \<noteq> acc
         \<and> tipped acc username (vid_author v) vid coins (clock w (ticks w)) r (wallet_of w) (wallet_of w'))"

lemma wp_after_tip:
  assumes "sound u"
  shows "wp (bnd (after_tip s acc vid coins now ts) (\<lambda>_. ret rec))
    (\<lambda>r w'. r = rec \<and> sound w' \<and> wallet_of w' = wallet_of u) (\<lambda>_ _. True) u"
proof -
  have "steps (frame d_wallet) (after_tip s acc vid coins now ts)"
    unfolding after_tip_def by (intro rel_rules) simp
  then have "wp (after_tip s acc vid coins now ts) (\<lambda>_ w'. sound w' \<and> wallet_of w' = wallet_of u) (\<lambda>_ _. True) u"
    using stepsD [of d_wallet "after_tip s acc vid coins now ts" u]
      steps_seqsD [of d_wallet "after_tip s acc vid coins now ts" u] assms
    by (intro wpI) (auto intro!: wallet_ok_mono [of "seqs u"])
  then show ?thesis by (simp add: wp_bnd wp_basic)
qed

lemma wp_tip:
  assumes ok: "sound w"
  shows "wp (tip s acc username vid coins) (\<lambda>r w'. sound w' \<and> tip_done acc username vid coins w r w') (\<lambda>_ _. True) w"
proof -
  let ?v = "find (\<lambda>v. vid_id v = vid) (d_videos (tabs w))"
  have tx: "wp (transaction (tip_tx s acc username vid coins (vid_author v) now))
      (\<lambda>r u. sound u \<and> tipped acc username (vid_author v) vid coins now r (wallet_of w) (wallet_of u)) (\<lambda>_ _. True) u0"
    if "wallet_of u0 = wallet_of w" "seqs u0 = seqs w" "TipMinCoins \<le> coins" "vid_author v \<noteq> acc" for u0 v now
    using wp_tip_tx [of "next_stmt u0" coins acc "vid_author v" s username vid now] that ok
    by (intro wp_transactionI) simp_all
  show ?thesis
  proof (cases ?v)
    case None
    then show ?thesis by (simp add: tip_def video_by_id_def wp_rules)
  next
    case (Some v)
    show ?thesis
      using Some
      by (auto simp: tip_def video_by_id_def wp_if wp_basic wp_bnd [of "query f" for f] wp_stmt wp_option
          wp_bnd [of read_now] tip_done_def
          intro!: wp_and_then [OF tx] wp_mono [OF wp_after_tip])
  qed
qed

lemma ledger_balance_change:
  assumes "posted P s t t'" "\<And>e. P e \<Longrightarrow> led_account e = a"
  shows "ledger_sum (\<lambda>e. led_account e = acc) t' = ledger_sum (\<lambda>e. led_account e = acc) t + (if acc = a then s else 0)"
  using assms(2) by (intro posted_sum [OF assms(1)]) auto

lemma tipped_balances:
  assumes "tipped acc username author vid coins now r t t'"
  shows "ledger_sum (\<lambda>e. led_account e = a) t' = ledger_sum (\<lambda>e. led_account e = a) t
     - (if a = acc then expired_due acc now t + coins else 0) + (if a = author then max 0 (tip_received r) else 0)"
    and "(\<Sum>p\<leftarrow>platform t'. pe_amount p) = (\<Sum>p\<leftarrow>platform t. pe_amount p) + max 0 (tip_cut r)"
    and "tips t' = tips t @ [r]"
proof -
  obtain t1 t3 t4 where p1: "posted (expiry_rows (\<lambda>a. a = acc)) (- expired_due acc now t) t t1"
    and p3: "posted (rows_at (paid_rows r)) (- tip_coins r) (push_tip r t1) t3"
    and p4: "posted (rows_at (earned_rows r)) (max 0 (tip_received r)) t3 t4" and cut: "take_cut r t4 t'"
    and r: "tip_from r = acc" "tip_to r = author" "tip_coins r = coins"
    using assms by (auto simp: tipped_def tip_rows_def)
  have "ledger_sum (\<lambda>e. led_account e = a) t1 = ledger_sum (\<lambda>e. led_account e = a) t + (if a = acc then - expired_due acc now t else 0)"
    by (rule ledger_balance_change [OF p1]) (simp add: expiry_rows_def)
  moreover have "ledger_sum (\<lambda>e. led_account e = a) t3 = ledger_sum (\<lambda>e. led_account e = a) (push_tip r t1) + (if a = acc then - coins else 0)"
    using r ledger_balance_change [OF p3, of acc a] by (simp add: rows_at_def paid_rows_def)
  moreover have "ledger_sum (\<lambda>e. led_account e = a) t4 = ledger_sum (\<lambda>e. led_account e = a) t3 + (if a = author then max 0 (tip_received r) else 0)"
    using r ledger_balance_change [OF p4, of author a] by (simp add: rows_at_def earned_rows_def)
  moreover have "ledger_sum P (push_tip r t1) = ledger_sum P t1" for P by (simp add: ledger_sum_def)
  ultimately show "ledger_sum (\<lambda>e. led_account e = a) t' = ledger_sum (\<lambda>e. led_account e = a) t
     - (if a = acc then expired_due acc now t + coins else 0) + (if a = author then max 0 (tip_received r) else 0)"
    using take_cut_rest [OF cut] by simp
  show "(\<Sum>p\<leftarrow>platform t'. pe_amount p) = (\<Sum>p\<leftarrow>platform t. pe_amount p) + max 0 (tip_cut r)"
    using take_cut_rest [OF cut] posted_rest [OF p1] posted_rest [OF p3] posted_rest [OF p4] by simp
  show "tips t' = tips t @ [r]"
    using cut posted_rest [OF p1] posted_rest [OF p3] posted_rest [OF p4] by (auto simp: take_cut_def split: if_splits)
qed


definition demo_tip :: tip_record where
  "demo_tip = \<lparr>tip_id = 1, tip_from = 1, tip_username = lit ''ann'', tip_to = 2, tip_video = 7,
     tip_coins = 10, tip_received = 7, tip_cut = 3, tip_created = 1700000000 * Second\<rparr>"

lemma demo_tip_run: "tip demo_svc 1 (lit ''ann'') 7 10 demo_gift = (Inr demo_tip, demo_tipped)"
proof -
  have "fst (tip demo_svc 1 (lit ''ann'') 7 10 demo_gift) = Inr demo_tip" unfolding demo_tip_def by code_simp
  then show ?thesis by (simp add: prod_eq_iff demo_tipped_def)
qed


theorem tips_settled_witness:
  "\<exists>r \<in> set (tips (wallet_of demo_tipped)). ledger_sum (rows_at (paid_rows r)) (wallet_of demo_tipped) = - 10
     \<and> ledger_sum (rows_at (earned_rows r)) (wallet_of demo_tipped) = 7 \<and> tip_received r + tip_cut r = 10"
proof -
  have "demo_tip \<in> set (tips (wallet_of demo_tipped))"
    using wp_ok [OF wp_tip [OF reachable_sound [OF demo_gift_reachable]] demo_tip_run]
    by (auto simp: tip_done_def dest: tipped_balances(3))
  with tips_settled [OF demo_tipped_reachable this] show ?thesis
    by (intro bexI [of _ demo_tip]) (simp_all add: demo_tip_def)
qed

end
