(* ===== verification/Wallet_Spending.thy ===== *)
theory Wallet_Spending
  imports Wallet_Properties
begin

text \<open>
  Spending, drawing and reporting: which lots a spending takes, when it succeeds, what failures
  leave behind, the odds of the two draws, and what the summary says.
\<close>

section \<open>Spending\<close>

text \<open>C11 Spending takes the coins that expire soonest first: of the account's available lots in
  expiry order, one is touched only when every earlier one has been emptied; no other lot changes,
  and the balance falls by exactly the amount.\<close>

theorem spend_soonest_first:
  assumes "wallet_reachable w" "spend_in_tx acc amount biz rt rid w = (Inr (), w')"
  shows "(let ls = available_list acc (clock w (ticks w)) (wallet_of w) in
      sorted (map lot_order ls) \<and> drained ls (wallet_of w') \<and> others_kept ls (wallet_of w) (wallet_of w'))
    \<and> balance acc (wallet_of w') = balance acc (wallet_of w) - amount
    \<and> (\<forall>a. a \<noteq> acc \<longrightarrow> balance a (wallet_of w') = balance a (wallet_of w))"
proof -
  have good: "good w" by (rule sound_good [OF reachable_sound [OF assms(1)]])
  let ?ls = "available_list acc (clock w (ticks w)) (wallet_of w)"
  have w': "good w'" "spent (rows_of acc biz rt rid) amount ?ls (wallet_of w) (wallet_of w')"
    using wp_ok [OF wp_spend_in_tx [OF good] assms(2)] by simp_all
  then have "posted (rows_of acc biz rt rid) (- amount) (wallet_of w) (wallet_of w')" by (simp add: spent_def)
  then have "ledger_sum (\<lambda>e. led_account e = a) (wallet_of w') = ledger_sum (\<lambda>e. led_account e = a) (wallet_of w)
      + (if a = acc then - amount else 0)" for a
    by (rule ledger_balance_change) (simp add: rows_of_def)
  then have "balance a (wallet_of w') = balance a (wallet_of w) + (if a = acc then - amount else 0)" for a
    using balance_ledger [OF books_good [OF good]] balance_ledger [OF books_good [OF w'(1)]] by simp
  then show ?thesis using w'(2) by (simp add: spent_def available_list_def)
qed

theorem spend_soonest_first_witness:
  "\<exists>w'. spend_in_tx 1 4 LedgerConsumeTip [] [] demo_gift = (Inr (), w') \<and> balance 1 (wallet_of w') = 6"
proof -
  let ?run = "spend_in_tx 1 4 LedgerConsumeTip [] [] demo_gift"
  have "fst ?run = Inr ()" by code_simp
  then have run: "?run = (Inr (), snd ?run)" by (simp add: prod_eq_iff)
  have "balance 1 (wallet_of demo_gift) = 10" by code_simp
  then show ?thesis using spend_soonest_first [OF demo_gift_reachable run] run by auto
qed

definition reliable :: "'s world \<Rightarrow> bool" where
  "reliable w \<longleftrightarrow> (\<forall>n. \<not> faults w n)"

lemma reliable_simps [simp]: "reliable w \<Longrightarrow> \<not> faults w n"
  "reliable (next_stmt w) = reliable w" "reliable (w\<lparr>tabs := t\<rparr>) = reliable w"
  "reliable (w\<lparr>seqs := q\<rparr>) = reliable w" "reliable (w\<lparr>ticks := k\<rparr>) = reliable w"
  "reliable (w\<lparr>draws := k\<rparr>) = reliable w" "reliable (w\<lparr>clock := c\<rparr>) = reliable w"
  "reliable (w\<lparr>rands := r\<rparr>) = reliable w" "reliable (quiet_world now d)"
  by (simp_all add: reliable_def quiet_world_def)

lemma wp_reliable_ledger:
  assumes "reliable w"
  shows "wp (set_remaining i v) (\<lambda>_. reliable) (\<lambda>_ _. False) w"
    "wp (write_ledger acc l a biz rt rid) (\<lambda>_. reliable) (\<lambda>_ _. False) w"
    "wp (grant_in_tx acc src a biz rt rid) (\<lambda>_. reliable) (\<lambda>_ _. False) w"
  using assms by (simp_all add: set_remaining_def write_ledger_def create_ledger_def grant_in_tx_def wp_rules Let_def)

lemma wp_reliable_spend_loop:
  "reliable w \<Longrightarrow> wp (spend_loop acc biz rt rid left ls) (\<lambda>_. reliable) (\<lambda>_ _. False) w"
proof (induction ls arbitrary: left w)
  case (Cons l ls)
  show ?case
    using Cons.prems
    by (auto simp: wp_bnd wp_basic Let_def
        intro!: wp_mono [OF wp_reliable_ledger(1)] wp_mono [OF wp_reliable_ledger(2)] Cons.IH)
qed (simp add: wp_basic)

lemma total_remaining_exact:
  assumes "\<forall>l \<in> set ls. 0 \<le> lot_remaining l" "(\<Sum>l\<leftarrow>ls. lot_remaining l) < 2 ^ 63"
  shows "total_remaining ls = (\<Sum>l\<leftarrow>ls. lot_remaining l)"
proof -
  have "fold (\<lambda>l total. wrap64 (total + lot_remaining l)) ls t = t + (\<Sum>l\<leftarrow>ls. lot_remaining l)"
    if "0 \<le> t" "t + (\<Sum>l\<leftarrow>ls. lot_remaining l) < 2 ^ 63" for t
    using that assms(1)
  proof (induction ls arbitrary: t)
    case (Cons l ls)
    have "0 \<le> (\<Sum>l\<leftarrow>ls. lot_remaining l)" using Cons.prems(3) by (intro sum_list_nonneg_int) simp
    then have "wrap64 (t + lot_remaining l) = t + lot_remaining l"
      using Cons.prems by (intro wrap64_id i64I) simp_all
    then show ?case using Cons.IH [of "t + lot_remaining l"] Cons.prems by simp
  qed simp
  from this [of 0] assms(2) show ?thesis by (simp add: total_remaining_def)
qed



section \<open>Draws\<close>

text \<open>The check-in pays 1 to 20 coins: of the thousand buckets 95 each give 1 to 10 and 5 each
  give 11 to 20.\<close>

lemma checkin_prize_odds:
  "card {n. 0 \<le> n \<and> n < CheckinBucketMod \<and> draw_checkin_prize n = p} =
     (if 1 \<le> p \<and> p \<le> 10 then 95 else if 11 \<le> p \<and> p \<le> 20 then 5 else 0)"
proof -
  consider "1 \<le> p" "p \<le> 10" | "11 \<le> p" "p \<le> 20" | "p < 1 \<or> 20 < p" by linarith
  then show ?thesis
  proof cases
    case 1
    then show ?thesis by (simp add: draw_checkin_prize_low card_int_interval)
  next
    case 2
    then show ?thesis by (simp add: draw_checkin_prize_high card_int_interval)
  next
    case 3
    have "draw_checkin_prize n \<noteq> p" for n using 3 draw_checkin_prize_range [of n] by auto
    with 3 show ?thesis by auto
  qed
qed

text \<open>The lottery's six prizes come up in 50, 25, 12, 8, 4 and 1 of its hundred buckets, and
  each bucket pays the coins of the prize it shows.\<close>

lemma lottery_odds:
  "map (\<lambda>i. card {n. 0 \<le> n \<and> n < LotteryBucketMod \<and> snd (draw_lottery n) = i}) [0, 1, 2, 3, 4, 5]
     = [50, 25, 12, 8, 4, 1]
   \<and> (\<forall>n. 0 \<le> snd (draw_lottery n) \<and> snd (draw_lottery n) < 6
        \<and> fst (draw_lottery n) = LotteryPrizes ! nat (snd (draw_lottery n)))"
proof
  have bucket: "snd (draw_lottery n) = (if n < 50 then 0 else if n < 75 then 1 else if n < 87 then 2
      else if n < 95 then 3 else if n < 99 then 4 else 5)" if "0 \<le> n" "n < 100" for n
    using that by (simp add: draw_lottery_def LotteryBucketMod_def mod_range_id)
  have "{n. 0 \<le> n \<and> n < LotteryBucketMod \<and> snd (draw_lottery n) = 0} = {n. 0 \<le> n \<and> n < 50}"
    "{n. 0 \<le> n \<and> n < LotteryBucketMod \<and> snd (draw_lottery n) = 1} = {n. 50 \<le> n \<and> n < 75}"
    "{n. 0 \<le> n \<and> n < LotteryBucketMod \<and> snd (draw_lottery n) = 2} = {n. 75 \<le> n \<and> n < 87}"
    "{n. 0 \<le> n \<and> n < LotteryBucketMod \<and> snd (draw_lottery n) = 3} = {n. 87 \<le> n \<and> n < 95}"
    "{n. 0 \<le> n \<and> n < LotteryBucketMod \<and> snd (draw_lottery n) = 4} = {n. 95 \<le> n \<and> n < 99}"
    "{n. 0 \<le> n \<and> n < LotteryBucketMod \<and> snd (draw_lottery n) = 5} = {n. 99 \<le> n \<and> n < 100}"
    by (auto simp: bucket LotteryBucketMod_def split: if_splits)
  then show "map (\<lambda>i. card {n. 0 \<le> n \<and> n < LotteryBucketMod \<and> snd (draw_lottery n) = i}) [0, 1, 2, 3, 4, 5]
     = [50, 25, 12, 8, 4, 1]"
    by (simp add: card_int_interval)
  show "\<forall>n. 0 \<le> snd (draw_lottery n) \<and> snd (draw_lottery n) < 6
        \<and> fst (draw_lottery n) = LotteryPrizes ! nat (snd (draw_lottery n))"
    by (simp add: draw_lottery_def Let_def)
qed

lemma wp_checkin:
  assumes "sound w"
  shows "wp (checkin acc)
    (\<lambda>p w'. sound w' \<and> 1 \<le> p \<and> p \<le> 20 \<and> (\<exists>a. claimed acc ActionCheckin p (clock w (ticks w)) (wallet_of w) a
       \<and> dailies (wallet_of w') = dailies (wallet_of w) @ [a]
       \<and> balance acc (wallet_of w') = balance acc (wallet_of w) + p)) (\<lambda>_ _. True) w"
proof -
  have tx: "wp (transaction (checkin_tx acc (draw_checkin_prize n) now))
      (\<lambda>_ u. sound u \<and> (\<exists>a. claimed acc ActionCheckin (draw_checkin_prize n) now (wallet_of w) a
        \<and> posted (rows_at (daily_key a)) (draw_checkin_prize n) (push_daily a (wallet_of w)) (wallet_of u))) (\<lambda>_ _. True) v"
    if "wallet_of v = wallet_of w" "seqs v = seqs w" for v n now
    using wp_checkin_tx [of "next_stmt v" "draw_checkin_prize n" acc now] that assms draw_checkin_prize_range [of n]
    by (intro wp_transactionI) simp_all
  have bal: "balance acc (wallet_of u) = balance acc (wallet_of w) + p" "dailies (wallet_of u) = dailies (wallet_of w) @ [a]"
    if "sound u" "claimed acc ActionCheckin p now (wallet_of w) a"
      "posted (rows_at (daily_key a)) p (push_daily a (wallet_of w)) (wallet_of u)" for u p now a
  proof -
    have "ledger_sum (\<lambda>e. led_account e = acc) (wallet_of u) = ledger_sum (\<lambda>e. led_account e = acc) (push_daily a (wallet_of w)) + p"
      using ledger_balance_change [OF that(3), of acc acc] that(2)
      by (simp add: rows_at_def daily_key_def claimed_def)
    moreover have "ledger_sum P (push_daily a t) = ledger_sum P t" for P t by (simp add: ledger_sum_def)
    ultimately show "balance acc (wallet_of u) = balance acc (wallet_of w) + p"
      using balance_ledger [OF wallet_ok_parts(1) [OF assms]] balance_ledger [OF wallet_ok_parts(1) [OF that(1)]] by simp
    show "dailies (wallet_of u) = dailies (wallet_of w) @ [a]" using posted_rest [OF that(3)] by simp
  qed
  show ?thesis
    using draw_checkin_prize_range
    by (auto simp: checkin_def random_checkin_bucket_def random_bucket_def wp_bnd wp_basic wp_rand_read Let_def bal
        intro!: wp_mono [OF tx] split: option.split)
qed

text \<open>C13 After a successful check-in, which pays between 1 and 20 coins into the balance, no later
  check-in of the account succeeds at an instant of the same Beijing date, whatever happens in
  between.\<close>

theorem checkin_once_a_day:
  assumes "wallet_reachable w" "checkin acc w = (Inr p, w1)" "wallet_steps w1 w2" "checkin acc w2 = (Inr p2, w3)"
  shows "1 \<le> p \<and> p \<le> 20 \<and> balance acc (wallet_of w1) = balance acc (wallet_of w) + p
    \<and> biz_date (clock w2 (ticks w2)) \<noteq> biz_date (clock w (ticks w))"
proof -
  have ok: "sound w" by (rule reachable_sound [OF assms(1)])
  obtain a where first: "sound w1" "1 \<le> p" "p \<le> 20" "claimed acc ActionCheckin p (clock w (ticks w)) (wallet_of w) a"
    "dailies (wallet_of w1) = dailies (wallet_of w) @ [a]" "balance acc (wallet_of w1) = balance acc (wallet_of w) + p"
    using wp_ok [OF wp_checkin [OF ok] assms(2)] by auto
  have w2: "sound w2" "history (wallet_of w1) (wallet_of w2)"
    using wallet_steps_keeps [OF assms(3)] first(1) by (simp_all add: keeps_def)
  obtain b where "claimed acc ActionCheckin p2 (clock w2 (ticks w2)) (wallet_of w2) b"
    using wp_ok [OF wp_checkin [OF w2(1)] assms(4)] by auto
  moreover have "a \<in> set (dailies (wallet_of w2))"
    using w2(2) first(5) by (auto simp: history_def prefix_of_def)
  ultimately have "biz_date (clock w2 (ticks w2)) \<noteq> biz_date (clock w (ticks w))"
    using first(4) by (auto simp: claimed_def daily_key_eq)
  with first show ?thesis by simp
qed

lemma checkin_succeeds:
  assumes "reliable w" "rands w (draws w) = Some n"
    and free: "\<forall>a \<in> set (dailies (wallet_of w)). da_account a = acc \<longrightarrow> da_action a = ActionCheckin
      \<longrightarrow> da_date a \<noteq> biz_date (clock w (ticks w))"
  shows "wp (checkin acc) (\<lambda>p w'. p = draw_checkin_prize (int n mod 2 ^ 64 mod CheckinBucketMod) \<and> reliable w') (\<lambda>_ _. False) w"
proof -
  have grant: "wp (grant_in_tx acc SourceCheckin p b rt rid) Q (\<lambda>_ _. False) v"
    if "reliable v" "\<And>x v'. reliable v' \<Longrightarrow> Q x v'" for v Q p b rt rid
    by (rule wp_mono [OF wp_reliable_ledger(3) [OF that(1)]]) (simp_all add: that(2))
  show ?thesis
    using assms(1,2) free
    by (auto simp: checkin_def random_checkin_bucket_def random_bucket_def wp_bnd wp_basic wp_rand_read Let_def
        wp_transaction checkin_tx_def claim_daily_def wp_result_of wp_create
        intro!: grant)
qed

text \<open>A check-in does not fail for reasons of its own: when the database and the random source
  answer and the account has no check-in recorded for the current Beijing date, it succeeds with
  the prize of the bucket drawn.\<close>

lemma checkin_available:
  assumes "reliable w" "rands w (draws w) = Some n"
    "\<forall>a \<in> set (dailies (wallet_of w)). da_account a = acc \<and> da_action a = ActionCheckin
      \<longrightarrow> da_date a \<noteq> biz_date (clock w (ticks w))"
  shows "fst (checkin acc w) = Inr (draw_checkin_prize (int n mod 2 ^ 64 mod CheckinBucketMod))"
  using checkin_succeeds [of w n acc] assms by (auto simp: wp_def split: prod.splits sum.splits)

theorem checkin_available_witness: "fst (checkin 1 demo_start) = Inr 1"
proof -
  have "reliable demo_start" "rands demo_start (draws demo_start) = Some 0" "dailies (wallet_of demo_start) = []"
    by (simp_all add: reliable_def demo_start_def quiet_world_def empty_db_def empty_wallet_def)
  moreover have "draw_checkin_prize 0 = 1" by code_simp
  ultimately show ?thesis using checkin_available [of demo_start 0 1] by simp
qed

text \<open>Two days of the example world, with one check-in on each.\<close>

lemma demo_start_sel:
  "reliable demo_start" "rands demo_start (draws demo_start) = Some 0" "dailies (wallet_of demo_start) = []"
  "clock demo_start (ticks demo_start) = 1700000000 * Second"
  by (simp_all add: demo_start_def quiet_world_def reliable_def empty_db_def empty_wallet_def)

lemma demo_prize: "draw_checkin_prize 0 = 1"
  by code_simp

lemma demo_checked_run: "checkin 1 demo_start = (Inr 1, demo_checked)" "reliable demo_checked"
  using checkin_succeeds [OF demo_start_sel(1,2), of 1] demo_start_sel(3) demo_prize
  by (auto simp: wp_def demo_checked_def split: prod.splits sum.splits)

lemma demo_checked_daily:
  obtains a where "claimed 1 ActionCheckin 1 (1700000000 * Second) (wallet_of demo_start) a" "dailies (wallet_of demo_checked) = [a]"
  using wp_ok [OF wp_checkin [OF reachable_sound [OF demo_start_reachable]] demo_checked_run(1)] demo_start_sel(3,4) by auto

theorem checkin_once_a_day_witness:
  "\<exists>w1 w3. checkin 1 demo_start = (Inr 1, w1)
     \<and> checkin 1 (w1\<lparr>clock := (\<lambda>_. 1700086400 * Second), rands := (\<lambda>_. Some 0)\<rparr>) = (Inr 1, w3)
     \<and> biz_date (1700086400 * Second) \<noteq> biz_date (1700000000 * Second)"
proof -
  let ?w2 = "demo_checked\<lparr>clock := (\<lambda>_. 1700086400 * Second), rands := (\<lambda>_. Some 0)\<rparr>"
  have dates: "biz_date (1700086400 * Second) \<noteq> biz_date (1700000000 * Second)" by code_simp
  obtain a where "claimed 1 ActionCheckin 1 (1700000000 * Second) (wallet_of demo_start) a" "dailies (wallet_of demo_checked) = [a]"
    by (rule demo_checked_daily)
  then have "\<forall>a \<in> set (dailies (wallet_of demo_checked)). da_date a \<noteq> biz_date (1700086400 * Second)"
    using dates by (simp add: claimed_def)
  then obtain w3 where run2: "checkin 1 ?w2 = (Inr 1, w3)"
    using checkin_succeeds [of ?w2 0 1] demo_checked_run(2) demo_prize by (auto simp: wp_def split: prod.splits sum.splits)
  have "wallet_steps demo_checked ?w2" by (rule steps_more [OF steps_none step_other]) simp_all
  from checkin_once_a_day [OF demo_start_reachable demo_checked_run(1) this run2] demo_start_sel(4) demo_checked_run(1) run2
  show ?thesis by auto
qed

text \<open>The check-in and the lottery pay once per account and Beijing date: two recorded actions of
  the same account, kind and date are the same row, and the coins the ledger shows for them are
  exactly the recorded prize.\<close>

lemma daily_prize_once:
  assumes "wallet_reachable w" "a \<in> set (dailies (wallet_of w))"
  shows "ledger_sum (rows_at (daily_key a)) (wallet_of w) = da_prize a
    \<and> (\<forall>b \<in> set (dailies (wallet_of w)). da_account b = da_account a \<and> da_action b = da_action a
         \<and> da_date b = da_date a \<longrightarrow> b = a)"
proof (intro conjI ballI impI)
  have ok: "sound w" by (rule reachable_sound [OF assms(1)])
  have "accounted (daily_key a)" by (cases "da_action a") (simp_all add: accounted_def daily_key_def)
  then show "ledger_sum (rows_at (daily_key a)) (wallet_of w) = da_prize a"
    using vouched_at [OF ok] owed_daily [OF wallet_ok_parts(3) [OF ok] assms(2)] by simp
  fix b assume "b \<in> set (dailies (wallet_of w))"
    "da_account b = da_account a \<and> da_action b = da_action a \<and> da_date b = da_date a"
  then show "b = a"
    using wallet_ok_parts(3) [OF ok] assms(2)
    by (intro distinct_map_inj_eq [of daily_key "dailies (wallet_of w)"]) (simp_all add: unique_ok_def daily_key_eq)
qed

theorem daily_prize_once_witness:
  "\<exists>a \<in> set (dailies (wallet_of demo_checked)). da_prize a = 1 \<and> ledger_sum (rows_at (daily_key a)) (wallet_of demo_checked) = 1"
proof -
  obtain a where "claimed 1 ActionCheckin 1 (1700000000 * Second) (wallet_of demo_start) a" "dailies (wallet_of demo_checked) = [a]"
    by (rule demo_checked_daily)
  then have a: "a \<in> set (dailies (wallet_of demo_checked))" "da_prize a = 1" by (simp_all add: claimed_def)
  with daily_prize_once [OF demo_checked_reachable a(1)] show ?thesis by (intro bexI [of _ a]) simp_all
qed

section \<open>Failures\<close>

lemma wp_failed_transaction: "wp (transaction m) (\<lambda>_ _. True) (\<lambda>_ w'. tabs w' = tabs w) w"
  by (rule wpI) (auto dest: transaction_rolls_back)

lemma wp_failed:
  "wp (checkin acc) (\<lambda>_ _. True) (\<lambda>_ w'. tabs w' = tabs w) w"
  "wp (lottery acc) (\<lambda>_ _. True) (\<lambda>_ w'. tabs w' = tabs w) w"
  "wp (credit_paid no trade amount) (\<lambda>_ _. True) (\<lambda>_ w'. tabs w' = tabs w) w"
  "wp (tip s acc username vid coins) (\<lambda>_ _. True) (\<lambda>_ w'. tabs w' = tabs w) w"
proof -
  have tx: "wp (transaction m) (\<lambda>_ _. True) (\<lambda>_ w'. tabs w' = tabs w) v" if "tabs v = tabs w"
    for m :: "'a op" and v
    using wp_failed_transaction [of m v] that by simp
  have after: "wp (after_tip s acc vid coins now ts) (\<lambda>_ _. True) (\<lambda>_ w'. tabs w' = tabs w) v" for now ts v
    by (simp add: after_tip_def wp_rules)
  show "wp (checkin acc) (\<lambda>_ _. True) (\<lambda>_ w'. tabs w' = tabs w) w"
    by (simp add: checkin_def random_checkin_bucket_def random_bucket_def wp_bnd wp_basic wp_rand_read Let_def tx
        split: option.split)
  show "wp (lottery acc) (\<lambda>_ _. True) (\<lambda>_ w'. tabs w' = tabs w) w"
    by (simp add: lottery_def random_lottery_bucket_def random_bucket_def case_prod_beta wp_bnd wp_basic wp_rand_read
        Let_def tx split: option.split)
  show "wp (credit_paid no trade amount) (\<lambda>_ _. True) (\<lambda>_ w'. tabs w' = tabs w) w"
    by (simp add: credit_paid_def wp_bnd wp_basic tx split: sum.split)
  show "wp (tip s acc username vid coins) (\<lambda>_ _. True) (\<lambda>_ w'. tabs w' = tabs w) w"
    by (auto simp: tip_def video_by_id_def wp_bnd wp_basic wp_if wp_stmt wp_option after split: option.split
        intro!: wp_mono [OF tx])
qed

text \<open>C14 A tip, a check-in, a lottery draw or a credited payment that answers an error has changed
  nothing in the database, at whatever statement it failed.\<close>

theorem failures_change_nothing:
  assumes "fst (tip s acc username vid coins w) = Inl e \<and> w' = snd (tip s acc username vid coins w)
    \<or> fst (checkin acc w) = Inl e \<and> w' = snd (checkin acc w)
    \<or> fst (lottery acc w) = Inl e \<and> w' = snd (lottery acc w)
    \<or> fst (credit_paid no trade amount w) = Inl e \<and> w' = snd (credit_paid no trade amount w)"
  shows "tabs w' = tabs w"
  using assms wp_err [OF wp_failed(1)] wp_err [OF wp_failed(2)] wp_err [OF wp_failed(3)] wp_err [OF wp_failed(4)]
  by (metis prod.collapse)

text \<open>The world of the witness loses its connection at the ninth statement of a tip.\<close>

theorem failures_change_nothing_witness:
  "(let w = demo_gift\<lparr>faults := (\<lambda>n. n = 15)\<rparr> in fst (tip demo_svc 1 (lit ''ann'') 7 10 w) = Inl DbFault
     \<and> tabs (snd (tip demo_svc 1 (lit ''ann'') 7 10 w)) = tabs w)"
proof -
  let ?w = "demo_gift\<lparr>faults := (\<lambda>n. n = 15)\<rparr>"
  let ?run = "tip demo_svc 1 (lit ''ann'') 7 10 ?w"
  have failed: "fst ?run = Inl DbFault" by code_simp
  have "tabs (snd ?run) = tabs ?w"
    by (rule failures_change_nothing [OF disjI1 [OF conjI [OF failed refl]]])
  with failed show ?thesis unfolding Let_def by blast
qed

section \<open>The summary\<close>

text \<open>What the loop of \<open>summary\<close> has computed from the lots \<open>done\<close>.\<close>

definition soon_sum :: "instant \<Rightarrow> lot list \<Rightarrow> int" where
  "soon_sum warn ls = (\<Sum>l\<leftarrow>ls. case lot_expire l of None \<Rightarrow> 0 | Some t \<Rightarrow> if t \<le> warn then lot_remaining l else 0)"

definition sum_at :: "instant \<Rightarrow> lot list \<Rightarrow> int" where
  "sum_at t ls = (\<Sum>l\<leftarrow>ls. if lot_expire l = Some t then lot_remaining l else 0)"

definition next_of :: "lot list \<Rightarrow> summary \<Rightarrow> bool" where
  "next_of ls s \<longleftrightarrow> (case su_next_at s of
      None \<Rightarrow> (\<forall>l \<in> set ls. lot_expire l = None)
    | Some n \<Rightarrow> (\<exists>l \<in> set ls. lot_expire l = Some n) \<and> (\<forall>l \<in> set ls. \<forall>t. lot_expire l = Some t \<longrightarrow> n \<le> t)
        \<and> wrap64 (su_next_coins s) = wrap64 (sum_at n ls))"

definition summarises :: "instant \<Rightarrow> lot list \<Rightarrow> summary \<Rightarrow> bool" where
  "summarises warn ls s \<longleftrightarrow> su_available s = wrap64 (\<Sum>l\<leftarrow>ls. lot_remaining l)
     \<and> su_expiring_soon s = wrap64 (soon_sum warn ls) \<and> next_of ls s"

lemma sum_at_none: "(\<And>l. l \<in> set ls \<Longrightarrow> lot_expire l \<noteq> Some t) \<Longrightarrow> sum_at t ls = 0"
  unfolding sum_at_def by (intro sum_all_zero) simp

lemma wrap64_plus: "wrap64 x = wrap64 y \<Longrightarrow> wrap64 (x + z) = wrap64 (y + z)"
  by (metis wrap64_add_left)

lemma next_of_step:
  assumes "next_of ls out" "lot_expire l = Some t"
  shows "next_of (ls @ [l]) (summary_loop warn out [l])"
proof (cases "su_next_at out")
  case None
  then have "sum_at t ls = 0" using assms(1) by (intro sum_at_none) (auto simp: next_of_def)
  then show ?thesis using None assms by (auto simp: next_of_def Let_def sum_at_def)
next
  case (Some n)
  then have prev: "\<forall>l \<in> set ls. \<forall>t. lot_expire l = Some t \<longrightarrow> n \<le> t" "wrap64 (su_next_coins out) = wrap64 (sum_at n ls)"
    "\<exists>l \<in> set ls. lot_expire l = Some n"
    using assms(1) by (simp_all add: next_of_def)
  consider "t < n" | "t = n" | "n < t" by linarith
  then show ?thesis
  proof cases
    case 1
    then have "sum_at t ls = 0" using prev(1) by (intro sum_at_none) fastforce
    with 1 show ?thesis using Some assms(2) prev by (fastforce simp: next_of_def Let_def sum_at_def)
  next
    case 2
    then show ?thesis using Some assms(2) prev wrap64_plus [OF prev(2), of "lot_remaining l"]
      by (auto simp: next_of_def Let_def sum_at_def)
  next
    case 3
    then show ?thesis using Some assms(2) prev by (fastforce simp: next_of_def Let_def sum_at_def)
  qed
qed

lemma summary_step:
  assumes "summarises warn ls out"
  shows "summarises warn (ls @ [l]) (summary_loop warn out [l])"
proof (cases "lot_expire l")
  case None
  then show ?thesis
    using assms by (auto simp: summarises_def soon_sum_def next_of_def sum_at_def wrap64_add_left split: option.splits)
next
  case (Some t)
  then have "next_of (ls @ [l]) (summary_loop warn out [l])" using assms by (simp only: next_of_step summarises_def)
  moreover have "su_available (summary_loop warn out [l]) = wrap64 (su_available out + lot_remaining l)"
    "su_expiring_soon (summary_loop warn out [l])
       = (if t \<le> warn then wrap64 (su_expiring_soon out + lot_remaining l) else su_expiring_soon out)"
    using Some by (auto simp: Let_def split: option.split)
  ultimately show ?thesis
    using assms Some by (simp add: summarises_def soon_sum_def wrap64_add_left del: summary_loop.simps)
qed

lemma summary_loop_append: "summary_loop warn out (ls @ ms) = summary_loop warn (summary_loop warn out ls) ms"
  by (induction ls arbitrary: out) (auto simp: Let_def split: option.split)

lemma summary_loop_sums:
  "summarises warn [] out \<Longrightarrow> summarises warn ls (summary_loop warn out ls)"
  by (induction ls rule: rev_induct) (simp_all only: summary_loop_append append_Nil summary_loop.simps(1) summary_step)

lemma wp_repo_summary:
  "wp (repo_summary acc now) (\<lambda>s w'. w' = next_stmt w
     \<and> summarises (now + ExpireWarnWindow) (filter (available acc now) (lots (wallet_of w))) s) (\<lambda>_ _. True) w"
proof -
  have "summarises warn [] \<lparr>su_available = 0, su_expiring_soon = 0, su_next_at = None, su_next_coins = 0\<rparr>" for warn
    by (simp add: summarises_def soon_sum_def next_of_def wrap64_def)
  then show ?thesis by (simp add: repo_summary_def wp_rules summary_loop_sums)
qed

text \<open>The summary writes off the expired lots and then reports the balance that is left, of it
  the coins that expire within the warning window, and the earliest expiry with all the coins that
  expire at that instant.\<close>

lemma summary_correct:
  assumes "wallet_reachable w" "summary_of acc w = (Inr s, w')" "balance acc (wallet_of w') < 2 ^ 63"
  shows "(let now = clock w (ticks w); ls = filter (available acc now) (lots (wallet_of w')) in
      summarises (now + ExpireWarnWindow) ls s \<and> su_available s = balance acc (wallet_of w')
      \<and> (\<forall>l \<in> set (lots (wallet_of w')). lot_account l = acc \<longrightarrow> \<not> expired now l))"
proof -
  let ?now = "clock w (ticks w)"
  have ok: "sound w" by (rule reachable_sound [OF assms(1)])
  have tx: "wp (transaction (expire_account_tx acc now))
      (\<lambda>_ u. sound u \<and> none_expired acc now (wallet_of u)) (\<lambda>_ _. True) v"
    if "wallet_of v = wallet_of w" "seqs v = seqs w" for v now
    using wp_expire_sound [of "next_stmt v" acc now] that ok
    by (intro wp_transactionI) (auto elim!: wp_mono)
  have "wp (summary_of acc) (\<lambda>s u. sound u \<and> none_expired acc ?now (wallet_of u)
      \<and> summarises (?now + ExpireWarnWindow) (filter (available acc ?now) (lots (wallet_of u))) s) (\<lambda>_ _. True) w"
    by (auto simp: summary_of_def expire_account_def wp_bnd wp_basic
        intro!: wp_mono [OF tx] wp_mono [OF wp_repo_summary])
  then have left: "sound w'" "none_expired acc ?now (wallet_of w')"
      "summarises (?now + ExpireWarnWindow) (filter (available acc ?now) (lots (wallet_of w'))) s"
    using assms(2) by (simp_all add: wp_def)
  have books: "books_ok (lot_seq w') (wallet_of w')" by (rule wallet_ok_parts(1) [OF left(1)])
  have total: "(\<Sum>l\<leftarrow>filter (available acc ?now) (lots (wallet_of w')). lot_remaining l) = balance acc (wallet_of w')"
    using spendable_balance [OF books, of acc ?now] expired_due_none [OF left(2)]
    by (simp add: spendable_def sum_list_filter_if)
  have "0 \<le> balance acc (wallet_of w')"
    unfolding balance_def using books_okD(2) [OF books] by (intro sum_list_nonneg_int) auto
  then have "su_available s = balance acc (wallet_of w')"
    using left(3) assms(3) by (simp add: summarises_def total i64I)
  with left show ?thesis by (simp add: Let_def none_expired_def)
qed

theorem summary_correct_witness:
  "\<exists>s w'. summary_of 1 demo_gift = (Inr s, w') \<and> su_available s = 10 \<and> su_next_coins s = 10 \<and> su_expiring_soon s = 0
     \<and> balance 1 (wallet_of w') = 10"
proof -
  let ?run = "summary_of 1 demo_gift"
  let ?s = "\<lparr>su_available = 10, su_expiring_soon = 0, su_next_at = Some 1702592000000000000, su_next_coins = 10\<rparr>"
  have "fst ?run = Inr ?s" by code_simp
  then have run: "?run = (Inr ?s, snd ?run)" by (simp add: prod_eq_iff)
  have "balance 1 (wallet_of (snd ?run)) = 10" by code_simp
  then show ?thesis using summary_correct [OF demo_gift_reachable run] run by (intro exI conjI) (rule run, simp_all)
qed

end
