(* ===== verification/Invoice.thy ===== *)
theory Invoice
  imports Wallet_Spending
begin

text \<open>
  Invoices (\<open>internal/invoice\<close>): normalising the header an invoice is issued to, the profile that
  keeps the last header, and issuing one invoice per paid recharge. The service reads paid orders
  through the interface \<open>PaidOrderStore\<close>, which is the record \<open>paid_order_store\<close>; the locale
  \<open>paid_orders\<close> states what the service relies on, and \<open>orders_from_wallet\<close>, the adapter of
  \<open>wallet_orders.go\<close>, satisfies it. The case mappings beyond ASCII are the parameters \<open>lo\<close> and
  \<open>up\<close>.
\<close>

section \<open>Header rules (rules.go)\<close>

definition TitleMinRunes :: nat where "TitleMinRunes = 2"
definition TitleMaxRunes :: nat where "TitleMaxRunes = 80"
definition EmailMaxRunes :: nat where "EmailMaxRunes = 120"
definition BankNameMax :: nat where "BankNameMax = 64"
definition BankAccountMax :: nat where "BankAccountMax = 64"
definition AddressMax :: nat where "AddressMax = 160"

definition KindPersonal :: gostr where "KindPersonal = lit ''personal''"

definition digit :: "rune \<Rightarrow> bool" where "digit r \<longleftrightarrow> 48 \<le> r \<and> r \<le> 57"
definition upper_letter :: "rune \<Rightarrow> bool" where "upper_letter r \<longleftrightarrow> 65 \<le> r \<and> r \<le> 90"
definition lower_letter :: "rune \<Rightarrow> bool" where "lower_letter r \<longleftrightarrow> 97 \<le> r \<and> r \<le> 122"

definition taxIDPattern :: rx where
  "taxIDPattern = between 15 5 (Cls (\<lambda>r. digit r \<or> upper_letter r))"

definition emailPattern :: rx where
  "emailPattern = Seq (plus (Cls (\<lambda>r. upper_letter r \<or> lower_letter r \<or> digit r \<or> r \<in> {46, 95, 37, 43, 45})))
     (Seq (Cls (\<lambda>r. r = 64))
     (Seq (plus (Cls (\<lambda>r. upper_letter r \<or> lower_letter r \<or> digit r \<or> r \<in> {46, 45})))
     (Seq (Cls (\<lambda>r. r = 46))
     (Seq (Cls (\<lambda>r. upper_letter r \<or> lower_letter r)) (plus (Cls (\<lambda>r. upper_letter r \<or> lower_letter r)))))))"

definition phonePattern :: rx where
  "phonePattern = between 6 26 (Cls (\<lambda>r. digit r \<or> r \<in> {43, 45, 40, 41, 32}))"

definition normalize_kind :: "(rune \<Rightarrow> rune) \<Rightarrow> gostr \<Rightarrow> err + gostr" where
  "normalize_kind lo raw = (let k = to_lower lo (trim_space raw); kind = (if k = [] then KindPersonal else k) in
     if kind \<noteq> KindPersonal then Inl ErrInvoiceKind else Inr kind)"

fun compact_loop :: "nat \<Rightarrow> gostr \<Rightarrow> gostr \<Rightarrow> gostr" where
  "compact_loop n b [] = b"
| "compact_loop n b (r # rs) = (if is_control r then compact_loop n b rs
     else if length (b @ [r]) \<ge> n then b @ [r] else compact_loop n (b @ [r]) rs)"

definition compact_runes :: "gostr \<Rightarrow> nat \<Rightarrow> gostr" where
  "compact_runes raw n = trim_space (compact_loop n [] (trim_space raw))"

definition normalize_header :: "(rune \<Rightarrow> rune) \<Rightarrow> (rune \<Rightarrow> rune) \<Rightarrow> header \<Rightarrow> err + header" where
  "normalize_header lo up req = (case normalize_kind lo (h_kind req) of Inl e \<Rightarrow> Inl e | Inr kind \<Rightarrow>
     let title = compact_runes (h_title req) TitleMaxRunes in
     if length title < TitleMinRunes then Inl ErrInvoiceTitle else
     let email = to_lower lo (trim_space (h_email req)) in
     if email = [] \<or> length email > EmailMaxRunes \<or> \<not> matches emailPattern email then Inl ErrInvoiceEmail else
     let tax_id = to_upper up (filter (\<lambda>r. r \<noteq> 32) (trim_space (h_tax_id req))) in
     if tax_id \<noteq> [] \<and> \<not> matches taxIDPattern tax_id then Inl ErrInvoiceTaxID else
     let phone = trim_space (h_phone req) in
     if phone \<noteq> [] \<and> \<not> matches phonePattern phone then Inl ErrInvoiceHeader else
     Inr \<lparr>h_kind = kind, h_title = title, h_tax_id = tax_id, h_email = email,
       h_bank_name = compact_runes (h_bank_name req) BankNameMax,
       h_bank_account = compact_runes (h_bank_account req) BankAccountMax,
       h_address = compact_runes (h_address req) AddressMax, h_phone = phone\<rparr>)"

definition new_invoice_no :: "instant \<Rightarrow> gostr op" where
  "new_invoice_no now = bnd rand_read (\<lambda>n. ret
     (lit ''INV'' @ format_compact (shanghai_date now) @ to_upper (\<lambda>r. r) (hex_bytes 5 n)))"

section \<open>Paid orders (entity.go, wallet orders)\<close>

record paid_order =
  po_no :: gostr
  po_account :: nat
  po_yuan :: int
  po_coins :: int
  po_bonus :: int
  po_pay_method :: gostr
  po_paid_at :: instant

record paid_order_store =
  find_paid :: "nat \<Rightarrow> gostr \<Rightarrow> paid_order option op"
  list_paid :: "nat \<Rightarrow> int \<Rightarrow> int \<Rightarrow> paid_order list op"

definition paid_from_wallet :: "paid_recharge \<Rightarrow> paid_order" where
  "paid_from_wallet row = \<lparr>po_no = paid_no row, po_account = paid_account row, po_yuan = paid_yuan row,
     po_coins = paid_coins row, po_bonus = paid_bonus row, po_pay_method = paid_method row, po_paid_at = paid_when row\<rparr>"

definition orders_from_wallet :: paid_order_store where
  "orders_from_wallet = \<lparr>
     find_paid = (\<lambda>acc no. bnd (find_paid_recharge acc no) (\<lambda>row. ret (map_option paid_from_wallet row))),
     list_paid = (\<lambda>acc limit offset. bnd (list_paid_recharges acc limit offset) (\<lambda>rows. ret (map paid_from_wallet rows)))\<rparr>"

section \<open>Queries (repo.go)\<close>

abbreviation upd_invoices :: "(invoice list \<Rightarrow> invoice list) \<Rightarrow> db \<Rightarrow> db" where
  "upd_invoices f d \<equiv> d\<lparr>d_invoice := (d_invoice d)\<lparr>invoices := f (invoices (d_invoice d))\<rparr>\<rparr>"

definition load_profile :: "nat \<Rightarrow> profile option op" where
  "load_profile acc = query (\<lambda>d. find (\<lambda>p. pr_account p = acc) (profiles (d_invoice d)))"

definition upsert_profile :: "profile \<Rightarrow> unit op" where
  "upsert_profile row = exec (\<lambda>d. d\<lparr>d_invoice := (d_invoice d)\<lparr>profiles :=
     (if \<exists>p \<in> set (profiles (d_invoice d)). pr_account p = pr_account row
      then update_where (\<lambda>p. pr_account p = pr_account row) (\<lambda>_. row) (profiles (d_invoice d))
      else profiles (d_invoice d) @ [row])\<rparr>\<rparr>)"

definition find_by_out_trade_no :: "gostr \<Rightarrow> invoice option op" where
  "find_by_out_trade_no no = query (\<lambda>d. find (\<lambda>i. inv_out_trade_no i = no) (invoices (d_invoice d)))"

definition find_by_invoice_no :: "gostr \<Rightarrow> invoice option op" where
  "find_by_invoice_no no = query (\<lambda>d. find (\<lambda>i. inv_no i = no) (invoices (d_invoice d)))"

definition list_by_account :: "nat \<Rightarrow> nat \<Rightarrow> nat \<Rightarrow> invoice list op" where
  "list_by_account acc limit offset =
     query (\<lambda>d. page limit offset (newest inv_id (\<lambda>i. inv_account i = acc) (invoices (d_invoice d))))"

definition list_by_out_trade_nos :: "nat \<Rightarrow> gostr list \<Rightarrow> invoice list op" where
  "list_by_out_trade_nos acc nos = (if nos = [] then ret [] else
     query (\<lambda>d. filter (\<lambda>i. inv_account i = acc \<and> inv_out_trade_no i \<in> set nos) (invoices (d_invoice d))))"

definition create_invoice :: "invoice \<Rightarrow> nat op" where
  "create_invoice row = create Invoices
     (\<lambda>_ d. \<exists>i \<in> set (invoices (d_invoice d)). inv_no i = inv_no row \<or> inv_out_trade_no i = inv_out_trade_no row)
     (\<lambda>n. upd_invoices (\<lambda>is. is @ [row\<lparr>inv_id := n\<rparr>]))"

definition save_invoice :: "invoice \<Rightarrow> unit op" where
  "save_invoice row = exec_unique
     (\<lambda>d. \<exists>i \<in> set (invoices (d_invoice d)). inv_id i \<noteq> inv_id row
        \<and> (inv_no i = inv_no row \<or> inv_out_trade_no i = inv_out_trade_no row))
     (upd_invoices (update_where (\<lambda>i. inv_id i = inv_id row) (\<lambda>_. row)))"

definition apply_header :: "invoice \<Rightarrow> header \<Rightarrow> paid_order \<Rightarrow> instant \<Rightarrow> invoice" where
  "apply_header row header order now = row\<lparr>inv_account := po_account order, inv_out_trade_no := po_no order,
     inv_yuan := po_yuan order, inv_coins := po_coins order, inv_bonus := po_bonus order,
     inv_pay_method := po_pay_method order, inv_paid_at := po_paid_at order, inv_header := header, inv_updated := now\<rparr>"

section \<open>The service (service.go)\<close>

definition blank_header :: header where
  "blank_header = \<lparr>h_kind = [], h_title = [], h_tax_id = [], h_email = [], h_bank_name = [],
     h_bank_account = [], h_address = [], h_phone = []\<rparr>"

definition profile_of :: "nat \<Rightarrow> profile op" where
  "profile_of acc = bnd (load_profile acc) (\<lambda>row. ret (case row of
      None \<Rightarrow> \<lparr>pr_account = acc, pr_header = blank_header\<lparr>h_kind := KindPersonal\<rparr>, pr_updated = 0\<rparr>
    | Some p \<Rightarrow> p))"

definition profile_from_header :: "nat \<Rightarrow> header \<Rightarrow> instant \<Rightarrow> profile" where
  "profile_from_header acc header now = \<lparr>pr_account = acc, pr_header = header, pr_updated = now\<rparr>"

definition save_profile :: "(rune \<Rightarrow> rune) \<Rightarrow> (rune \<Rightarrow> rune) \<Rightarrow> nat \<Rightarrow> header \<Rightarrow> profile op" where
  "save_profile lo up acc req = bnd (lift (normalize_header lo up req)) (\<lambda>header. bnd read_now (\<lambda>now.
     let row = profile_from_header acc header now in bnd (upsert_profile row) (\<lambda>_. ret row)))"

definition eligible :: "paid_order_store \<Rightarrow> nat \<Rightarrow> int \<Rightarrow> int \<Rightarrow> paid_order list op" where
  "eligible s acc limit0 offset0 = (let (limit, offset) = clamp_list limit0 offset0 in
     bnd (list_paid s acc (int limit) (int offset)) (\<lambda>paid.
     bnd (list_by_out_trade_nos acc (map po_no paid)) (\<lambda>existing.
     let issued = map inv_out_trade_no (filter inv_issued existing)
     in ret (filter (\<lambda>item. po_no item \<notin> set issued) paid))))"

definition blank_invoice :: invoice where
  "blank_invoice = \<lparr>inv_id = 0, inv_no = [], inv_account = 0, inv_out_trade_no = [], inv_yuan = 0, inv_coins = 0,
     inv_bonus = 0, inv_pay_method = [], inv_paid_at = 0, inv_header = blank_header, inv_issued = False,
     inv_issued_at = None, inv_issuer = 0, inv_reject_reason = [], inv_created = 0, inv_updated = 0\<rparr>"

definition issued_row :: "invoice \<Rightarrow> gostr \<Rightarrow> header \<Rightarrow> paid_order \<Rightarrow> instant \<Rightarrow> invoice" where
  "issued_row row no header order now = (apply_header (row\<lparr>inv_no := no\<rparr>) header order now)
     \<lparr>inv_reject_reason := [], inv_issuer := 0, inv_issued := True, inv_issued_at := Some now\<rparr>"

definition issue_tx :: "nat \<Rightarrow> header \<Rightarrow> paid_order \<Rightarrow> instant \<Rightarrow> unit op" where
  "issue_tx acc header order now =
     bnd (upsert_profile (profile_from_header acc header now)) (\<lambda>_.
     bnd (find_by_out_trade_no (po_no order)) (\<lambda>found.
     fail_if (case found of None \<Rightarrow> False | Some i \<Rightarrow> inv_issued i) ErrAlreadyIssued (
     let row = (case found of None \<Rightarrow> blank_invoice\<lparr>inv_created := now\<rparr> | Some i \<Rightarrow> i) in
     bnd (new_invoice_no now) (\<lambda>no.
     let issued = issued_row row no header order now in
     if inv_id issued = 0 then bnd (create_invoice issued) (\<lambda>_. ret ()) else save_invoice issued))))"

definition apply_invoice ::
  "(rune \<Rightarrow> rune) \<Rightarrow> (rune \<Rightarrow> rune) \<Rightarrow> paid_order_store \<Rightarrow> nat \<Rightarrow> gostr \<Rightarrow> header \<Rightarrow> invoice option op" where
  "apply_invoice lo up s acc trade_no req = bnd (lift (normalize_header lo up req)) (\<lambda>header.
     bnd (find_paid s acc (trim_space trade_no)) (\<lambda>found. case found of
        None \<Rightarrow> throw ErrPaidOrderNotFound
      | Some order \<Rightarrow> fail_if (po_account order \<noteq> acc) ErrPaidOrderNotFound (
          bnd read_now (\<lambda>now.
          bnd (transaction (issue_tx acc header order now)) (\<lambda>_.
          find_by_out_trade_no (po_no order))))))"

definition list_mine :: "nat \<Rightarrow> int \<Rightarrow> int \<Rightarrow> invoice list op" where
  "list_mine acc limit0 offset0 = (let (limit, offset) = clamp_list limit0 offset0 in list_by_account acc limit offset)"

definition lookup_invoice :: "gostr \<Rightarrow> invoice op" where
  "lookup_invoice no = fail_if (no = []) ErrInvoiceNotFound (bnd (find_by_invoice_no no) (\<lambda>row. case row of
     None \<Rightarrow> throw ErrInvoiceNotFound | Some i \<Rightarrow> ret i))"

definition get_invoice :: "nat \<Rightarrow> gostr \<Rightarrow> invoice op" where
  "get_invoice acc no = bnd (lookup_invoice (trim_space no)) (\<lambda>row.
     fail_if (inv_account row \<noteq> acc) ErrNotOwner (ret row))"

section \<open>Review (review.go)\<close>

definition list_for_review :: "gostr \<Rightarrow> gostr \<Rightarrow> nat \<Rightarrow> int \<Rightarrow> int \<Rightarrow> invoice list op" where
  "list_for_review no trade acc limit0 offset0 = (let (limit, offset) = clamp_list limit0 offset0;
     n = trim_space no; t = trim_space trade in
     query (\<lambda>d. page limit offset (newest inv_id (\<lambda>i. (n \<noteq> [] \<longrightarrow> inv_no i = n) \<and> (t \<noteq> [] \<longrightarrow> inv_out_trade_no i = t)
       \<and> (0 < acc \<longrightarrow> inv_account i = acc)) (invoices (d_invoice d)))))"

definition get_for_review :: "gostr \<Rightarrow> invoice op" where
  "get_for_review no = lookup_invoice (trim_space no)"

text \<open>The issued invoices, their amount and their coins.\<close>

definition review_summary :: "(nat \<times> int \<times> int) op" where
  "review_summary = query (\<lambda>d. let is = filter inv_issued (invoices (d_invoice d)) in
     (length is, (\<Sum>i\<leftarrow>is. inv_yuan i), (\<Sum>i\<leftarrow>is. inv_coins i + inv_bonus i)))"

section \<open>Normal headers\<close>

lemma compact_loop_take:
  "length b < n \<Longrightarrow> compact_loop n b rs = take n (b @ filter (\<lambda>r. \<not> is_control r) rs)"
proof (induction n b rs rule: compact_loop.induct)
  case (2 n b r rs)
  show ?case
  proof (cases "length (b @ [r]) \<ge> n")
    case True
    with 2 have "n - length b = Suc 0" by simp
    with 2 True show ?thesis by simp
  qed (use 2 in auto)
qed simp

lemma compact_runes_take:
  "0 < n \<Longrightarrow> compact_runes raw n = trim_space (take n (filter (\<lambda>r. \<not> is_control r) (trim_space raw)))"
  by (simp add: compact_runes_def compact_loop_take)

lemma compact_runes_bounds:
  assumes "0 < n"
  shows "length (compact_runes raw n) \<le> n" "\<forall>r \<in> set (compact_runes raw n). \<not> is_control r"
proof -
  show "length (compact_runes raw n) \<le> n"
    using length_trim_space [of "take n (filter (\<lambda>r. \<not> is_control r) (trim_space raw))"] assms
    by (simp add: compact_runes_take)
  show "\<forall>r \<in> set (compact_runes raw n). \<not> is_control r"
    using set_trim_space [of "take n (filter (\<lambda>r. \<not> is_control r) (trim_space raw))"] assms
    by (auto simp: compact_runes_take dest!: subsetD in_set_takeD)
qed

lemma compact_runes_idem: "0 < n \<Longrightarrow> compact_runes (compact_runes raw n) n = compact_runes raw n"
proof -
  assume n: "0 < n"
  let ?c = "compact_runes raw n"
  have "trim_space ?c = ?c" by (simp add: compact_runes_def)
  moreover have "filter (\<lambda>r. \<not> is_control r) ?c = ?c" using compact_runes_bounds(2) [OF n] by (simp add: filter_id_conv)
  moreover have "take n ?c = ?c" using compact_runes_bounds(1) [OF n] by simp
  ultimately show ?thesis using n by (simp add: compact_runes_take [of n ?c])
qed

text \<open>The characters a pattern's matches are made of.\<close>

fun only :: "(rune \<Rightarrow> bool) \<Rightarrow> rx \<Rightarrow> bool" where
  "only p (Cls q) = (\<forall>r. q r \<longrightarrow> p r)"
| "only p (Seq r s) = (only p r \<and> only p s)"
| "only p (Alt r s) = (only p r \<and> only p s)"
| "only p (Star r) = only p r"
| "only p _ = True"

lemma lang_only: "lang r xs \<Longrightarrow> only p r \<Longrightarrow> \<forall>x \<in> set xs. p x"
  by (induction rule: lang.induct) auto

lemma only_repeat: "only p (repeat_rx n r) = (n = 0 \<or> only p r)"
  by (induction n) auto

lemma email_chars: "matches emailPattern s \<Longrightarrow> r \<in> set s \<Longrightarrow> 37 \<le> r \<and> r < 128"
  using lang_only [of emailPattern s "\<lambda>r. 37 \<le> r \<and> r < 128"]
  by (auto simp: matches_lang emailPattern_def plus_def digit_def upper_letter_def lower_letter_def)

lemma not_space: "37 \<le> r \<and> r < 128 \<Longrightarrow> \<not> is_space r"
  by (simp add: is_space_def)

lemma tax_id_chars: "matches taxIDPattern s \<Longrightarrow> r \<in> set s \<Longrightarrow> digit r \<or> upper_letter r"
  using lang_only [of taxIDPattern s "\<lambda>r. digit r \<or> upper_letter r"]
  by (auto simp: matches_lang taxIDPattern_def between_def only_repeat)

lemma to_lower_ascii: "\<forall>r \<in> set s. r < 128 \<and> \<not> upper_letter r \<Longrightarrow> to_lower tab s = s"
  by (induction s) (auto simp: to_lower_def upper_letter_def)

lemma to_upper_ascii: "\<forall>r \<in> set s. r < 128 \<and> \<not> lower_letter r \<Longrightarrow> to_upper tab s = s"
  by (induction s) (auto simp: to_upper_def lower_letter_def)

lemma to_lower_email:
  assumes "matches emailPattern (to_lower lo t)" "\<And>r. \<not> upper_letter (lo r)"
  shows "to_lower lo (trim_space (to_lower lo t)) = to_lower lo t"
proof -
  have "\<forall>r \<in> set (to_lower lo t). \<not> upper_letter r"
    using assms(2) by (auto simp: to_lower_def upper_letter_def)
  moreover have "\<forall>r \<in> set (to_lower lo t). r < 128 \<and> \<not> is_space r"
    using email_chars [OF assms(1)] not_space by blast
  ultimately show ?thesis by (simp add: to_lower_ascii trim_space_no_space)
qed

lemma to_upper_tax_id:
  assumes "s = [] \<or> matches taxIDPattern s"
  shows "to_upper up (filter (\<lambda>r. r \<noteq> 32) (trim_space s)) = s"
proof -
  have "\<forall>r \<in> set s. digit r \<or> upper_letter r" using assms tax_id_chars by auto
  then have c: "\<forall>r \<in> set s. r < 128 \<and> \<not> lower_letter r \<and> \<not> is_space r \<and> r \<noteq> 32"
    by (auto simp: digit_def upper_letter_def lower_letter_def is_space_def)
  then have "filter (\<lambda>r. r \<noteq> 32) s = s" by (simp add: filter_id_conv)
  with c show ?thesis by (simp add: trim_space_no_space to_upper_ascii)
qed

lemma normalize_kind_personal: "normalize_kind lo KindPersonal = Inr KindPersonal"
proof -
  have "\<forall>r \<in> set KindPersonal. r < 128 \<and> \<not> upper_letter r \<and> \<not> is_space r"
    by (simp add: KindPersonal_def lit_def upper_letter_def is_space_def)
  then have "to_lower lo (trim_space KindPersonal) = KindPersonal" by (simp add: trim_space_no_space to_lower_ascii)
  then show ?thesis by (simp add: normalize_kind_def Let_def)
qed

lemma normalize_kindD: "normalize_kind lo raw = Inr k \<Longrightarrow> k = KindPersonal"
  by (auto simp: normalize_kind_def Let_def split: if_splits)

definition header_ok :: "header \<Rightarrow> bool" where
  "header_ok h \<longleftrightarrow> h_kind h = KindPersonal \<and> TitleMinRunes \<le> length (h_title h) \<and> length (h_title h) \<le> TitleMaxRunes
     \<and> length (h_email h) \<le> EmailMaxRunes \<and> matches emailPattern (h_email h)
     \<and> (h_tax_id h = [] \<or> matches taxIDPattern (h_tax_id h)) \<and> (h_phone h = [] \<or> matches phonePattern (h_phone h))
     \<and> length (h_bank_name h) \<le> BankNameMax \<and> length (h_bank_account h) \<le> BankAccountMax \<and> length (h_address h) \<le> AddressMax"

lemma limits_pos: "0 < TitleMaxRunes" "0 < BankNameMax" "0 < BankAccountMax" "0 < AddressMax"
  by (simp_all add: TitleMaxRunes_def BankNameMax_def BankAccountMax_def AddressMax_def)

lemma normalize_headerD:
  assumes "normalize_header lo up req = Inr h"
  shows "header_ok h" "h_title h = compact_runes (h_title req) TitleMaxRunes"
    "h_email h = to_lower lo (trim_space (h_email req))" "h_phone h = trim_space (h_phone req)"
    "h_bank_name h = compact_runes (h_bank_name req) BankNameMax"
    "h_bank_account h = compact_runes (h_bank_account req) BankAccountMax"
    "h_address h = compact_runes (h_address req) AddressMax"
  using assms limits_pos
  by (auto simp: normalize_header_def Let_def header_ok_def compact_runes_bounds dest: normalize_kindD
      split: sum.splits if_splits)

text \<open>An accepted header is in a normal form: it meets the limits and patterns of the columns, and
  submitting it again, as the client does with the saved profile, changes nothing.\<close>

lemma header_normal_form:
  assumes "normalize_header lo up req = Inr h" "\<And>r. \<not> upper_letter (lo r)"
  shows "header_ok h \<and> normalize_header lo up h = Inr h"
proof -
  note h = normalize_headerD [OF assms(1)]
  have k: "h_kind h = KindPersonal" "TitleMinRunes \<le> length (h_title h)" "matches emailPattern (h_email h)"
    "length (h_email h) \<le> EmailMaxRunes" "h_tax_id h = [] \<or> matches taxIDPattern (h_tax_id h)"
    "h_phone h = [] \<or> matches phonePattern (h_phone h)"
    using h(1) by (simp_all add: header_ok_def)
  have "to_lower lo (trim_space (h_email h)) = h_email h"
    using to_lower_email [of lo "trim_space (h_email req)"] k(3) assms(2) by (simp add: h(3))
  moreover have "h_email h \<noteq> []" using k(3) by (auto simp: emailPattern_def plus_def)
  moreover have "trim_space (h_phone h) = h_phone h" by (simp add: h(4))
  moreover have "compact_runes (h_title h) TitleMaxRunes = h_title h" "compact_runes (h_bank_name h) BankNameMax = h_bank_name h"
    "compact_runes (h_bank_account h) BankAccountMax = h_bank_account h" "compact_runes (h_address h) AddressMax = h_address h"
    unfolding h(2,5,6,7) by (simp_all add: compact_runes_idem limits_pos)
  moreover have "h = \<lparr>h_kind = KindPersonal, h_title = h_title h, h_tax_id = h_tax_id h, h_email = h_email h,
      h_bank_name = h_bank_name h, h_bank_account = h_bank_account h, h_address = h_address h, h_phone = h_phone h\<rparr>"
    using k(1) by simp
  ultimately have "normalize_header lo up h = Inr h"
    using k to_upper_tax_id [OF k(5), of up]
    by (auto simp: normalize_header_def normalize_kind_personal not_less Let_def)
  with h(1) show ?thesis ..
qed

definition ascii_lower :: "rune \<Rightarrow> rune" where
  "ascii_lower r = (if upper_letter r then r + 32 else r)"

definition demo_header :: header where
  "demo_header = blank_header\<lparr>h_title := lit '' Ann Lee'', h_email := lit ''Ann@x.org ''\<rparr>"

definition demo_normal :: header where
  "demo_normal = blank_header\<lparr>h_kind := KindPersonal, h_title := lit ''Ann Lee'', h_email := lit ''ann@x.org''\<rparr>"

lemmas run_header = normalize_header_def normalize_kind_def Let_def demo_header_def demo_normal_def blank_header_def lit_def
  KindPersonal_def to_lower_def to_upper_def trim_space_def is_space_def compact_runes_def is_control_def
  TitleMinRunes_def TitleMaxRunes_def EmailMaxRunes_def BankNameMax_def BankAccountMax_def AddressMax_def
  emailPattern_def plus_def upper_letter_def lower_letter_def digit_def

lemma demo_header_ok: "normalize_header ascii_lower ascii_lower demo_header = Inr demo_normal"
  by (simp add: run_header)

theorem header_normal_form_witness: "header_ok demo_normal \<and> normalize_header ascii_lower ascii_lower demo_normal = Inr demo_normal"
  by (rule header_normal_form [OF demo_header_ok]) (simp add: ascii_lower_def upper_letter_def)

section \<open>Frames\<close>

lemma frame_invoice_queries [rel_rules]:
  "steps (frame g) (load_profile acc)" "steps (frame g) (find_by_out_trade_no no)" "steps (frame g) (find_by_invoice_no no)"
  "steps (frame g) (list_by_account acc l m)" "steps (frame g) (list_by_out_trade_nos acc nos)"
  "steps (frame g) (lookup_invoice no)" "steps (frame g) (get_invoice acc no)" "steps (frame g) (list_mine acc a b)"
  "steps (frame g) (get_for_review no)" "steps (frame g) (list_for_review no trade acc a b)" "steps (frame g) review_summary"
  "steps (frame g) (profile_of acc)" "steps (frame g) (new_invoice_no now)"
  unfolding load_profile_def find_by_out_trade_no_def find_by_invoice_no_def list_by_account_def list_by_out_trade_nos_def
    lookup_invoice_def get_invoice_def list_mine_def get_for_review_def list_for_review_def review_summary_def
    profile_of_def new_invoice_no_def Let_def case_prod_beta
  by (intro rel_rules)+

lemma frame_invoice_writes [rel_rules]:
  assumes "\<And>d v. g (d\<lparr>d_invoice := v\<rparr>) = g d"
  shows "steps (frame g) (upsert_profile p)" "steps (frame g) (create_invoice i)" "steps (frame g) (save_invoice i)"
    "steps (frame g) (save_profile lo up acc h)"
  unfolding upsert_profile_def create_invoice_def save_invoice_def save_profile_def Let_def
  by (intro rel_rules; simp add: assms)+

lemma frame_issue [rel_rules]:
  assumes "\<And>d v. g (d\<lparr>d_invoice := v\<rparr>) = g d"
  shows "steps (frame g) (issue_tx acc h order now)"
  unfolding issue_tx_def Let_def by (intro rel_rules assms)

lemma grows_issue: "steps grows (issue_tx acc h order now)"
  by (intro rel_rules) simp

section \<open>What the service relies on, and what it guarantees\<close>

text \<open>The invoice table: numbers and orders are unique, every row is issued to a normal header.\<close>

definition invoices_ok :: "(table \<Rightarrow> nat) \<Rightarrow> invoice list \<Rightarrow> bool" where
  "invoices_ok q is \<longleftrightarrow> distinct (map inv_id is) \<and> distinct (map inv_no is) \<and> distinct (map inv_out_trade_no is)
     \<and> (\<forall>i \<in> set is. inv_id i \<le> q Invoices \<and> inv_issued i \<and> header_ok (inv_header i))"

definition billed_order :: "invoice \<Rightarrow> paid_order" where
  "billed_order i = \<lparr>po_no = inv_out_trade_no i, po_account = inv_account i, po_yuan = inv_yuan i,
     po_coins = inv_coins i, po_bonus = inv_bonus i, po_pay_method = inv_pay_method i, po_paid_at = inv_paid_at i\<rparr>"

text \<open>The contract of \<open>PaidOrderStore\<close>: it only reads, what it answers is an order of the caller that
  the provider has credited, and what is credited does not depend on the invoices.\<close>

locale paid_orders =
  fixes s :: paid_order_store and credited :: "db \<Rightarrow> paid_order \<Rightarrow> bool"
  assumes reads: "steps (frame (\<lambda>d. d)) (find_paid s acc no)" "steps (frame (\<lambda>d. d)) (list_paid s acc l m)"
    and found: "find_paid s acc no w = (Inr (Some x), w') \<Longrightarrow> credited (tabs w) x \<and> po_no x = trim_space no"
    and independent: "credited (d\<lparr>d_invoice := v\<rparr>) x = credited d x"
begin

definition billing_ok :: "(table \<Rightarrow> nat) \<Rightarrow> db \<Rightarrow> bool" where
  "billing_ok q d \<longleftrightarrow> invoices_ok q (invoices (d_invoice d))
     \<and> (\<forall>i \<in> set (invoices (d_invoice d)). credited d (billed_order i))"

definition issued_more :: "db \<Rightarrow> db \<Rightarrow> bool" where
  "issued_more d d' \<longleftrightarrow> prefix_of (invoices (d_invoice d)) (invoices (d_invoice d'))"

lemma billing_ok_mono: "billing_ok q d \<Longrightarrow> \<forall>t. q t \<le> q' t \<Longrightarrow> billing_ok q' d"
  by (auto simp: billing_ok_def invoices_ok_def intro: order_trans)

end

sublocale paid_orders \<subseteq> billing: table_inv "\<lambda>d :: db. d" billing_ok issued_more
  by unfold_locales (auto simp: issued_more_def intro: billing_ok_mono prefix_of_trans)

context paid_orders
begin

abbreviation keeps_billing :: "db world \<Rightarrow> db world \<Rightarrow> bool" where
  "keeps_billing \<equiv> keeps (\<lambda>d. d) billing_ok issued_more"

abbreviation billed :: "db world \<Rightarrow> bool" where
  "billed w \<equiv> billing_ok (seqs w) (tabs w)"

lemma wp_find_paid:
  assumes "\<And>found w'. tabs w' = tabs w \<Longrightarrow> (\<forall>t. seqs w t \<le> seqs w' t) \<Longrightarrow> (\<forall>x. found = Some x \<longrightarrow> credited (tabs w) x \<and> po_no x = trim_space no) \<Longrightarrow> Q found w'"
    and "\<And>e w'. tabs w' = tabs w \<Longrightarrow> (\<forall>t. seqs w t \<le> seqs w' t) \<Longrightarrow> E e w'"
  shows "wp (find_paid s acc no) Q E w"
  using reads(1) [of acc no] found [of acc no w] assms
  by (auto simp: wp_def frame_def steps_def split: prod.split sum.split dest!: spec [where x = w])

lemma wp_create_invoice:
  assumes "billed w" "credited (tabs w) (billed_order row)" "header_ok (inv_header row)" "inv_issued row"
  shows "wp (create_invoice row) (\<lambda>i w'. billed w'
    \<and> invoices (d_invoice (tabs w')) = invoices (d_invoice (tabs w)) @ [row\<lparr>inv_id := i\<rparr>]) (\<lambda>_ _. True) w"
proof -
  let ?is = "invoices (d_invoice (tabs w))" and ?n = "Suc (seqs w Invoices)"
  let ?q = "(seqs w)(Invoices := ?n)" and ?row = "row\<lparr>inv_id := ?n\<rparr>"
  have ok: "invoices_ok (seqs w) ?is" "\<forall>i \<in> set ?is. credited (tabs w) (billed_order i)"
    using assms(1) by (simp_all add: billing_ok_def)
  have "invoices_ok ?q (?is @ [?row])"
    if "\<forall>i \<in> set ?is. inv_no i \<noteq> inv_no row \<and> inv_out_trade_no i \<noteq> inv_out_trade_no row"
    using ok(1) that assms(3,4) unfolding invoices_ok_def by (auto simp: le_Suc_eq)
  moreover have "credited (upd_invoices (\<lambda>is. is @ [?row]) (tabs w)) (billed_order i)" if "i \<in> set (?is @ [?row])" for i
    using ok(2) that assms(2) by (auto simp: independent billed_order_def)
  ultimately show ?thesis
    unfolding create_invoice_def by (simp add: wp_create Let_def billing_ok_def)
qed

lemma wp_issue_tx:
  assumes "billed w" "credited (tabs w) order" "header_ok header"
  shows "wp (issue_tx acc header order now)
    (\<lambda>_ w'. billed w' \<and> (\<exists>i. billed_order i = order \<and> inv_header i = header
       \<and> invoices (d_invoice (tabs w')) = invoices (d_invoice (tabs w)) @ [i]))
    (\<lambda>_ _. True) w"
proof -
  let ?is = "invoices (d_invoice (tabs w))"
  let ?u = "\<lambda>u. billed u \<and> credited (tabs u) order \<and> invoices (d_invoice (tabs u)) = ?is"
  let ?find = "find (\<lambda>i. inv_out_trade_no i = po_no order) ?is"
  let ?row = "\<lambda>no. issued_row (blank_invoice\<lparr>inv_created := now\<rparr>) no header order now"
  have row: "billed_order (?row no) = order" "inv_header (?row no) = header" "inv_issued (?row no)" "inv_id (?row no) = 0" for no
    by (simp_all add: issued_row_def apply_header_def billed_order_def blank_invoice_def)
  have "wp (upsert_profile p) (\<lambda>_. ?u) (\<lambda>_ _. True) w" for p
    using assms by (auto simp: upsert_profile_def wp_rules billing_ok_def independent)
  then show ?thesis
    unfolding issue_tx_def
  proof (rule wp_and_then)
    fix u :: "db world" assume u: "?u u"
    have create: "wp (create_invoice (?row no)) (\<lambda>i w'. billed w'
       \<and> invoices (d_invoice (tabs w')) = ?is @ [(?row no)\<lparr>inv_id := i\<rparr>]) (\<lambda>_ _. True) v"
      if "tabs v = tabs u" "seqs v = seqs u" for v no
      using wp_create_invoice [of v "?row no"] that u row assms(3) by simp
    show "wp (bnd (find_by_out_trade_no (po_no order)) (\<lambda>found.
     fail_if (case found of None \<Rightarrow> False | Some i \<Rightarrow> inv_issued i) ErrAlreadyIssued (
     let row = (case found of None \<Rightarrow> blank_invoice\<lparr>inv_created := now\<rparr> | Some i \<Rightarrow> i) in
     bnd (new_invoice_no now) (\<lambda>no.
     let issued = issued_row row no header order now in
     if inv_id issued = 0 then bnd (create_invoice issued) (\<lambda>_. ret ()) else save_invoice issued))))
     (\<lambda>_ w'. billed w' \<and> (\<exists>i. billed_order i = order \<and> inv_header i = header
       \<and> invoices (d_invoice (tabs w')) = ?is @ [i])) (\<lambda>_ _. True) u"
    proof (cases ?find)
      case None
      have b: "billed_order ((?row no)\<lparr>inv_id := i\<rparr>) = order" "inv_header ((?row no)\<lparr>inv_id := i\<rparr>) = header" for no i
        using row [of no] by (simp_all add: billed_order_def)
      have ext: "wp (create_invoice (?row no)) (\<lambda>i w'. wp (ret ()) (\<lambda>_ w'. billed w' \<and> (\<exists>i. billed_order i = order
        \<and> inv_header i = header \<and> invoices (d_invoice (tabs w')) = ?is @ [i])) (\<lambda>_ _. True) w') (\<lambda>_ _. True) v"
        if "tabs v = tabs u" "seqs v = seqs u" for v no
        by (rule wp_mono [OF create [OF that]]) (use b in \<open>auto simp: wp_rules\<close>)
      show ?thesis
        using None u row ext
        by (simp add: find_by_out_trade_no_def new_invoice_no_def wp_rules Let_def split: option.split)
    next
      case (Some i)
      then have "inv_issued i" using u find_Some_in [OF Some] by (auto simp: billing_ok_def invoices_ok_def)
      then show ?thesis using u Some by (simp add: find_by_out_trade_no_def wp_rules)
    qed
  qed
qed

definition issued_now :: "(rune \<Rightarrow> rune) \<Rightarrow> (rune \<Rightarrow> rune) \<Rightarrow> nat \<Rightarrow> gostr \<Rightarrow> header \<Rightarrow> db \<Rightarrow> db world \<Rightarrow> bool" where
  "issued_now lo up acc trade_no req d w' \<longleftrightarrow> billed w' \<and> (\<exists>i. normalize_header lo up req = Inr (inv_header i)
     \<and> credited d (billed_order i) \<and> inv_account i = acc \<and> inv_out_trade_no i = trim_space trade_no
     \<and> invoices (d_invoice (tabs w')) = invoices (d_invoice d) @ [i])"

lemma wp_apply_invoice:
  assumes "billed w"
  shows "wp (apply_invoice lo up s acc trade_no req)
    (\<lambda>_. issued_now lo up acc trade_no req (tabs w))
    (\<lambda>_ w'. tabs w' = tabs w \<and> (\<forall>t. seqs w t \<le> seqs w' t) \<or> issued_now lo up acc trade_no req (tabs w) w') w"
    (is "wp _ (\<lambda>_. ?I) ?E w")
proof (cases "normalize_header lo up req")
  case (Inl e)
  with assms show ?thesis by (simp add: apply_invoice_def wp_rules)
next
  case (Inr h)
  have "header_ok h" by (rule normalize_headerD [OF Inr])
  have tx: "wp (transaction (issue_tx acc h order now)) (\<lambda>_. wp (find_by_out_trade_no (po_no order)) (\<lambda>_. ?I) ?E) ?E v"
    if v: "tabs v = tabs w" "\<forall>t. seqs w t \<le> seqs v t" "credited (tabs w) order \<and> po_no order = trim_space trade_no"
      "po_account order = acc" for order now v
  proof -
    have bv: "billed v" using assms v billing_ok_mono by simp
    have "wp (issue_tx acc h order now) (\<lambda>_ w'. billed w' \<and> (\<exists>i. billed_order i = order \<and> inv_header i = h
       \<and> invoices (d_invoice (tabs w')) = invoices (d_invoice (tabs v)) @ [i])) (\<lambda>_ _. True) (next_stmt v)"
      using wp_issue_tx [of "next_stmt v" order h acc now] bv v \<open>header_ok h\<close> by simp
    then have "wp (issue_tx acc h order now) (\<lambda>_ w'. wp (find_by_out_trade_no (po_no order)) (\<lambda>_. ?I) ?E (next_stmt w'))
        (\<lambda>_ _. True) (next_stmt v)"
      by (rule wp_mono) (use v Inr in \<open>auto simp: find_by_out_trade_no_def wp_rules issued_now_def billed_order_def\<close>)
    then show ?thesis
      by (rule wp_mono [OF wp_transaction_or [OF _ grows_issue]]) (use v in \<open>auto intro: order_trans\<close>)
  qed
  have tx': "wp (if po_account order \<noteq> acc then throw ErrPaidOrderNotFound else bnd read_now (\<lambda>now.
      bnd (transaction (issue_tx acc h order now)) (\<lambda>_. find_by_out_trade_no (po_no order)))) (\<lambda>_. ?I) ?E v"
    if v: "tabs v = tabs w" "\<forall>t. seqs w t \<le> seqs v t" "credited (tabs w) order \<and> po_no order = trim_space trade_no" for order v
    using v tx [of "v\<lparr>ticks := Suc (ticks v)\<rparr>" order] by (auto simp: wp_rules)
  have "wp (find_paid s acc (trim_space trade_no)) (\<lambda>found. wp (case found of None \<Rightarrow> throw ErrPaidOrderNotFound
      | Some order \<Rightarrow> if po_account order \<noteq> acc then throw ErrPaidOrderNotFound else bnd read_now (\<lambda>now.
      bnd (transaction (issue_tx acc h order now)) (\<lambda>_. find_by_out_trade_no (po_no order)))) (\<lambda>_. ?I) ?E) ?E w"
  proof (rule wp_find_paid)
    fix found and w' :: "db world" assume w': "tabs w' = tabs w" "\<forall>t. seqs w t \<le> seqs w' t"
      "\<forall>x. found = Some x \<longrightarrow> credited (tabs w) x \<and> po_no x = trim_space (trim_space trade_no)"
    show "wp (case found of None \<Rightarrow> throw ErrPaidOrderNotFound
      | Some order \<Rightarrow> if po_account order \<noteq> acc then throw ErrPaidOrderNotFound else bnd read_now (\<lambda>now.
      bnd (transaction (issue_tx acc h order now)) (\<lambda>_. find_by_out_trade_no (po_no order)))) (\<lambda>_. ?I) ?E w'"
    proof (cases found)
      case None
      with w' show ?thesis by (simp add: wp_basic)
    next
      case (Some order)
      with w' have o: "credited (tabs w) order \<and> po_no order = trim_space trade_no" by simp
      show ?thesis unfolding Some option.case by (rule tx' [OF w'(1,2) o])
    qed
  qed simp
  then show ?thesis by (simp add: apply_invoice_def Inr wp_bnd wp_basic)
qed

lemma issued_now_billed: "issued_now lo up acc trade_no req d w' \<Longrightarrow> billed w' \<and> issued_more d (tabs w')"
  by (auto simp: issued_now_def issued_more_def)

lemma keeps_apply_invoice [rel_rules]: "steps keeps_billing (apply_invoice lo up s acc trade_no req)"
proof (rule billing.always)
  fix w :: "db world" assume "holds (\<lambda>d. d) billing_ok w"
  then have w: "billed w" by (simp add: holds_def)
  show "wp (apply_invoice lo up s acc trade_no req)
      (\<lambda>_ w'. holds (\<lambda>d. d) billing_ok w' \<and> issued_more (tabs w) (tabs w'))
      (\<lambda>_ w'. holds (\<lambda>d. d) billing_ok w' \<and> issued_more (tabs w) (tabs w')) w"
    by (rule wp_mono [OF wp_apply_invoice [OF w]])
      (use w billing_ok_mono in \<open>auto simp: holds_def issued_more_def [of "tabs w" "tabs w"] dest: issued_now_billed\<close>)
next
  show "steps grows (apply_invoice lo up s acc trade_no req)"
  proof -
    have "steps grows (find_paid s acc no)" for no using reads(1) [of acc no] by (simp add: steps_def frame_def)
    then show ?thesis unfolding apply_invoice_def by (intro rel_rules) simp_all
  qed
qed

text \<open>A second invoice for an order is never issued.\<close>

lemma apply_invoice_again:
  assumes "billed w" "i \<in> set (invoices (d_invoice (tabs w)))" "inv_out_trade_no i = trim_space trade_no"
    "apply_invoice lo up s acc trade_no req w = (r, w')"
  shows "tabs w' = tabs w \<and> (\<exists>e. r = Inl e)"
proof -
  have no: "\<not> issued_now lo up acc trade_no req (tabs w) w'"
    using assms(2,3) by (auto simp: issued_now_def billing_ok_def invoices_ok_def image_iff; metis)
  with wp_apply_invoice [OF assms(1), of lo up acc trade_no req] assms(4) show ?thesis
    by (cases r) (auto simp: wp_def)
qed

end

section \<open>The wallet provides paid orders\<close>

definition wallet_credited :: "db \<Rightarrow> paid_order \<Rightarrow> bool" where
  "wallet_credited d x \<longleftrightarrow> (\<exists>o' \<in> set (orders (d_wallet d)). ord_status o' = OrderPaid \<and> ord_no o' = po_no x
     \<and> ord_account o' = po_account x \<and> ord_yuan o' = po_yuan x \<and> ord_coins o' = po_coins x \<and> ord_bonus o' = po_bonus x)"

lemma find_paid_wallet:
  assumes "find_paid orders_from_wallet acc no w = (Inr (Some x), w')"
  shows "wallet_credited (tabs w) x \<and> po_no x = trim_space no"
proof -
  have "wp (find_paid orders_from_wallet acc no) (\<lambda>r w'. \<forall>x. r = Some x \<longrightarrow> wallet_credited (tabs w) x \<and> po_no x = trim_space no)
      (\<lambda>_ _. True) w"
    using find_Some_in [of _ "orders (wallet_of w)"]
    by (fastforce simp: orders_from_wallet_def find_paid_recharge_def wp_rules Let_def wallet_credited_def
        paid_from_wallet_def paid_from_order_def)
  from wp_ok [OF this assms] show ?thesis by simp
qed

interpretation wallet_orders: paid_orders orders_from_wallet wallet_credited
proof
  show "steps (frame (\<lambda>d. d)) (find_paid orders_from_wallet acc no)"
    "steps (frame (\<lambda>d. d)) (list_paid orders_from_wallet acc l m)" for acc no l m
    unfolding orders_from_wallet_def find_paid_recharge_def list_paid_recharges_def Let_def case_prod_beta paid_order_store.simps
    by (intro rel_rules)+
qed (auto simp: wallet_credited_def dest: find_paid_wallet)

end
