(* ===== verification/Wallet_Payments.thy ===== *)
theory Wallet_Payments
  imports Wallet_Spending
begin

text \<open>
  Payments: what a credited order does, once, whatever is replayed; when crediting succeeds; what
  an unsigned webhook can do; what the sweeper leaves; and the amount strings exchanged with the
  provider. The example world has one order of thirty yuan, opened at a provider that answers
  every query with one paid session.
\<close>

section \<open>An example order\<close>

definition demo_session :: checkout where
  "demo_session = \<lparr>sc_session = lit ''cs'', sc_url = lit ''u'', sc_status = lit ''paid'', sc_ref = lit ''pi'',
     sc_amount = 3000, sc_currency = []\<rparr>"

definition demo_no :: gostr where
  "demo_no = lit ''WR'' @ dec_nat 1 @ dec 1700000000 @ hex_bytes 8 0"

definition demo_gateway :: gateway where
  "demo_gateway = \<lparr>gw_create = (\<lambda>_ _. Inr demo_session), gw_query = (\<lambda>_. Inr demo_session),
     gw_verify = (\<lambda>_ _ _ _. Inr \<lparr>se_type = lit ''checkout.session.completed'', se_checkout = demo_session,
       se_out_trade_no = demo_no\<rparr>)\<rparr>"

definition demo_ordered :: "db world" where
  "demo_ordered = snd (create_recharge id (Some demo_gateway) 1 30 [] demo_start)"

definition demo_order :: recharge_order where
  "demo_order = (new_order 1 demo_no 30 300 30 (lit ''stripe'') (1700000000 * Second))
     \<lparr>ord_id := 1, ord_session := lit ''cs''\<rparr>"

lemma demo_ordered_reachable: "wallet_reachable demo_ordered"
  unfolding demo_ordered_def by (rule reachable_step [OF demo_start_reachable step_recharge])

lemma demo_ordered_orders: "orders (wallet_of demo_ordered) = [demo_order]" "reliable demo_ordered"
  by (simp_all add: demo_ordered_def demo_order_def demo_gateway_def demo_start_def demo_no_def demo_session_def run_tx
      create_recharge_def resolve_recharge_def rechargePackages_def YuanToCoins_def wrap64_def normalize_pay_method_def
      new_out_trade_no_def place_order_def recharge_tx_def pending_orders_def close_orders_def start_checkout_def
      update_order_def new_order_def trim_space_def to_lower_def PayMethodStripe_def push_order_def put_order_def
      unix_def reliable_def)

section \<open>When a payment is credited\<close>

lemma wp_reliable_update: "reliable w \<Longrightarrow> wp (update_order i f) (\<lambda>_. reliable) (\<lambda>_ _. False) w"
  by (simp add: update_order_def wp_rules)

lemma wp_reliable_credit_tx:
  assumes "reliable w"
  shows "wp (credit_tx no trade yuan)
    (\<lambda>_ w'. reliable w' \<and> (\<exists>x. order_of no (wallet_of w) = Some x \<and> (ord_status x = OrderPaid \<or> ord_yuan x = yuan)))
    (\<lambda>e _. case order_of no (wallet_of w) of None \<Rightarrow> e = ErrOrderNotFound
       | Some x \<Rightarrow> e = ErrNotifyInvalid \<and> ord_status x \<noteq> OrderPaid \<and> ord_yuan x \<noteq> yuan) w"
proof (cases "order_of no (wallet_of w)")
  case None
  then show ?thesis using assms by (simp add: credit_tx_def find_order_def wp_rules)
next
  case (Some x)
  have grant: "wp (grant_in_tx acc src a biz rt rid) Q E v"
    if "reliable v" "\<And>y u. reliable u \<Longrightarrow> Q y u" for acc src a biz rt rid Q v
      and E :: "err \<Rightarrow> db world \<Rightarrow> bool"
    by (rule wp_mono [OF wp_reliable_ledger(3) [OF that(1)]]) (use that(2) in simp_all)
  show ?thesis
    using assms Some
    by (auto simp: credit_tx_def find_order_def wp_bnd wp_if wp_basic wp_stmt
        intro!: grant wp_mono [OF wp_reliable_update])
qed

lemma wp_credit_paid:
  assumes "i64 yuan"
  shows "wp (credit_paid no trade (format_yuan yuan)) Q E w = wp (transaction (credit_tx no trade yuan)) Q E w"
  using assms by (simp add: credit_paid_def wp_bnd wp_basic parse_format_yuan)

lemma credit_answer:
  assumes "reliable w" "i64 yuan"
  shows "fst (credit_paid no trade (format_yuan yuan) w) = (case order_of no (wallet_of w) of
      None \<Rightarrow> Inl ErrOrderNotFound
    | Some x \<Rightarrow> if ord_status x \<noteq> OrderPaid \<and> ord_yuan x \<noteq> yuan then Inl ErrNotifyInvalid else Inr ())"
proof -
  let ?spec = "\<lambda>r. r = (case order_of no (wallet_of w) of None \<Rightarrow> Inl ErrOrderNotFound
    | Some x \<Rightarrow> if ord_status x \<noteq> OrderPaid \<and> ord_yuan x \<noteq> yuan then Inl ErrNotifyInvalid else Inr ())"
  have "wp (credit_tx no trade yuan) (\<lambda>y u. reliable u \<and> ?spec (Inr y)) (\<lambda>e u. ?spec (Inl e)) (next_stmt w)"
    by (rule wp_mono [OF wp_reliable_credit_tx [of "next_stmt w" no trade yuan]])
      (use assms(1) in \<open>auto split: option.splits\<close>)
  then have "wp (transaction (credit_tx no trade yuan)) (\<lambda>y u. ?spec (Inr y)) (\<lambda>e u. ?spec (Inl e)) w"
    using assms(1) unfolding wp_transaction by (auto elim!: wp_mono)
  then have "wp (credit_paid no trade (format_yuan yuan)) (\<lambda>y u. ?spec (Inr y)) (\<lambda>e u. ?spec (Inl e)) w"
    using assms(2) by (simp add: wp_credit_paid)
  then show ?thesis by (auto simp: wp_def split: prod.splits sum.splits)
qed

text \<open>When the database answers, crediting a payment fails exactly if there is no such order or
  the amount is not the order's; a paid order and one closed in the meantime are accepted.\<close>

lemma payment_accepted_iff:
  assumes "reliable w" "i64 yuan"
  shows "fst (credit_paid no trade (format_yuan yuan) w) = (case order_of no (wallet_of w) of
      None \<Rightarrow> Inl ErrOrderNotFound
    | Some x \<Rightarrow> if ord_status x \<noteq> OrderPaid \<and> ord_yuan x \<noteq> yuan then Inl ErrNotifyInvalid else Inr ())"
  by (rule credit_answer [OF assms])

theorem payment_accepted_iff_witness:
  "fst (credit_paid demo_no [] (format_yuan 30) demo_ordered) = Inr ()
    \<and> fst (credit_paid demo_no [] (format_yuan 29) demo_ordered) = Inl ErrNotifyInvalid"
  using payment_accepted_iff [OF demo_ordered_orders(2), of 30 demo_no] payment_accepted_iff [OF demo_ordered_orders(2), of 29 demo_no]
  by (simp add: order_of_def demo_ordered_orders(1) demo_order_def new_order_def i64_def)

section \<open>What crediting does\<close>

lemma pays_balance:
  assumes "pays x trade now t t'"
  shows "ledger_sum (\<lambda>e. led_account e = a) t' = ledger_sum (\<lambda>e. led_account e = a) t
      + (if a = ord_account x then max 0 (ord_coins x) + max 0 (ord_bonus x) else 0)"
    and "orders t' = update_where (\<lambda>y. ord_id y = ord_id x) (pay_row trade now) (orders t)"
proof -
  obtain t1 where p1: "posted (rows_at (order_key x LedgerGrantRecharge)) (max 0 (ord_coins x)) (put_order (ord_id x) (pay_row trade now) t) t1"
    and p2: "posted (rows_at (order_key x LedgerGrantRechargeBonus)) (max 0 (ord_bonus x)) t1 t'"
    using assms by (auto simp: pays_def)
  show "ledger_sum (\<lambda>e. led_account e = a) t' = ledger_sum (\<lambda>e. led_account e = a) t
      + (if a = ord_account x then max 0 (ord_coins x) + max 0 (ord_bonus x) else 0)"
    using ledger_balance_change [OF p1, of "ord_account x" a] ledger_balance_change [OF p2, of "ord_account x" a]
    by (simp add: rows_at_def order_key_def)
  show "orders t' = update_where (\<lambda>y. ord_id y = ord_id x) (pay_row trade now) (orders t)"
    using posted_rest [OF p1] posted_rest [OF p2] by simp
qed

definition credit_effect :: "gostr \<Rightarrow> int \<Rightarrow> wallet_tables \<Rightarrow> wallet_tables \<Rightarrow> bool" where
  "credit_effect no yuan t t' \<longleftrightarrow> (\<exists>x. order_of no t = Some x \<and>
     (if ord_status x = OrderPaid then t' = t else ord_yuan x = yuan
       \<and> (\<forall>a. balance a t' = balance a t + (if a = ord_account x then max 0 (ord_coins x) + max 0 (ord_bonus x) else 0))
       \<and> (\<exists>y \<in> set (orders t'). order_step x y \<and> ord_status y = OrderPaid)))"

lemma credited_effect:
  assumes "credited no trade yuan t t'" "books_ok n t" "books_ok n' t'"
  shows "credit_effect no yuan t t'"
proof -
  obtain x where x: "order_of no t = Some x" "ord_status x = OrderPaid \<and> t' = t
      \<or> ord_status x \<noteq> OrderPaid \<and> ord_yuan x = yuan \<and> (\<exists>now. pays x trade now t t')"
    using assms(1) by (auto simp: credited_def)
  show ?thesis
  proof (cases "ord_status x = OrderPaid")
    case True
    with x show ?thesis by (simp add: credit_effect_def)
  next
    case False
    then obtain now where p: "pays x trade now t t'" "ord_yuan x = yuan" using x(2) by blast
    have "pay_row trade now x \<in> set (orders t')"
      using in_update_where [of x "orders t" "\<lambda>y. ord_id y = ord_id x" "pay_row trade now"] order_ofD [OF x(1)]
      by (simp add: pays_balance(2) [OF p(1)])
    then have "\<exists>y \<in> set (orders t'). order_step x y \<and> ord_status y = OrderPaid"
      by (intro bexI [of _ "pay_row trade now x"]) (simp_all add: order_step_def pay_row_def)
    then show ?thesis
      using x(1) False p(2) pays_balance(1) [OF p(1)]
      by (auto simp: credit_effect_def balance_ledger [OF assms(2)] balance_ledger [OF assms(3)])
  qed
qed

lemma wp_credit_effect:
  assumes "sound w"
  shows "wp (credit_paid no trade amount) (\<lambda>_ w'. sound w' \<and> (\<exists>yuan. parse_yuan_amount amount = Inr yuan
     \<and> credit_effect no yuan (wallet_of w) (wallet_of w'))) (\<lambda>_ w'. tabs w' = tabs w) w"
proof -
  have "wp (transaction (credit_tx no trade yuan)) (\<lambda>_ w'. sound w' \<and> credit_effect no yuan (wallet_of w) (wallet_of w'))
      (\<lambda>_ w'. tabs w' = tabs w) w" for yuan
  proof (rule wp_transactionI [OF wp_mono [OF wp_credit_tx]])
    fix y w'
    assume w': "sound w' \<and> credited no trade yuan (wallet_of (next_stmt w)) (wallet_of w')"
    then show "sound (next_stmt w') \<and> credit_effect no yuan (wallet_of w) (wallet_of (next_stmt w'))"
      using credited_effect [of no trade yuan "wallet_of w" "wallet_of w'"] wallet_ok_parts(1) [OF assms]
        wallet_ok_parts(1) [of "seqs w'" "wallet_of w'"] by simp
  qed (use assms in simp_all)
  then show ?thesis by (auto simp: credit_paid_def wp_bnd wp_basic split: sum.split elim!: wp_mono)
qed

lemma demo_notified:
  "\<exists>w'. handle_stripe_notify (Some demo_gateway) [] [] demo_ordered = (Inr (), w')
     \<and> credit_effect demo_no 30 (wallet_of demo_ordered) (wallet_of w')"
proof -
  let ?w = "next_stmt (demo_ordered\<lparr>ticks := Suc (Suc (ticks demo_ordered))\<rparr>)"
  have find: "order_of demo_no (wallet_of demo_ordered) = Some demo_order"
    by (simp add: order_of_def demo_ordered_orders(1) demo_order_def new_order_def)
  let ?trade = "first_non_empty [lit ''pi'', lit ''cs'']"
  have run: "handle_stripe_notify (Some demo_gateway) [] [] demo_ordered = credit_paid demo_no ?trade (format_yuan 30) ?w"
    using demo_ordered_orders(2) find
    by (simp add: handle_stripe_notify_def demo_gateway_def demo_session_def stripe_paid_def credit_stripe_def find_order_def
        bnd_def read_now_def lift_def query_def wrap64_def demo_order_def new_order_def del: first_non_empty.simps)
  have "fst (credit_paid demo_no ?trade (format_yuan 30) ?w) = Inr ()"
    using credit_answer [of ?w 30 demo_no ?trade] demo_ordered_orders(2) find
    by (simp add: i64_def demo_order_def new_order_def)
  then obtain w' where w': "credit_paid demo_no ?trade (format_yuan 30) ?w = (Inr (), w')"
    by (metis prod.collapse)
  then show ?thesis
    using wp_ok [OF wp_credit_effect w'] reachable_sound [OF demo_ordered_reachable] run
    by (auto simp: parse_format_yuan i64_def)
qed

text \<open>A credited payment of an order that was not paid yet marks it paid and adds its coins and
  its bonus to the balance of its account, and to no other; a payment of a paid order changes
  nothing.\<close>

lemma payment_effect:
  assumes "wallet_reachable w" "credit_paid no trade amount w = (Inr (), w')"
  shows "\<exists>x. order_of no (wallet_of w) = Some x \<and>
     (if ord_status x = OrderPaid then wallet_of w' = wallet_of w
      else parse_yuan_amount amount = Inr (ord_yuan x)
       \<and> (\<forall>a. balance a (wallet_of w') = balance a (wallet_of w)
            + (if a = ord_account x then max 0 (ord_coins x) + max 0 (ord_bonus x) else 0))
       \<and> (\<exists>y \<in> set (orders (wallet_of w')). order_step x y \<and> ord_status y = OrderPaid))"
  using wp_ok [OF wp_credit_effect [OF reachable_sound [OF assms(1)]] assms(2)]
  by (auto simp: credit_effect_def split: if_splits)

definition demo_paid :: "db world" where
  "demo_paid = snd (handle_stripe_notify (Some demo_gateway) [] [] demo_ordered)"

lemma demo_paid_reachable: "wallet_reachable demo_paid"
  unfolding demo_paid_def by (rule reachable_step [OF demo_ordered_reachable step_notify])

lemma demo_order_sel [simp]:
  "ord_account demo_order = 1" "ord_no demo_order = demo_no" "ord_yuan demo_order = 30" "ord_coins demo_order = 300"
  "ord_bonus demo_order = 30" "ord_status demo_order = OrderPending" "order_of demo_no (wallet_of demo_ordered) = Some demo_order"
  by (simp_all add: demo_order_def new_order_def order_of_def demo_ordered_orders(1))

lemma demo_paid_order: "\<exists>y \<in> set (orders (wallet_of demo_paid)). order_step demo_order y \<and> ord_status y = OrderPaid"
  using demo_notified by (auto simp: credit_effect_def demo_paid_def)

lemma demo_credit:
  obtains w' where "credit_paid demo_no [] (format_yuan 30) demo_ordered = (Inr (), w')"
proof -
  have "fst (credit_paid demo_no [] (format_yuan 30) demo_ordered) = Inr ()"
    using credit_answer [OF demo_ordered_orders(2), of 30 demo_no "[]"] by (simp add: i64_def)
  then show ?thesis using that by (metis prod.collapse)
qed

theorem payment_effect_witness:
  "\<exists>w'. credit_paid demo_no [] (format_yuan 30) demo_ordered = (Inr (), w')
     \<and> balance 1 (wallet_of w') = balance 1 (wallet_of demo_ordered) + 330"
proof -
  obtain w' where run: "credit_paid demo_no [] (format_yuan 30) demo_ordered = (Inr (), w')" by (rule demo_credit)
  then show ?thesis using payment_effect [OF demo_ordered_reachable run] by auto
qed

text \<open>C5 A recharge order is credited exactly once, and only when it is paid: at all times the ledger
  shows, under the order's number, its coins and its bonus if the order is paid and nothing
  otherwise.\<close>

theorem recharge_credited_once:
  assumes "wallet_reachable w" "x \<in> set (orders (wallet_of w))"
  shows "ledger_sum (rows_at (order_key x LedgerGrantRecharge)) (wallet_of w)
      = (if ord_status x = OrderPaid then max 0 (ord_coins x) else 0)
    \<and> ledger_sum (rows_at (order_key x LedgerGrantRechargeBonus)) (wallet_of w)
      = (if ord_status x = OrderPaid then max 0 (ord_bonus x) else 0)"
proof -
  have ok: "sound w" by (rule reachable_sound [OF assms(1)])
  have "ledger_sum (rows_at (order_key x b)) (wallet_of w) = order_due (order_key x b) x"
    if "b \<in> {LedgerGrantRecharge, LedgerGrantRechargeBonus}" for b
    using vouched_at [OF ok, of "order_key x b"] owed_order [OF wallet_ok_parts(3) [OF ok] assms(2) that] that
    by (auto simp: accounted_def order_key_def)
  then show ?thesis by (simp add: order_due_def order_key_def)
qed

theorem recharge_credited_once_witness:
  "\<exists>y \<in> set (orders (wallet_of demo_paid)). ledger_sum (rows_at (order_key y LedgerGrantRecharge)) (wallet_of demo_paid) = 300
     \<and> ledger_sum (rows_at (order_key y LedgerGrantRechargeBonus)) (wallet_of demo_paid) = 30"
proof -
  obtain y where y: "y \<in> set (orders (wallet_of demo_paid))" "order_step demo_order y" "ord_status y = OrderPaid"
    using demo_paid_order by blast
  then have "ord_coins y = 300" "ord_bonus y = 30" by (simp_all add: order_step_def)
  with recharge_credited_once [OF demo_paid_reachable y(1)] y show ?thesis by (intro bexI [of _ y]) simp_all
qed

lemma order_of_unique:
  "unique_ok q t \<Longrightarrow> x \<in> set (orders t) \<Longrightarrow> order_of (ord_no x) t = Some x"
proof -
  assume "unique_ok q t" "x \<in> set (orders t)"
  then have u: "distinct (map ord_no (orders t))" "x \<in> set (orders t)" by (simp_all add: unique_ok_def)
  show ?thesis
  proof (cases "order_of (ord_no x) t")
    case None
    then show ?thesis using u(2) find_None_all [of _ "orders t" x] by (auto simp: order_of_def)
  next
    case (Some y)
    then show ?thesis using order_ofD [OF Some] u distinct_map_inj_eq [OF u(1)] by auto
  qed
qed

lemma paid_stays:
  assumes "sound w" "x \<in> set (orders (wallet_of w))" "ord_status x = OrderPaid" "wallet_steps w w'"
  shows "\<exists>y. order_of (ord_no x) (wallet_of w') = Some y \<and> ord_status y = OrderPaid"
proof -
  have w': "sound w'" "history (wallet_of w) (wallet_of w')"
    using wallet_steps_keeps [OF assms(4)] assms(1) by (simp_all add: keeps_def)
  then obtain y where y: "y \<in> set (orders (wallet_of w'))" "order_step x y"
    using assms(2) by (auto simp: history_def)
  then have "ord_status y = OrderPaid" "ord_no y = ord_no x" using assms(3) by (auto simp: order_step_def)
  with order_of_unique [OF wallet_ok_parts(3) [OF w'(1)] y(1)] show ?thesis by auto
qed

text \<open>C10 Payments can be replayed: once a payment of an order has been credited, then after any
  further requests another payment notice for the order, whatever it says and whether it succeeds
  or fails, leaves the wallet as it is.\<close>

theorem payment_replay_safe:
  assumes "wallet_reachable w" "credit_paid no trade amount w = (Inr (), w1)" "wallet_steps w1 w2"
  shows "wallet_of (snd (credit_paid no trade' amount' w2)) = wallet_of w2"
proof -
  have ok: "sound w" "sound w1" "sound w2"
    using reachable_sound [OF assms(1)] wp_ok [OF wp_credit_effect assms(2)] wallet_steps_keeps [OF assms(3)]
    by (auto simp: keeps_def)
  obtain x y where x: "order_of no (wallet_of w) = Some x" "y \<in> set (orders (wallet_of w1))" "order_step x y" "ord_status y = OrderPaid"
    using wp_ok [OF wp_credit_effect [OF ok(1)] assms(2)] order_ofD
    by (fastforce simp: credit_effect_def split: if_splits)
  then have "ord_no y = no" using order_ofD [OF x(1)] by (simp add: order_step_def)
  then obtain z where z: "order_of no (wallet_of w2) = Some z" "ord_status z = OrderPaid"
    using paid_stays [OF ok(2) x(2,4) assms(3)] by auto
  have "wp (credit_paid no trade' amount') (\<lambda>_ u. wallet_of u = wallet_of w2) (\<lambda>_ u. wallet_of u = wallet_of w2) w2"
    by (rule wp_mono [OF wp_credit_effect [OF ok(3)]]) (auto simp: credit_effect_def z)
  then show ?thesis by (auto simp: wp_def split: prod.splits sum.splits)
qed

theorem payment_replay_safe_witness:
  "\<exists>w1. credit_paid demo_no [] (format_yuan 30) demo_ordered = (Inr (), w1)
     \<and> wallet_of (snd (credit_paid demo_no [] (format_yuan 30) w1)) = wallet_of w1"
proof -
  obtain w' where run: "credit_paid demo_no [] (format_yuan 30) demo_ordered = (Inr (), w')" by (rule demo_credit)
  then show ?thesis using payment_replay_safe [OF demo_ordered_reachable run steps_none] by blast
qed

section \<open>Webhooks\<close>

text \<open>A webhook whose signature header does not carry, under a timestamp within five minutes of
  the clock, the HMAC of the payload under the webhook secret is refused and changes nothing.\<close>

lemma webhook_needs_signature:
  assumes "clock w (ticks w) \<noteq> zero_time"
    and "\<not> (\<exists>ts sigs. header_parts (0, []) (split_at 44 header) = Some (ts, sigs)
      \<and> \<bar>clock w (ticks w) - ts * Second\<bar> \<le> 5 * Minute
      \<and> sign (cfg_webhook_secret cfg) (dec ts @ [46] @ payload) \<in> set sigs)"
  shows "fst (handle_stripe_notify (Some (stripe_gateway net url_set escape sign decode cfg)) payload header w) = Inl ErrNotifyInvalid
    \<and> tabs (snd (handle_stripe_notify (Some (stripe_gateway net url_set escape sign decode cfg)) payload header w)) = tabs w"
proof -
  let ?now = "clock w (ticks w)"
  have "verify_event sign decode cfg wall payload header ?now \<noteq> Inr ev" for wall ev
    using verify_event_signed [OF _ assms(1)] assms(2) by metis
  moreover have "verify_event sign decode cfg wall payload header ?now = Inl e \<Longrightarrow> e = ErrNotifyInvalid" for wall e
    by (auto simp: verify_event_def split: if_splits option.splits)
  ultimately have "verify_event sign decode cfg wall payload header ?now = Inl ErrNotifyInvalid" for wall
    by (metis sum.exhaust)
  then show ?thesis
    by (simp add: handle_stripe_notify_def stripe_gateway_def bnd_def read_now_def lift_def)
qed

theorem webhook_needs_signature_witness:
  "fst (handle_stripe_notify (Some (stripe_gateway (\<lambda>_ _ _. Inl ErrStripeCall) (\<lambda>_ _. None) id (\<lambda>k m. k @ m) (\<lambda>_. None)
      \<lparr>cfg_secret_key = lit ''sk'', cfg_webhook_secret = lit ''wh'', cfg_success_url = [], cfg_currency = []\<rparr>)) [1] [] demo_start)
    = Inl ErrNotifyInvalid"
  by (rule webhook_needs_signature [THEN conjunct1]) (simp_all add: demo_start_sel zero_time_def cut_def)

section \<open>The sweeper\<close>

lemma wp_sweep_expired:
  assumes "sound w"
  shows "wp (sweep_expired now) (\<lambda>done w'. done \<and> sound w' \<and> swept now (wallet_of w) (wallet_of w')) (\<lambda>_ _. True) w"
  using wp_sweep_rounds [OF assms, of now "Suc (expired_count now (wallet_of w))"]
  by (simp add: wp_def sweep_expired_def del: sweep_rounds.simps)

text \<open>C15 The sweep over expired lots, in rounds of a hundred, comes to an end: a sweep that no
  statement interrupts leaves no lot expired, and leaves to every account exactly the coins it
  could still spend.\<close>

theorem sweep_completes:
  assumes "wallet_reachable w" "sweep_expired now w = (Inr finished, w')"
  shows "finished \<and> (\<forall>l \<in> set (lots (wallet_of w')). \<not> expired now l)
    \<and> (\<forall>acc. balance acc (wallet_of w') = spendable acc now (wallet_of w))"
proof -
  have w': "finished" "sound w'" "swept now (wallet_of w) (wallet_of w')"
    using wp_ok [OF wp_sweep_expired [OF reachable_sound [OF assms(1)]] assms(2)] by auto
  then have none: "\<forall>l \<in> set (lots (wallet_of w')). \<not> expired now l"
    by (auto simp: swept_def expired_count_def filter_empty_conv)
  then have "balance acc (wallet_of w') = spendable acc now (wallet_of w)" for acc
    using spendable_balance [OF wallet_ok_parts(1) [OF w'(2)], of acc now] expired_due_none [of acc now "wallet_of w'"] w'(3)
    by (simp add: none_expired_def swept_def)
  with w'(1) none show ?thesis by blast
qed

theorem sweep_completes_witness:
  "\<exists>w'. sweep_expired (1800000000 * Second) demo_gift = (Inr True, w') \<and> balance 1 (wallet_of w') = 0"
proof -
  let ?run = "sweep_expired (1800000000 * Second) demo_gift"
  have "map_sum id id (fst ?run) = Inr True" by code_simp
  then have run: "?run = (Inr True, snd ?run)" by (cases "fst ?run") (simp_all add: prod_eq_iff)
  have "spendable 1 (1800000000 * Second) (wallet_of demo_gift) = 0" by code_simp
  then show ?thesis using sweep_completes [OF demo_gift_reachable run] run by auto
qed

definition order_due_at :: "instant \<Rightarrow> recharge_order \<Rightarrow> bool" where
  "order_due_at now x \<longleftrightarrow> ord_status x = OrderPending \<and> ord_expire x \<le> now"

text \<open>The sweep over orders closes pending orders past their expiry, a hundred at a time: when no
  more than a hundred are due none is left, no other order changes, and no coins move.\<close>

lemma sweep_closes_due_orders:
  assumes "wallet_reachable w" "sweep_expired_orders now w = (Inr (), w')"
    "length (filter (order_due_at now) (orders (wallet_of w))) \<le> 100"
  shows "orders (wallet_of w') = map (\<lambda>x. if order_due_at now x then close_row now x else x) (orders (wallet_of w))
    \<and> lots (wallet_of w') = lots (wallet_of w) \<and> ledgers (wallet_of w') = ledgers (wallet_of w)"
proof -
  let ?due = "take 100 (sort_key ord_id (filter (\<lambda>x. ord_status x = OrderPending \<and> ord_expire x \<le> now) (orders (wallet_of w))))"
  have ok: "sound w" by (rule reachable_sound [OF assms(1)])
  have "wp (sweep_expired_orders now) (\<lambda>_ u. wallet_of u = close_set now ?due (wallet_of w)) (\<lambda>_ _. True) w"
    unfolding sweep_expired_orders_def
    using wp_sweep_orders [of "next_stmt w" now] ok by (intro wp_transactionI) (auto elim!: wp_mono)
  then have w': "wallet_of w' = close_set now ?due (wallet_of w)" using assms(2) by (simp add: wp_def)
  have u: "distinct (map ord_id (orders (wallet_of w)))" using wallet_ok_parts(3) [OF ok] by (simp add: unique_ok_def)
  have "set ?due = {x \<in> set (orders (wallet_of w)). order_due_at now x}"
    using assms(3) by (auto simp: order_due_at_def [abs_def])
  then have "ord_id x \<in> ord_id ` set ?due \<longleftrightarrow> order_due_at now x" if "x \<in> set (orders (wallet_of w))" for x
    using that u by (auto dest: distinct_map_inj_eq [OF u])
  then show ?thesis
    by (simp add: w' close_set_def update_where_def del: set_take_subset)
qed

theorem sweep_closes_due_orders_witness:
  "\<exists>w'. sweep_expired_orders (1700003600 * Second) demo_ordered = (Inr (), w')
     \<and> map ord_status (orders (wallet_of w')) = [OrderClosed]"
proof -
  let ?run = "sweep_expired_orders (1700003600 * Second) demo_ordered"
  have due: "order_due_at (1700003600 * Second) demo_order"
    by (simp add: order_due_at_def demo_order_def new_order_def OrderTTL_def)
  have "fst ?run = Inr ()"
    using demo_ordered_orders(2)
    by (simp add: sweep_expired_orders_def due_pending_orders_def close_orders_def update_order_def demo_ordered_orders(1)
        transaction_def bnd_def query_def exec_def ret_def next_stmt_def)
  then have run: "?run = (Inr (), snd ?run)" by (simp add: prod_eq_iff)
  with sweep_closes_due_orders [OF demo_ordered_reachable run] due show ?thesis
    by (intro exI [of _ "snd ?run"]) (simp add: demo_ordered_orders(1))
qed

section \<open>New orders\<close>

definition superseded :: "nat \<Rightarrow> instant \<Rightarrow> recharge_order list \<Rightarrow> recharge_order list" where
  "superseded acc now os = map (\<lambda>y. if ord_account y = acc \<and> ord_status y = OrderPending then close_row now y else y) os"

lemma orders_superseded:
  assumes "distinct (map ord_id (orders t))"
  shows "orders (close_set now (filter (\<lambda>y. ord_account y = acc \<and> ord_status y = OrderPending) (orders t)) t)
     = superseded acc now (orders t)"
  unfolding close_set_def superseded_def update_where_def
  by (auto dest: distinct_map_inj_eq [OF assms])

lemma wp_start_checkout_orders:
  assumes "orders (wallet_of w) = os @ [order]" "ord_id order \<notin> ord_id ` set os"
  shows "wp (start_checkout g order now method) (\<lambda>r w'. ord_no (fst r) = ord_no order \<and> ord_account (fst r) = ord_account order
     \<and> ord_yuan (fst r) = ord_yuan order \<and> ord_coins (fst r) = ord_coins order \<and> ord_bonus (fst r) = ord_bonus order
     \<and> ord_status (fst r) = ord_status order \<and> orders (wallet_of w') = os @ [fst r]
     \<and> lots (wallet_of w') = lots (wallet_of w) \<and> ledgers (wallet_of w') = ledgers (wallet_of w)) (\<lambda>_ _. True) w"
proof -
  have "update_where (\<lambda>y. ord_id y = ord_id order) f os = os" for f
    using assms(2) by (intro update_where_none) (metis imageI)
  then show ?thesis
    using assms(1) by (auto simp: start_checkout_def update_order_def wp_rules Let_def split: sum.split)
qed

lemma wp_place_order:
  assumes "sound w" "ord_status order = OrderPending" "ord_account order = acc"
  shows "wp (place_order g acc order now method) (\<lambda>r w'. ord_no (fst r) = ord_no order \<and> ord_account (fst r) = acc
     \<and> ord_yuan (fst r) = ord_yuan order \<and> ord_coins (fst r) = ord_coins order \<and> ord_bonus (fst r) = ord_bonus order
     \<and> ord_status (fst r) = OrderPending \<and> ord_no order \<notin> ord_no ` set (orders (wallet_of w))
     \<and> orders (wallet_of w') = superseded acc now (orders (wallet_of w)) @ [fst r]
     \<and> lots (wallet_of w') = lots (wallet_of w) \<and> ledgers (wallet_of w') = ledgers (wallet_of w)) (\<lambda>_ _. True) w"
proof -
  have u: "distinct (map ord_id (orders (wallet_of w)))" using wallet_ok_parts(3) [OF assms(1)] by (simp add: unique_ok_def)
  have tx: "wp (transaction (recharge_tx acc order now))
      (\<lambda>i w'. recharge_started acc (order\<lparr>ord_id := i\<rparr>) now (wallet_of w) (wallet_of w')) (\<lambda>_ _. True) w"
    using wp_recharge_tx [of "next_stmt w" order acc now] assms by (intro wp_transactionI) (auto elim!: wp_mono)
  show ?thesis
    unfolding place_order_def
  proof (rule wp_and_then [OF tx])
    fix i w1
    assume s: "recharge_started acc (order\<lparr>ord_id := i\<rparr>) now (wallet_of w) (wallet_of w1)"
    let ?x = "order\<lparr>ord_id := i\<rparr>"
    have os: "orders (wallet_of w1) = superseded acc now (orders (wallet_of w)) @ [?x]"
      "lots (wallet_of w1) = lots (wallet_of w)" "ledgers (wallet_of w1) = ledgers (wallet_of w)"
      using s orders_superseded [OF u] by (simp_all add: recharge_started_def close_set_def)
    have ids: "ord_id (if b then close_row now y else y) = ord_id y" for b y by simp
    have "ord_id ?x \<notin> ord_id ` set (superseded acc now (orders (wallet_of w)))"
      using s unfolding recharge_started_def superseded_def set_map image_image ids by auto
    from wp_start_checkout_orders [OF os(1) this]
    show "wp (start_checkout g ?x now method) (\<lambda>r w'. ord_no (fst r) = ord_no order \<and> ord_account (fst r) = acc
     \<and> ord_yuan (fst r) = ord_yuan order \<and> ord_coins (fst r) = ord_coins order \<and> ord_bonus (fst r) = ord_bonus order
     \<and> ord_status (fst r) = OrderPending \<and> ord_no order \<notin> ord_no ` set (orders (wallet_of w))
     \<and> orders (wallet_of w') = superseded acc now (orders (wallet_of w)) @ [fst r]
     \<and> lots (wallet_of w') = lots (wallet_of w) \<and> ledgers (wallet_of w') = ledgers (wallet_of w)) (\<lambda>_ _. True) w1"
      by (rule wp_mono) (use assms s os(2,3) in \<open>auto simp: recharge_started_def\<close>)
  qed
qed

text \<open>A recharge that is accepted leaves exactly one pending order of the account, the one it
  answers: its number is new, its coins are ten per yuan and its bonus the package's, the account's
  earlier pending orders are closed, other orders stay, and no coins move.\<close>

lemma recharge_supersedes:
  assumes "wallet_reachable w" "create_recharge tab gw acc yuan raw w = (Inr (x, c), w')"
  shows "ord_status x = OrderPending \<and> ord_account x = acc \<and> ord_yuan x = yuan
    \<and> resolve_recharge yuan = Inr (ord_coins x, ord_bonus x)
    \<and> ord_no x \<notin> ord_no ` set (orders (wallet_of w))
    \<and> orders (wallet_of w') = superseded acc (clock w (ticks w)) (orders (wallet_of w)) @ [x]
    \<and> lots (wallet_of w') = lots (wallet_of w) \<and> ledgers (wallet_of w') = ledgers (wallet_of w)"
proof -
  have ok: "sound w" by (rule reachable_sound [OF assms(1)])
  have place: "wp (place_order g acc (new_order acc no yuan coins bonus how time) time how) (\<lambda>r w'. ord_no (fst r) = no
     \<and> ord_account (fst r) = acc \<and> ord_yuan (fst r) = yuan \<and> ord_coins (fst r) = coins \<and> ord_bonus (fst r) = bonus
     \<and> ord_status (fst r) = OrderPending \<and> no \<notin> ord_no ` set (orders (wallet_of w))
     \<and> orders (wallet_of w') = superseded acc time (orders (wallet_of w)) @ [fst r]
     \<and> lots (wallet_of w') = lots (wallet_of w) \<and> ledgers (wallet_of w') = ledgers (wallet_of w)) (\<lambda>_ _. True) v"
    if "wallet_of v = wallet_of w" "seqs v = seqs w" for g no coins bonus how time v
    using wp_place_order [of v "new_order acc no yuan coins bonus how time" acc g time how] that ok
    by (simp add: new_order_def)
  have "wp (create_recharge tab gw acc yuan raw) (\<lambda>r w'. resolve_recharge yuan = Inr (ord_coins (fst r), ord_bonus (fst r))
     \<and> ord_account (fst r) = acc \<and> ord_yuan (fst r) = yuan
     \<and> ord_status (fst r) = OrderPending \<and> ord_no (fst r) \<notin> ord_no ` set (orders (wallet_of w))
     \<and> orders (wallet_of w') = superseded acc (clock w (ticks w)) (orders (wallet_of w)) @ [fst r]
     \<and> lots (wallet_of w') = lots (wallet_of w) \<and> ledgers (wallet_of w') = ledgers (wallet_of w)) (\<lambda>_ _. True) w"
    by (auto simp: create_recharge_def new_out_trade_no_def wp_bnd wp_basic wp_prod wp_option wp_rand_read
        split: sum.split option.split prod.split intro!: wp_mono [OF place])
  from wp_ok [OF this assms(2)] show ?thesis by simp
qed

theorem recharge_supersedes_witness:
  "\<exists>x c w'. create_recharge id (Some demo_gateway) 1 30 [] demo_start = (Inr (x, c), w') \<and> ord_coins x = 300 \<and> ord_bonus x = 30
     \<and> orders (wallet_of w') = [x]"
proof -
  let ?run = "create_recharge id (Some demo_gateway) 1 30 [] demo_start"
  have "\<exists>x c. fst ?run = Inr (x, c)"
    by (simp add: demo_gateway_def demo_start_def run_tx
      create_recharge_def resolve_recharge_def rechargePackages_def YuanToCoins_def wrap64_def normalize_pay_method_def
      new_out_trade_no_def place_order_def recharge_tx_def pending_orders_def close_orders_def start_checkout_def
      update_order_def new_order_def trim_space_def to_lower_def)
  then obtain x c where run: "?run = (Inr (x, c), snd ?run)" by (metis prod.collapse)
  have "resolve_recharge 30 = Inr (300, 30)" by code_simp
  with recharge_supersedes [OF demo_start_reachable run] run show ?thesis
    by (intro exI [of _ x] exI [of _ c] exI [of _ "snd ?run"])
      (simp add: superseded_def demo_start_def quiet_world_def empty_db_def empty_wallet_def)
qed

section \<open>Amounts\<close>

text \<open>Every \<open>int64\<close> amount of yuan survives being written as an amount string and parsed back.\<close>

lemma yuan_round_trip: "i64 y \<Longrightarrow> parse_yuan_amount (format_yuan y) = Inr y"
  by (rule parse_format_yuan)

theorem yuan_round_trip_witness: "parse_yuan_amount (format_yuan (- 30)) = Inr (- 30)"
  by (rule yuan_round_trip) (simp add: i64_def)

definition unit_amount :: "gostr" where
  "unit_amount = lit ''line_items[0][price_data][unit_amount]''"

lemma checkout_form_amount:
  "(unit_amount, dec (wrap64 (cr_yuan req * 100))) \<in> set (checkout_form url_set cfg now req)"
  by (simp add: checkout_form_def unit_amount_def Let_def)

text \<open>Up to 92233720368547758 yuan the provider is asked for exactly a hundred cents per yuan, and
  the order grants ten coins per yuan and no more than 250 as a bonus.\<close>

lemma recharge_exact:
  assumes "1 \<le> yuan" "yuan \<le> 92233720368547758"
  shows "\<exists>bonus. resolve_recharge yuan = Inr (10 * yuan, bonus) \<and> 0 \<le> bonus \<and> bonus \<le> 250
    \<and> (unit_amount, dec (100 * yuan)) \<in> set (checkout_form url_set cfg now (req\<lparr>cr_yuan := yuan\<rparr>))"
proof -
  have "wrap64 (yuan * 10) = 10 * yuan" "wrap64 (yuan * 100) = 100 * yuan"
    using assms by (simp_all add: i64_def)
  then show ?thesis
    using assms checkout_form_amount [of "req\<lparr>cr_yuan := yuan\<rparr>"]
    by (auto simp: resolve_recharge_def rechargePackages_def YuanToCoins_def Let_def)
qed

theorem recharge_exact_witness: "resolve_recharge 128 = Inr (1280, 250)"
proof -
  obtain b where "resolve_recharge 128 = Inr (10 * 128, b)" using recharge_exact [of 128 undefined undefined undefined] by auto
  moreover have "map_sum id snd (resolve_recharge 128) = Inr 250" by code_simp
  ultimately show ?thesis by simp
qed

definition overflow_world :: "db world" where
  "overflow_world = quiet_world 0 (empty_db\<lparr>d_wallet := empty_wallet\<lparr>orders :=
     [new_order 1 (lit ''WR'') 737869762948382069 7378697629483820690 0 PayMethodStripe 0]\<rparr>\<rparr>)"

text \<open>C40 Beyond that bound the cents wrap around: an order of 737869762948382069 yuan grants
  7378697629483820690 coins, while the provider is asked for 436 cents and a payment of 436 cents
  is accepted for it.\<close>

theorem recharge_overflow:
  "resolve_recharge 737869762948382069 = Inr (7378697629483820690, 0)
    \<and> (unit_amount, dec 436) \<in> set (checkout_form url_set cfg now (req\<lparr>cr_yuan := 737869762948382069\<rparr>))
    \<and> fst (credit_stripe (lit ''WR'') (demo_session\<lparr>sc_amount := 436\<rparr>) overflow_world) = Inr ()"
proof (intro conjI)
  show "resolve_recharge 737869762948382069 = Inr (7378697629483820690, 0)"
    by (simp add: resolve_recharge_def rechargePackages_def YuanToCoins_def wrap64_def)
  have wrap: "wrap64 (737869762948382069 * 100) = 436" by (simp add: wrap64_def)
  then show "(unit_amount, dec 436) \<in> set (checkout_form url_set cfg now (req\<lparr>cr_yuan := 737869762948382069\<rparr>))"
    using checkout_form_amount [of "req\<lparr>cr_yuan := 737869762948382069\<rparr>"] by simp
  let ?x = "new_order 1 (lit ''WR'') 737869762948382069 7378697629483820690 0 PayMethodStripe 0"
  have find: "order_of (lit ''WR'') (wallet_of overflow_world) = Some ?x" and rel: "reliable overflow_world"
    by (simp_all add: overflow_world_def quiet_world_def order_of_def new_order_def reliable_def)
  let ?trade = "first_non_empty [sc_ref demo_session, sc_session demo_session]"
  have "credit_stripe (lit ''WR'') (demo_session\<lparr>sc_amount := 436\<rparr>) overflow_world
      = credit_paid (lit ''WR'') ?trade (format_yuan 737869762948382069) (next_stmt overflow_world)"
    using rel find by (simp add: credit_stripe_def find_order_def bnd_def query_def new_order_def wrap64_def del: first_non_empty.simps)
  then show "fst (credit_stripe (lit ''WR'') (demo_session\<lparr>sc_amount := 436\<rparr>) overflow_world) = Inr ()"
    using credit_answer [of "next_stmt overflow_world" 737869762948382069 "lit ''WR''" ?trade] rel find
    by (simp add: i64_def new_order_def del: first_non_empty.simps)
qed

end
