(* ===== verification/Invoice_Properties.thy ===== *)
theory Invoice_Properties
  imports Invoice Wallet_Payments
begin

text \<open>
  What the invoices guarantee together with the wallet. \<open>billing_step\<close> is one request to either,
  or anything that leaves both alone.
\<close>

section \<open>Requests\<close>

inductive billing_step :: "db world \<Rightarrow> db world \<Rightarrow> bool" where
  bs_wallet: "wallet_step w w' \<Longrightarrow> d_invoice (tabs w') = d_invoice (tabs w) \<Longrightarrow> billing_step w w'"
| bs_apply: "billing_step w (snd (apply_invoice lo up orders_from_wallet acc trade_no req w))"
| bs_save: "billing_step w (snd (save_profile lo up acc req w))"
| bs_other: "wallet_of w' = wallet_of w \<Longrightarrow> invoices (d_invoice (tabs w')) = invoices (d_invoice (tabs w)) \<Longrightarrow>
     (\<forall>t. seqs w t \<le> seqs w' t) \<Longrightarrow> billing_step w w'"

inductive billing_reachable :: "db world \<Rightarrow> bool" where
  br_start: "wallet_reachable w \<Longrightarrow> invoices (d_invoice (tabs w)) = [] \<Longrightarrow> billing_reachable w"
| br_step: "billing_reachable w \<Longrightarrow> billing_step w w' \<Longrightarrow> billing_reachable w'"

abbreviation billed :: "db world \<Rightarrow> bool" where
  "billed w \<equiv> wallet_orders.billing_ok (seqs w) (tabs w)"

abbreviation issued_more :: "db \<Rightarrow> db \<Rightarrow> bool" where
  "issued_more d d' \<equiv> prefix_of (invoices (d_invoice d)) (invoices (d_invoice d'))"

lemma wallet_credited_history:
  assumes "history (d_wallet d) (d_wallet d')" "wallet_credited d x"
  shows "wallet_credited d' x"
proof -
  obtain y where y: "y \<in> set (orders (d_wallet d))" "ord_status y = OrderPaid" "ord_no y = po_no x"
    "ord_account y = po_account x" "ord_yuan y = po_yuan x" "ord_coins y = po_coins x" "ord_bonus y = po_bonus x"
    using assms(2) unfolding wallet_credited_def by blast
  then obtain z where "z \<in> set (orders (d_wallet d'))" "order_step y z" using assms(1) unfolding history_def by blast
  with y show ?thesis unfolding wallet_credited_def by (intro bexI [of _ z]) (simp_all add: order_step_def)
qed

lemma frame_apply_wallet: "steps (frame d_wallet) (apply_invoice lo up orders_from_wallet acc no req)"
proof -
  have "steps (frame d_wallet) (find_paid orders_from_wallet acc n)" for n
    using wallet_orders.reads(1) [of acc n] by (simp add: steps_def frame_def)
  then show ?thesis unfolding apply_invoice_def by (intro rel_rules) simp_all
qed

lemma frame_save_invoices: "steps (frame (\<lambda>d. (d_wallet d, invoices (d_invoice d)))) (save_profile lo up acc req)"
  unfolding save_profile_def upsert_profile_def Let_def by (intro rel_rules) simp_all

lemma billed_untouched:
  assumes "billed w" "d_wallet (tabs w') = d_wallet (tabs w)" "invoices (d_invoice (tabs w')) = invoices (d_invoice (tabs w))"
    "\<forall>t. seqs w t \<le> seqs w' t"
  shows "billed w'"
  using assms by (auto simp: wallet_orders.billing_ok_def invoices_ok_def wallet_credited_def intro: order_trans)

lemma billing_step_keeps:
  assumes "billing_step w w'" "sound w" "billed w"
  shows "sound w' \<and> billed w' \<and> issued_more (tabs w) (tabs w')"
  using assms
proof (induction rule: billing_step.induct)
  case (bs_wallet w w')
  then have k: "sound w'" "history (wallet_of w) (wallet_of w')" "\<forall>t. seqs w t \<le> seqs w' t"
    using wallet_step_keeps [OF bs_wallet(1)] by (simp_all add: keeps_def)
  then have "billed w'" using bs_wallet wallet_credited_history
    by (fastforce simp: wallet_orders.billing_ok_def invoices_ok_def intro: order_trans)
  with k bs_wallet show ?case by simp
next
  case (bs_apply w lo up acc no req)
  let ?m = "apply_invoice lo up orders_from_wallet acc no req"
  have "wallet_of (snd (?m w)) = wallet_of w" "\<forall>t. seqs w t \<le> seqs (snd (?m w)) t"
    using frame_apply_wallet [of lo up acc no req] by (simp_all add: steps_def frame_def)
  then have "sound (snd (?m w))" using bs_apply wallet_ok_mono by simp
  moreover have "keeps (\<lambda>d. d) wallet_orders.billing_ok wallet_orders.issued_more w (snd (?m w))"
    using wallet_orders.keeps_apply_invoice [of lo up acc no req] by (simp add: steps_def)
  ultimately show ?case using bs_apply by (simp add: keeps_def holds_def wallet_orders.issued_more_def)
next
  case (bs_save w lo up acc req)
  then show ?case using frame_save_invoices [of lo up acc req] billed_untouched [of w] wallet_ok_mono
    by (simp add: steps_def frame_def)
next
  case (bs_other w' w)
  then show ?case using billed_untouched [of w w'] wallet_ok_mono by simp
qed

lemma billing_sound: "billing_reachable w \<Longrightarrow> sound w \<and> billed w"
proof (induction rule: billing_reachable.induct)
  case (br_start w)
  then show ?case using reachable_sound by (simp add: wallet_orders.billing_ok_def invoices_ok_def)
next
  case (br_step w w')
  then show ?case using billing_step_keeps by blast
qed

section \<open>Properties\<close>

text \<open>C22 Invoices tell the truth about payments: in every reachable state each invoice belongs to an
  order of the same account that has been paid, with exactly that order's amount, coins and bonus;
  no order has two invoices and no number is used twice; and once issued, an invoice is never
  changed or removed.\<close>

theorem invoices_match_payments:
  assumes "billing_reachable w"
  shows "distinct (map inv_no (invoices (d_invoice (tabs w))))
    \<and> distinct (map inv_out_trade_no (invoices (d_invoice (tabs w))))
    \<and> (\<forall>i \<in> set (invoices (d_invoice (tabs w))). header_ok (inv_header i)
         \<and> (\<exists>x \<in> set (orders (wallet_of w)). ord_status x = OrderPaid \<and> ord_no x = inv_out_trade_no i
              \<and> ord_account x = inv_account i \<and> ord_yuan x = inv_yuan i \<and> ord_coins x = inv_coins i \<and> ord_bonus x = inv_bonus i))
    \<and> (\<forall>w'. billing_step w w' \<longrightarrow> prefix_of (invoices (d_invoice (tabs w))) (invoices (d_invoice (tabs w'))))"
  using billing_sound [OF assms] billing_step_keeps [of w]
  by (auto simp: wallet_orders.billing_ok_def invoices_ok_def wallet_credited_def billed_order_def)

text \<open>An order that has its invoice never gets a second one: the application is refused and leaves
  every table, the stored profile included, as it was.\<close>

lemma invoice_once:
  assumes "billing_reachable w" "i \<in> set (invoices (d_invoice (tabs w)))" "inv_out_trade_no i = trim_space no"
    "apply_invoice lo up orders_from_wallet acc no req w = (r, w')"
  shows "tabs w' = tabs w \<and> (\<exists>e. r = Inl e)"
  using wallet_orders.apply_invoice_again [OF _ assms(2-4)] billing_sound [OF assms(1)] by blast

lemma find_snoc: "find p xs = None \<Longrightarrow> find p (xs @ [x]) = (if p x then Some x else None)"
  by (induction xs) (auto split: if_splits)

definition invoice_no_of :: "instant \<Rightarrow> nat \<Rightarrow> gostr" where
  "invoice_no_of now n = lit ''INV'' @ format_compact (shanghai_date now) @ to_upper (\<lambda>r. r) (hex_bytes 5 n)"

lemma wp_invoice_available:
  assumes "billing_reachable w" "reliable w" "normalize_header lo up req = Inr h"
    "x \<in> set (orders (wallet_of w))" "ord_status x = OrderPaid" "ord_account x = acc" "ord_no x = trim_space no" "trim_space no \<noteq> []"
    "\<forall>i \<in> set (invoices (d_invoice (tabs w))). inv_out_trade_no i \<noteq> ord_no x"
    "rands w (draws w) = Some n"
    "\<forall>i \<in> set (invoices (d_invoice (tabs w))). inv_no i \<noteq> invoice_no_of (clock w (ticks w)) n"
  shows "wp (apply_invoice lo up orders_from_wallet acc no req) (\<lambda>r w'. \<exists>i. r = Some i
    \<and> inv_out_trade_no i = ord_no x \<and> inv_account i = acc \<and> inv_yuan i = ord_yuan x \<and> inv_header i = h
    \<and> invoices (d_invoice (tabs w')) = invoices (d_invoice (tabs w)) @ [i]) (\<lambda>_ _. False) w"
proof -
  have paid: "find (\<lambda>o'. ord_no o' = trim_space no \<and> ord_account o' = acc \<and> ord_status o' = OrderPaid) (orders (wallet_of w)) = Some x"
  proof -
    have "sound w" using billing_sound [OF assms(1)] by simp
    then have d: "distinct (map ord_no (orders (wallet_of w)))" using wallet_ok_parts(3) by (auto simp: unique_ok_def)
    have "find (\<lambda>o'. ord_no o' = trim_space no \<and> ord_account o' = acc \<and> ord_status o' = OrderPaid) (orders (wallet_of w)) \<noteq> None"
      using find_None_all [of _ "orders (wallet_of w)" x] assms(4-7) by auto
    then obtain y where y: "find (\<lambda>o'. ord_no o' = trim_space no \<and> ord_account o' = acc \<and> ord_status o' = OrderPaid) (orders (wallet_of w)) = Some y"
      by blast
    then have "y \<in> set (orders (wallet_of w))" "ord_no y = ord_no x" using find_Some_in assms(7) by fastforce+
    then have "y = x" using distinct_map_inj_eq [OF d] assms(4) by blast
    with y show ?thesis by simp
  qed
  have none: "find (\<lambda>i. inv_out_trade_no i = ord_no x) (invoices (d_invoice (tabs w))) = None"
    using assms(9) by (simp add: find_None_iff)
  show ?thesis
    using assms paid none
    by (simp add: apply_invoice_def wp_rules wp_transaction orders_from_wallet_def find_paid_recharge_def Let_def
        paid_from_wallet_def paid_from_order_def issue_tx_def upsert_profile_def find_by_out_trade_no_def
        new_invoice_no_def create_invoice_def issued_row_def apply_header_def blank_invoice_def invoice_no_of_def find_snoc)
qed

text \<open>Whoever has paid can have an invoice: when no statement fails, a valid header, a paid order of the
  account without an invoice and an unused random number give an invoice for that order.\<close>

lemma invoice_available:
  assumes "billing_reachable w" "reliable w" "normalize_header lo up req = Inr h"
    "x \<in> set (orders (wallet_of w))" "ord_status x = OrderPaid" "ord_account x = acc" "ord_no x = trim_space no" "trim_space no \<noteq> []"
    "\<forall>i \<in> set (invoices (d_invoice (tabs w))). inv_out_trade_no i \<noteq> ord_no x"
    "rands w (draws w) = Some n"
    "\<forall>i \<in> set (invoices (d_invoice (tabs w))). inv_no i \<noteq> invoice_no_of (clock w (ticks w)) n"
  shows "\<exists>i w'. apply_invoice lo up orders_from_wallet acc no req w = (Inr (Some i), w')
    \<and> inv_out_trade_no i = ord_no x \<and> inv_account i = acc \<and> inv_yuan i = ord_yuan x \<and> inv_header i = h
    \<and> invoices (d_invoice (tabs w')) = invoices (d_invoice (tabs w)) @ [i]"
  using wp_invoice_available [OF assms] by (auto simp: wp_def split: prod.splits sum.splits)

section \<open>An example\<close>

text \<open>The world of the payment examples, after account 1 has paid.\<close>

definition demo_billing :: "db world" where
  "demo_billing = demo_paid\<lparr>faults := (\<lambda>_. False), rands := (\<lambda>_. Some 0)\<rparr>"

lemma demo_no_invoices: "invoices (d_invoice (tabs demo_billing)) = []"
proof -
  have "steps (frame d_invoice) (handle_stripe_notify gw p sig)" for gw p sig
    unfolding handle_stripe_notify_def credit_stripe_def credit_paid_def credit_tx_def close_order_def close_tx_def find_order_def
    by (intro rel_rules) simp_all
  moreover have "steps (frame d_invoice) (create_recharge tab gw acc yuan raw)" for tab gw acc yuan raw
    unfolding create_recharge_def new_out_trade_no_def place_order_def start_checkout_def by (intro rel_rules) simp_all
  ultimately have "d_invoice (tabs demo_paid) = d_invoice (tabs demo_start)"
    by (simp add: demo_paid_def demo_ordered_def steps_def frame_def)
  then show ?thesis by (simp add: demo_billing_def demo_start_def quiet_world_def empty_db_def)
qed

lemma demo_billing_reachable: "billing_reachable demo_billing"
proof (rule br_start)
  show "wallet_reachable demo_billing"
    by (rule reachable_step [OF demo_paid_reachable step_other]) (simp_all add: demo_billing_def)
qed (rule demo_no_invoices)

lemma demo_billing_order:
  obtains x where "x \<in> set (orders (wallet_of demo_billing))" "ord_status x = OrderPaid" "ord_account x = 1" "ord_no x = demo_no"
    "ord_yuan x = 30"
  using demo_paid_order by (auto simp: demo_billing_def order_step_def)

lemma hex_chars: "r \<in> set (hex_bytes k n) \<Longrightarrow> 48 \<le> r \<and> r < 128"
  by (induction k arbitrary: n) (auto simp: hex_digit_def)

lemma dec_chars: "r \<in> set (dec x) \<Longrightarrow> 45 \<le> r \<and> r < 128"
  using dec_nat_digits by (fastforce simp: dec_def split: if_splits)

lemma trim_demo_no: "trim_space demo_no = demo_no" "demo_no \<noteq> []"
proof -
  have "37 \<le> r \<and> r < 128" if "r \<in> set demo_no" for r
    using that dec_nat_digits [of r] dec_chars [of r] hex_chars [of r] by (auto simp: demo_no_def lit_def dest: le_trans; fastforce)
  then have "\<forall>r \<in> set demo_no. \<not> is_space r" using not_space by blast
  then show "trim_space demo_no = demo_no" by (simp add: trim_space_no_space)
qed (simp add: demo_no_def lit_def)

theorem invoice_available_witness:
  "\<exists>i w'. apply_invoice ascii_lower ascii_lower orders_from_wallet 1 demo_no demo_header demo_billing = (Inr (Some i), w')
    \<and> inv_out_trade_no i = demo_no \<and> inv_account i = 1 \<and> inv_yuan i = 30 \<and> inv_header i = demo_normal
    \<and> invoices (d_invoice (tabs w')) = [i]"
proof -
  obtain x where x: "x \<in> set (orders (wallet_of demo_billing))" "ord_status x = OrderPaid" "ord_account x = 1"
    "ord_no x = demo_no" "ord_yuan x = 30" by (rule demo_billing_order)
  have r: "reliable demo_billing" "rands demo_billing (draws demo_billing) = Some 0" by (simp_all add: demo_billing_def reliable_def)
  show ?thesis
    using invoice_available [OF demo_billing_reachable r(1) demo_header_ok x(1,2,3) _ _ _ r(2), of demo_no] x
    by (simp add: trim_demo_no demo_no_invoices)
qed

definition demo_invoiced :: "db world" where
  "demo_invoiced = snd (apply_invoice ascii_lower ascii_lower orders_from_wallet 1 demo_no demo_header demo_billing)"

lemma demo_invoiced_reachable: "billing_reachable demo_invoiced"
  unfolding demo_invoiced_def by (rule br_step [OF demo_billing_reachable bs_apply])

text \<open>An order of the wallet has been invoiced, found by running the application once more.\<close>

lemma demo_issued: "\<exists>i \<in> set (invoices (d_invoice (tabs demo_invoiced))). inv_out_trade_no i = demo_no"
proof -
  obtain x where x: "x \<in> set (orders (wallet_of demo_billing))" "ord_status x = OrderPaid" "ord_account x = 1"
    "ord_no x = demo_no" "ord_yuan x = 30" by (rule demo_billing_order)
  have r: "reliable demo_billing" "rands demo_billing (draws demo_billing) = Some 0" by (simp_all add: demo_billing_def reliable_def)
  show ?thesis
    using wp_invoice_available [OF demo_billing_reachable r(1) demo_header_ok x(1,2,3) _ _ _ r(2), of demo_no] x(4)
    by (auto simp: trim_demo_no demo_no_invoices demo_invoiced_def wp_def split: prod.splits sum.splits)
qed

theorem invoices_match_payments_witness:
  "\<exists>i \<in> set (invoices (d_invoice (tabs demo_invoiced))). \<exists>x \<in> set (orders (wallet_of demo_invoiced)).
     ord_status x = OrderPaid \<and> ord_no x = demo_no \<and> ord_yuan x = inv_yuan i"
  using invoices_match_payments [OF demo_invoiced_reachable] demo_issued by fastforce

theorem invoice_once_witness:
  "\<exists>e w'. apply_invoice id id orders_from_wallet 1 demo_no demo_header demo_invoiced = (Inl e, w') \<and> tabs w' = tabs demo_invoiced"
proof -
  obtain i where "i \<in> set (invoices (d_invoice (tabs demo_invoiced)))" "inv_out_trade_no i = trim_space demo_no"
    using demo_issued trim_demo_no by auto
  then show ?thesis
    using invoice_once [OF demo_invoiced_reachable, of i demo_no id id 1 demo_header] by (metis prod.collapse)
qed

end
