(* ===== verification/Share_Code.thy ===== *)
theory Share_Code
  imports Tx Text
begin

unbundle bit_operations_syntax

text \<open>
  Share codes (\<open>internal/video/sharecode.go\<close>): a video's identifier, scrambled by a
  multiplication modulo \<open>2^35\<close>, as seven base-32 characters and a check character. Identifiers
  are \<open>uint64\<close>, and \<open>64 word\<close> here. The source compares the length in bytes and indexes bytes of a
  normalised code; a code with a character outside ASCII is refused either way, so the model
  works on code points.
\<close>

section \<open>The alphabet\<close>

type_synonym u64 = "64 word"

definition shareAlphabet :: gostr where
  "shareAlphabet = lit ''0123456789ABCDEFGHJKMNPQRSTVWXYZ''"

definition shareCodePayloadLen :: nat where "shareCodePayloadLen = 7"
definition shareCodeLength :: nat where "shareCodeLength = shareCodePayloadLen + 1"
definition maxShareTextBytes :: nat where "maxShareTextBytes = 1024"

definition mixMask :: u64 where "mixMask = push_bit 35 1 - 1"
definition mixMultiplier :: u64 where "mixMultiplier = 0x9E3779B1"

text \<open>The inverse of the multiplier, by Newton iteration.\<close>

fun newton :: "nat \<Rightarrow> u64 \<Rightarrow> u64" where
  "newton 0 y = y"
| "newton (Suc k) y = newton k (y * (2 - mixMultiplier * y))"

definition mixInverse :: u64 where
  "mixInverse = newton 5 mixMultiplier AND mixMask"

definition share_char_value :: "rune \<Rightarrow> u64 option" where
  "share_char_value c = (let i = length (takeWhile (\<lambda>x. x \<noteq> c) shareAlphabet) in
     if i < length shareAlphabet then Some (of_nat i) else None)"

section \<open>Encoding and decoding\<close>

fun checksum_loop :: "nat \<Rightarrow> u64 \<Rightarrow> u64 list \<Rightarrow> u64" where
  "checksum_loop i acc [] = acc"
| "checksum_loop i acc (v # vs) = checksum_loop (Suc i) (acc + of_nat (2 * i + 1) * v) vs"

definition share_checksum :: "u64 list \<Rightarrow> u64" where
  "share_checksum vs = checksum_loop 0 0 vs AND 31"

fun payload_digits :: "nat \<Rightarrow> u64 \<Rightarrow> u64 list" where
  "payload_digits 0 mixed = []"
| "payload_digits (Suc k) mixed = payload_digits k (drop_bit 5 mixed) @ [mixed AND 31]"

definition encode_share_code :: "u64 \<Rightarrow> err + gostr" where
  "encode_share_code i = (if i = 0 \<or> i > mixMask then Inl ErrShareCodeUnsupported else
     let vs = payload_digits shareCodePayloadLen ((i * mixMultiplier) AND mixMask)
     in Inr (map (\<lambda>v. shareAlphabet ! unat v) (vs @ [share_checksum vs])))"

definition normalize_char :: "rune \<Rightarrow> gostr" where
  "normalize_char r = (if r \<in> {45, 32} then [] else if r \<in> {105, 73, 108, 76} then [49]
     else if r \<in> {111, 79} then [48] else if 97 \<le> r \<and> r \<le> 122 then [r - 32] else [r])"

definition normalize_share_code :: "gostr \<Rightarrow> gostr" where
  "normalize_share_code code = concat (map normalize_char code)"

fun char_values :: "gostr \<Rightarrow> u64 list option" where
  "char_values [] = Some []"
| "char_values (c # cs) = (case share_char_value c of None \<Rightarrow> None
     | Some v \<Rightarrow> (case char_values cs of None \<Rightarrow> None | Some vs \<Rightarrow> Some (v # vs)))"

definition join_digits :: "u64 list \<Rightarrow> u64" where
  "join_digits vs = foldl (\<lambda>mixed v. push_bit 5 mixed OR v) 0 vs"

definition decode_share_code :: "gostr \<Rightarrow> err + u64" where
  "decode_share_code code = (let normalized = normalize_share_code code in
     if length normalized \<noteq> shareCodeLength then Inl ErrInvalidShareCode else
     case char_values normalized of None \<Rightarrow> Inl ErrInvalidShareCode
     | Some values \<Rightarrow> let payload = take shareCodePayloadLen values in
         if values ! shareCodePayloadLen \<noteq> share_checksum payload then Inl ErrInvalidShareCode
         else let i = (join_digits payload * mixInverse) AND mixMask
           in if i = 0 then Inl ErrInvalidShareCode else Inr i)"

section \<open>Finding a code in pasted text\<close>

definition token_char :: "rune \<Rightarrow> bool" where
  "token_char r \<longleftrightarrow> (48 \<le> r \<and> r \<le> 57) \<or> (65 \<le> r \<and> r \<le> 90) \<or> (97 \<le> r \<and> r \<le> 122)"

definition token :: "gostr \<Rightarrow> bool" where
  "token s \<longleftrightarrow> length s = 8 \<and> list_all token_char s"

text \<open>The two patterns at the start of a text: \<open>/s/\<close> and a token, and a token and \<open>:/\<close>.\<close>

definition url_at :: "gostr \<Rightarrow> gostr option" where
  "url_at t = (if take 3 t = [47, 115, 47] \<and> token (take 8 (drop 3 t)) then Some (take 8 (drop 3 t)) else None)"

definition marker_at :: "gostr \<Rightarrow> gostr option" where
  "marker_at t = (if token (take 8 t) \<and> take 2 (drop 8 t) = [58, 47] then Some (take 8 t) else None)"

text \<open>\<open>FindAllStringSubmatch\<close>: the leftmost matches that do not overlap, of a pattern of \<open>n + 1\<close>
  characters.\<close>

function find_all :: "(gostr \<Rightarrow> gostr option) \<Rightarrow> nat \<Rightarrow> gostr \<Rightarrow> gostr list" where
  "find_all at n [] = []"
| "find_all at n (c # cs) = (case at (c # cs) of Some m \<Rightarrow> m # find_all at n (drop n cs) | None \<Rightarrow> find_all at n cs)"
  by pat_completeness auto
termination by (relation "measure (\<lambda>(_, _, t). length t)") auto

fun first_code :: "gostr list \<Rightarrow> err + u64" where
  "first_code [] = Inl ErrShareCodeNotFound"
| "first_code (m # ms) = (case decode_share_code m of Inr i \<Rightarrow> Inr i | Inl _ \<Rightarrow> first_code ms)"

definition extract_share_code :: "gostr \<Rightarrow> err + u64" where
  "extract_share_code text = (if byte_len text > maxShareTextBytes then Inl ErrShareTextTooLong else
     let trimmed = trim_space text in
     if trimmed = [] then Inl ErrShareCodeNotFound
     else if token trimmed then
       (case decode_share_code trimmed of Inr i \<Rightarrow> Inr i | Inl _ \<Rightarrow> Inl ErrShareCodeNotFound)
     else first_code (find_all url_at 10 trimmed @ find_all marker_at 9 trimmed))"

section \<open>The scrambling is undone\<close>

lemma mixMask_mask: "mixMask = mask 35"
  by (simp add: mixMask_def mask_eq_decr_exp)

lemma newton_steps: "newton 5 y = (let s = (\<lambda>y. y * (2 - mixMultiplier * y)) in s (s (s (s (s y)))))"
  by (simp add: eval_nat_numeral)

lemma mixInverse_value: "mixInverse = 13128904529"
proof -
  have "mixMultiplier * (2 - mixMultiplier * mixMultiplier) = 13696686541742197585" by (simp add: mixMultiplier_def)
  moreover have "13696686541742197585 * (2 - mixMultiplier * 13696686541742197585) = (17867617763711463249 :: u64)" by (simp add: mixMultiplier_def)
  moreover have "17867617763711463249 * (2 - mixMultiplier * 17867617763711463249) = (15711005671980478289 :: u64)" by (simp add: mixMultiplier_def)
  moreover have "15711005671980478289 * (2 - mixMultiplier * 15711005671980478289) = (14962265741255716689 :: u64)" by (simp add: mixMultiplier_def)
  moreover have "14962265741255716689 * (2 - mixMultiplier * 14962265741255716689) = (14962265741255716689 :: u64)" by (simp add: mixMultiplier_def)
  ultimately have "newton 5 mixMultiplier = 14962265741255716689" by (simp only: newton_steps Let_def)
  then show ?thesis by (simp add: mixInverse_def mixMask_def)
qed

lemma mix_inverse: "take_bit 35 (mixMultiplier * mixInverse) = 1"
  by (simp add: mixInverse_value mixMultiplier_def take_bit_eq_mask mask_eq_decr_exp)

lemma take_bit_mult_left:
  fixes a b :: u64
  assumes "n \<le> 64"
  shows "take_bit n (take_bit n a * b) = take_bit n (a * b)"
proof (rule word_uint_eqI)
  have dvd: "(2 :: int) ^ n dvd 2 ^ 64" using assms by (rule le_imp_power_dvd)
  have "uint (take_bit n (x * b)) = (uint x * uint b) mod 2 ^ n" for x
    using dvd by (simp only: unsigned_take_bit_eq uint_word_ariths) (simp add: take_bit_eq_mod mod_mod_cancel)
  then show "uint (take_bit n (take_bit n a * b)) = uint (take_bit n (a * b))"
    by (simp only: unsigned_take_bit_eq) (simp only: take_bit_eq_mod mod_mult_left_eq)
qed

lemma take_bit_mult_assoc: "take_bit 35 (take_bit 35 (a * b) * c) = take_bit 35 (a * take_bit 35 (b * c))" for a b c :: u64
  using take_bit_mult_left [of 35 "a * b" c] take_bit_mult_left [of 35 "b * c" a] by (simp add: ac_simps)

lemma and_31: "x AND 31 = take_bit 5 x" for x :: u64
  by (simp add: take_bit_eq_mask mask_eq_decr_exp)

lemma unmix: "((i * mixMultiplier) AND mixMask) * mixInverse AND mixMask = take_bit 35 i"
  by (simp only: mixMask_mask take_bit_eq_mask [symmetric] take_bit_mult_assoc mix_inverse mult_1_right)

lemma take_bit_le_mixMask:
  assumes "i \<le> mixMask"
  shows "take_bit 35 i = i"
proof (rule word_unat_eq_iff [THEN iffD2])
  have "unat i < 2 ^ 35" using assms by (simp add: mixMask_def word_le_nat_alt)
  then show "unat (take_bit 35 i) = unat i" by (simp add: unsigned_take_bit_eq take_bit_nat_eq_self)
qed

lemma join_snoc: "join_digits (vs @ [v]) = push_bit 5 (join_digits vs) OR v"
  by (simp add: join_digits_def)

lemma join_payload_digits: "join_digits (payload_digits k x) = take_bit (5 * k) x"
proof (induction k arbitrary: x)
  case (Suc k)
  have "push_bit 5 (take_bit (5 * k) (drop_bit 5 x)) OR take_bit 5 x = take_bit (5 * Suc k) x"
    by (rule bit_eqI) (auto simp: bit_simps)
  with Suc show ?case by (simp add: join_snoc and_31)
qed (simp add: join_digits_def)

section \<open>Characters and values\<close>

lemma shareAlphabet_list: "shareAlphabet = [48, 49, 50, 51, 52, 53, 54, 55, 56, 57, 65, 66, 67, 68, 69, 70, 71, 72, 74, 75,
   77, 78, 80, 81, 82, 83, 84, 86, 87, 88, 89, 90]"
  by (simp add: shareAlphabet_def lit_def)

lemma alphabet [simp]: "length shareAlphabet = 32" "distinct shareAlphabet"
  "c \<in> set shareAlphabet \<Longrightarrow> normalize_char c = [c]"
proof -
  show "length shareAlphabet = 32" by (simp add: shareAlphabet_list)
  show "distinct shareAlphabet" by (simp add: shareAlphabet_list)
  have "list_all (\<lambda>c. normalize_char c = [c]) shareAlphabet"
    by (simp only: shareAlphabet_list list.pred_inject) (simp add: normalize_char_def)
  then show "c \<in> set shareAlphabet \<Longrightarrow> normalize_char c = [c]" by (simp add: list_all_iff)
qed

lemma takeWhile_distinct: "distinct xs \<Longrightarrow> i < length xs \<Longrightarrow> length (takeWhile (\<lambda>x. x \<noteq> xs ! i) xs) = i"
proof (induction xs arbitrary: i)
  case (Cons x xs)
  then show ?case by (cases i) auto
qed simp

lemma share_char_value_nth: "unat v < 32 \<Longrightarrow> share_char_value (shareAlphabet ! unat v) = Some v"
  by (simp add: share_char_value_def takeWhile_distinct Let_def)

lemma share_char_valueD:
  assumes "share_char_value c = Some v"
  shows "c = shareAlphabet ! unat v \<and> unat v < 32"
proof -
  let ?i = "length (takeWhile (\<lambda>x. x \<noteq> c) shareAlphabet)"
  have i: "?i < 32" "v = of_nat ?i" using assms by (auto simp: share_char_value_def Let_def split: if_splits)
  then have "unat v = ?i" by (simp add: unat_of_nat)
  with i show ?thesis using nth_length_takeWhile [of "\<lambda>x. x \<noteq> c" shareAlphabet] by simp
qed

lemma char_values_map: "\<forall>v \<in> set vs. unat v < 32 \<Longrightarrow> char_values (map (\<lambda>v. shareAlphabet ! unat v) vs) = Some vs"
  by (induction vs) (simp_all add: share_char_value_nth)

lemma char_valuesD:
  "char_values cs = Some vs \<Longrightarrow> cs = map (\<lambda>v. shareAlphabet ! unat v) vs \<and> (\<forall>v \<in> set vs. unat v < 32)"
  by (induction cs arbitrary: vs) (auto split: option.splits dest: share_char_valueD)

lemma normalize_alphabet: "set cs \<subseteq> set shareAlphabet \<Longrightarrow> normalize_share_code cs = cs"
  by (induction cs) (auto simp: normalize_share_code_def)

lemma unat_and_31: "unat (x AND 31) < 32" for x :: u64
  using take_bit_nat_less_exp [of 5 "unat x"] by (simp add: and_31 unsigned_take_bit_eq)

lemma payload_digits_bounds: "length (payload_digits k x) = k \<and> (\<forall>v \<in> set (payload_digits k x). unat v < 32)"
  by (induction k arbitrary: x) (auto simp: unat_and_31)

text \<open>The characters of a list of values, with its check character.\<close>

definition code_of :: "u64 list \<Rightarrow> gostr" where
  "code_of vs = map (\<lambda>v. shareAlphabet ! unat v) vs"

lemma code_of_alphabet: "\<forall>v \<in> set vs. unat v < 32 \<Longrightarrow> set (code_of vs) \<subseteq> set shareAlphabet"
  by (auto simp: code_of_def)

lemma decode_code_of:
  assumes "length vs = 8" "\<forall>v \<in> set vs. unat v < 32"
  shows "decode_share_code (code_of vs) =
    (if vs ! 7 \<noteq> share_checksum (take 7 vs) then Inl ErrInvalidShareCode
     else let i = (join_digits (take 7 vs) * mixInverse) AND mixMask in if i = 0 then Inl ErrInvalidShareCode else Inr i)"
  using assms normalize_alphabet [OF code_of_alphabet [OF assms(2)]] char_values_map [OF assms(2)]
  by (simp add: decode_share_code_def shareCodeLength_def shareCodePayloadLen_def Let_def code_of_def)

text \<open>C23 Every video identifier that fits into 35 bits has a share code of eight characters, and
  decoding the code gives the identifier back; other identifiers have none.\<close>

theorem share_code_round_trip:
  "case encode_share_code i of Inl e \<Rightarrow> e = ErrShareCodeUnsupported \<and> (i = 0 \<or> i > mixMask)
   | Inr code \<Rightarrow> i \<noteq> 0 \<and> i \<le> mixMask \<and> length code = 8 \<and> decode_share_code code = Inr i"
proof (cases "i = 0 \<or> i > mixMask")
  case True
  then show ?thesis by (simp add: encode_share_code_def)
next
  case False
  let ?ds = "payload_digits 7 ((i * mixMultiplier) AND mixMask)"
  let ?vs = "?ds @ [share_checksum ?ds]"
  have ds: "length ?ds = 7" "\<forall>v \<in> set ?vs. unat v < 32"
    using payload_digits_bounds [of 7 "(i * mixMultiplier) AND mixMask"] by (auto simp: share_checksum_def unat_and_31)
  have code: "encode_share_code i = Inr (code_of ?vs)"
    using False by (simp add: encode_share_code_def shareCodePayloadLen_def Let_def code_of_def)
  have "join_digits ?ds * mixInverse AND mixMask = take_bit 35 i"
    using unmix [of i] by (simp add: join_payload_digits mixMask_mask take_bit_eq_mask [symmetric])
  also have "\<dots> = i"
    using False by (intro take_bit_le_mixMask) (simp add: not_less)
  finally have "decode_share_code (code_of ?vs) = Inr i"
    using False ds decode_code_of [of ?vs] by (simp add: nth_append)
  with code False ds show ?thesis by (simp add: code_of_def not_less)
qed

section \<open>A mistyped character is noticed\<close>

lemma checksum_loop_update:
  "k < length vs \<Longrightarrow>
    checksum_loop i acc (vs[k := w]) = checksum_loop i acc vs + of_nat (2 * (i + k) + 1) * (w - vs ! k)"
proof (induction vs arbitrary: i acc k)
  case (Cons v vs)
  have shift: "checksum_loop j (acc + x) us = checksum_loop j acc us + x" for j acc x us
  proof (induction us arbitrary: j acc)
    case (Cons a us)
    then show ?case using Cons.IH [of "Suc j" "acc + of_nat (2 * j + 1) * a"] by (simp only: checksum_loop.simps ac_simps)
  qed simp
  show ?case
  proof (cases k)
    case 0
    have "acc + of_nat (2 * i + 1) * w = acc + of_nat (2 * i + 1) * v + of_nat (2 * i + 1) * (w - v)"
      by (simp add: algebra_simps)
    with 0 show ?thesis by (simp only: list_update.simps checksum_loop.simps shift nat.case nth_Cons_0 add_0_right)
  next
    case (Suc k')
    with Cons show ?thesis by simp
  qed
qed simp

lemma odd_multiple_mod_32:
  fixes a b r m :: int
  assumes "(r + m * a) mod 32 = (r + m * b) mod 32" "odd m" "0 \<le> a" "a < 32" "0 \<le> b" "b < 32"
  shows "a = b"
proof -
  have "coprime m (2 ^ 5)" using assms(2) by (simp only: coprime_power_right_iff) simp
  then have c: "coprime 32 m" by (simp add: coprime_commute)
  have "32 dvd (r + m * a) - (r + m * b)" using assms(1) by (simp only: mod_eq_dvd_iff)
  then have "32 dvd m * (a - b)" by (simp only: add_diff_cancel_left right_diff_distrib)
  with c have "32 dvd a - b" by (simp add: coprime_dvd_mult_right_iff)
  then obtain k where k: "a - b = 32 * k" ..
  with assms(3-6) have "32 * k < 32" "- 32 < 32 * k" by linarith+
  then have "k = 0" by simp
  with k show ?thesis by simp
qed

lemma unat_lt_32: "(uint x < 32) = (unat x < 32)" for x :: u64
  by (simp only: unat_eq_nat_uint nat_less_iff uint_ge_0) simp

lemma take_bit_5_affine:
  fixes a b r m :: u64
  assumes eq: "take_bit 5 (r + m * a) = take_bit 5 (r + m * b)"
    and "odd (uint m)" "unat a < 32" "unat b < 32"
  shows "a = b"
proof (rule word_uint_eqI)
  have dvd: "(32 :: int) dvd 2 ^ 64" by simp
  have u: "uint (take_bit 5 (r + m * x)) = (uint r + uint m * uint x) mod 32" for x
  proof -
    have "uint (take_bit 5 (r + m * x)) = ((uint r + (uint m * uint x) mod 2 ^ 64) mod 2 ^ 64) mod 32"
      by (simp only: unsigned_take_bit_eq uint_word_ariths) (simp add: take_bit_eq_mod)
    also have "\<dots> = (uint r + (uint m * uint x) mod 2 ^ 64) mod 32" by (rule mod_mod_cancel [OF dvd])
    also have "\<dots> = (uint r + (uint m * uint x) mod 2 ^ 64 mod 32) mod 32" by (rule mod_add_right_eq [symmetric])
    also have "(uint m * uint x) mod 2 ^ 64 mod 32 = (uint m * uint x) mod 32" by (rule mod_mod_cancel [OF dvd])
    also have "(uint r + (uint m * uint x) mod 32) mod 32 = (uint r + uint m * uint x) mod 32" by (rule mod_add_right_eq)
    finally show ?thesis .
  qed
  have "uint a < 32" "uint b < 32" using assms(3,4) by (simp_all only: unat_lt_32)
  moreover have "(uint r + uint m * uint a) mod 32 = (uint r + uint m * uint b) mod 32"
    using arg_cong [OF eq, of uint] by (simp only: u)
  ultimately show "uint a = uint b" using assms(2) odd_multiple_mod_32 uint_ge_0 by blast
qed

lemma checksum_changes:
  assumes "length vs = 7" "k < 7" "w \<noteq> vs ! k" "unat w < 32" "unat (vs ! k) < 32"
  shows "share_checksum (vs[k := w]) \<noteq> share_checksum vs"
proof
  let ?m = "of_nat (2 * k + 1) :: u64" and ?S = "checksum_loop 0 0 vs"
  assume "share_checksum (vs[k := w]) = share_checksum vs"
  then have "take_bit 5 (?S - ?m * vs ! k + ?m * w) = take_bit 5 (?S - ?m * vs ! k + ?m * vs ! k)"
    using assms by (simp add: share_checksum_def and_31 checksum_loop_update algebra_simps)
  moreover have "uint ?m = int (2 * k + 1)" using assms(2) by (simp add: uint_nat unat_of_nat del: of_nat_add of_nat_mult of_nat_Suc)
  then have "odd (uint ?m)" by simp
  ultimately have "w = vs ! k" using take_bit_5_affine assms(4,5) by blast
  with assms(3) show False by simp
qed

lemma normalize_share_code_update:
  assumes "set code \<subseteq> set shareAlphabet" "k < length code"
  shows "normalize_share_code (code[k := c]) = take k code @ normalize_char c @ drop (Suc k) code"
proof -
  have "set (take k code) \<subseteq> set shareAlphabet" "set (drop (Suc k) code) \<subseteq> set shareAlphabet"
    using assms(1) set_take_subset set_drop_subset by fast+
  with assms(2) show ?thesis
    by (simp add: upd_conv_take_nth_drop normalize_share_code_def normalize_alphabet [unfolded normalize_share_code_def])
qed

lemma char_values_append: "char_values (xs @ ys) = (case char_values xs of None \<Rightarrow> None
    | Some us \<Rightarrow> (case char_values ys of None \<Rightarrow> None | Some vs \<Rightarrow> Some (us @ vs)))"
  by (induction xs) (auto split: option.splits)

lemma normalize_char_one: "normalize_char c = [] \<or> (\<exists>d. normalize_char c = [d])"
  by (simp add: normalize_char_def)

lemma encode_share_codeD:
  assumes "encode_share_code i = Inr code"
  obtains vs where "length vs = 7" "\<forall>v \<in> set vs. unat v < 32" "code = code_of (vs @ [share_checksum vs])"
proof
  let ?ds = "payload_digits 7 ((i * mixMultiplier) AND mixMask)"
  show "length ?ds = 7" "\<forall>v \<in> set ?ds. unat v < 32" using payload_digits_bounds by blast+
  show "code = code_of (?ds @ [share_checksum ?ds])"
    using assms by (auto simp: encode_share_code_def shareCodePayloadLen_def Let_def code_of_def split: if_splits)
qed

text \<open>C24 One mistyped character of a share code is always noticed: a code in which any one character
  is replaced by a character that does not read the same is refused.\<close>

theorem share_single_error:
  assumes "encode_share_code i = Inr code" "k < 8" "normalize_char c \<noteq> [code ! k]"
  shows "decode_share_code (code[k := c]) = Inl ErrInvalidShareCode"
proof -
  obtain vs where vs: "length vs = 7" "\<forall>v \<in> set vs. unat v < 32" "code = code_of (vs @ [share_checksum vs])"
    using encode_share_codeD [OF assms(1)] .
  let ?us = "vs @ [share_checksum vs]"
  have us: "length ?us = 8" "\<forall>v \<in> set ?us. unat v < 32" using vs by (auto simp: share_checksum_def unat_and_31)
  have code: "length code = 8" "set code \<subseteq> set shareAlphabet" using us vs(3) code_of_alphabet by (auto simp: code_of_def)
  have norm: "normalize_share_code (code[k := c]) = take k code @ normalize_char c @ drop (Suc k) code"
    using code assms(2) by (simp add: normalize_share_code_update)
  show ?thesis
  proof (cases "normalize_char c = []")
    case True
    then show ?thesis using code assms(2) norm by (simp add: decode_share_code_def shareCodeLength_def shareCodePayloadLen_def Let_def)
  next
    case False
    then obtain d where d: "normalize_char c = [d]" using normalize_char_one by blast
    show ?thesis
    proof (cases "share_char_value d")
      case None
      then have "char_values (take k code @ d # drop (Suc k) code) = None" by (simp add: char_values_append split: option.splits)
      then show ?thesis using norm d by (simp add: decode_share_code_def Let_def)
    next
      case (Some w)
      then have w: "d = shareAlphabet ! unat w" "unat w < 32" using share_char_valueD by blast+
      have "normalize_char d = [d]" using w by simp
      then have "normalize_share_code (code[k := d]) = normalize_share_code (code[k := c])"
        using norm d code assms(2) by (simp add: normalize_share_code_update)
      then have "decode_share_code (code[k := c]) = decode_share_code (code[k := d])" by (simp add: decode_share_code_def)
      also have "code[k := d] = code_of (?us[k := w])" using vs(3) w by (simp add: code_of_def map_update del: map_append list.map)
      also have "decode_share_code \<dots> = Inl ErrInvalidShareCode"
      proof -
        have "w \<noteq> ?us ! k" using assms(2,3) d w us vs(3) by (auto simp: code_of_def nth_append)
        moreover have "(?us[k := w]) ! 7 \<noteq> share_checksum (take 7 (?us[k := w]))"
        proof (cases "k = 7")
          case True
          with \<open>w \<noteq> ?us ! k\<close> vs(1) show ?thesis by (simp add: list_update_append nth_append)
        next
          case k: False
          with \<open>w \<noteq> ?us ! k\<close> vs assms(2) w(2) show ?thesis
            using checksum_changes [of vs k w] by (simp add: list_update_append nth_append)
        qed
        moreover have "length (?us[k := w]) = 8" "\<forall>v \<in> set (?us[k := w]). unat v < 32"
          using us w(2) set_update_subset_insert [of ?us k w] by auto
        ultimately show ?thesis by (simp add: decode_code_of del: length_list_update)
      qed
      finally show ?thesis .
    qed
  qed
qed

lemma payload_digits_numeral:
  "payload_digits (numeral n) x = payload_digits (pred_numeral n) (drop_bit 5 x) @ [x AND 31]"
  by (simp add: numeral_eq_Suc)

lemma share_code_of_one: "encode_share_code 1 = Inr (lit ''2F3EYDHT'')"
  by (simp add: encode_share_code_def mixMask_def mixMultiplier_def shareCodePayloadLen_def payload_digits_numeral Let_def
      share_checksum_def shareAlphabet_list lit_def)

theorem share_single_error_witness: "decode_share_code ((lit ''2F3EYDHT'')[2 := 82]) = Inl ErrInvalidShareCode"
  by (rule share_single_error [OF share_code_of_one]) (simp_all add: lit_def normalize_char_def)

end
