(* ===== verification/Moderation.thy ===== *)
theory Moderation
  imports Schema
begin

text \<open>
  The verdicts of moderation (\<open>internal/audit/moderator.go\<close>) and the moderator that looks for words
  (\<open>internal/audit/keyword.go\<close>), the one implementation of the interface. \<open>tab\<close> is the case mapping
  of \<open>unicode.ToLower\<close> beyond ASCII. \<open>keyword_moderator\<close> is the struct after \<open>NewKeywordModerator\<close>.
\<close>

section \<open>Verdicts\<close>

datatype decision = DecisionPass | DecisionReview | DecisionBlock

record result =
  rs_decision :: decision
  rs_label :: gostr
  rs_detail :: gostr

definition Pass :: result where
  "Pass = \<lparr>rs_decision = DecisionPass, rs_label = [], rs_detail = []\<rparr>"

definition Review :: "gostr \<Rightarrow> gostr \<Rightarrow> result" where
  "Review label detail = \<lparr>rs_decision = DecisionReview, rs_label = label, rs_detail = detail\<rparr>"

definition Block :: "gostr \<Rightarrow> gostr \<Rightarrow> result" where
  "Block label detail = \<lparr>rs_decision = DecisionBlock, rs_label = label, rs_detail = detail\<rparr>"

text \<open>The interface \<open>Moderator\<close>: a text or the URLs of the media to a result, or the error's text.\<close>

record moderator =
  md_name :: gostr
  md_text :: "gostr \<Rightarrow> gostr + result"
  md_media :: "gostr \<Rightarrow> gostr \<Rightarrow> gostr + result"

section \<open>Normalising a text\<close>

definition full_to_half :: "rune \<Rightarrow> rune" where
  "full_to_half r = (if 65281 \<le> r \<and> r \<le> 65374 then r - 65248 else if r = 12288 then 32 else r)"

text \<open>The runes \<open>-_.*~^|/\+=,\<close> and the Chinese comma, full stop, enumeration comma, middle dot and dash.\<close>

definition is_separator :: "rune \<Rightarrow> bool" where
  "is_separator r \<longleftrightarrow> r \<in> {45, 95, 46, 42, 126, 94, 124, 47, 92, 43, 61, 44, 65292, 12290, 12289, 183, 8212}"

fun normalize_text :: "(rune \<Rightarrow> rune) \<Rightarrow> gostr \<Rightarrow> gostr" where
  "normalize_text tab [] = []"
| "normalize_text tab (r0 # rs) = (let r = full_to_half r0 in
     if is_space r then normalize_text tab rs
     else if is_separator r then normalize_text tab rs
     else to_lower tab [r] @ normalize_text tab rs)"

fun normalize_words_loop :: "(rune \<Rightarrow> rune) \<Rightarrow> gostr list \<Rightarrow> gostr list \<Rightarrow> gostr list" where
  "normalize_words_loop tab out [] = out"
| "normalize_words_loop tab out (w # ws) = (let n = normalize_text tab w in
     if n = [] then normalize_words_loop tab out ws
     else if n \<in> set out then normalize_words_loop tab out ws
     else normalize_words_loop tab (out @ [n]) ws)"

definition normalize_words :: "(rune \<Rightarrow> rune) \<Rightarrow> gostr list \<Rightarrow> gostr list" where
  "normalize_words tab words = normalize_words_loop tab [] words"

section \<open>The word moderator\<close>

fun contains :: "gostr \<Rightarrow> gostr \<Rightarrow> bool" where
  "contains w [] \<longleftrightarrow> w = []"
| "contains w (r # rs) \<longleftrightarrow> take (length w) (r # rs) = w \<or> contains w rs"

fun first_hit :: "gostr \<Rightarrow> gostr list \<Rightarrow> gostr" where
  "first_hit t [] = []"
| "first_hit t (w # ws) = (if contains w t then w else first_hit t ws)"

record keyword_words =
  kw_block :: "gostr list"
  kw_review :: "gostr list"
  kw_pass_media :: bool

text \<open>The details are the Chinese for "block word hit", "review word hit" and "no media moderation, to
  manual review".\<close>

definition block_hit :: gostr where "block_hit = [21629, 20013, 25298, 32477, 35789] @ lit '': ''"
definition review_hit :: gostr where "review_hit = [21629, 20013, 24453, 23457, 35789] @ lit '': ''"
definition no_media :: gostr where
  "no_media = [26410, 25509, 20837, 23186, 20307, 23457, 26680, 33021, 21147, 65292, 36716, 20154, 24037, 22797, 23457]"

definition new_keyword_words :: "(rune \<Rightarrow> rune) \<Rightarrow> gostr list \<Rightarrow> gostr list \<Rightarrow> gostr \<Rightarrow> keyword_words" where
  "new_keyword_words tab block review policy = \<lparr>kw_block = normalize_words tab block,
     kw_review = normalize_words tab review, kw_pass_media = (policy = lit ''pass'')\<rparr>"

definition moderate_text :: "(rune \<Rightarrow> rune) \<Rightarrow> keyword_words \<Rightarrow> gostr \<Rightarrow> result" where
  "moderate_text tab m text = (let normalized = normalize_text tab text in
     if normalized = [] then Pass else
     let hit = first_hit normalized (kw_block m) in
     if hit \<noteq> [] then Block (lit ''keyword'') (block_hit @ hit) else
     let hit = first_hit normalized (kw_review m) in
     if hit \<noteq> [] then Review (lit ''keyword'') (review_hit @ hit) else Pass)"

definition moderate_media :: "keyword_words \<Rightarrow> result" where
  "moderate_media m = (if kw_pass_media m then Pass else Review (lit ''media'') no_media)"

definition reload_words :: "(rune \<Rightarrow> rune) \<Rightarrow> gostr list \<Rightarrow> gostr list \<Rightarrow> keyword_words \<Rightarrow> keyword_words" where
  "reload_words tab block review m = m\<lparr>kw_block := normalize_words tab block, kw_review := normalize_words tab review\<rparr>"

definition keyword_moderator :: "(rune \<Rightarrow> rune) \<Rightarrow> keyword_words \<Rightarrow> moderator" where
  "keyword_moderator tab m = \<lparr>md_name = lit ''keyword-local'', md_text = (\<lambda>t. Inr (moderate_text tab m t)),
     md_media = (\<lambda>_ _. Inr (moderate_media m))\<rparr>"

text \<open>The lines of a word file that \<open>LoadWordFile\<close> keeps.\<close>

definition word_lines :: "gostr list \<Rightarrow> gostr list" where
  "word_lines ls = filter (\<lambda>l. l \<noteq> [] \<and> hd l \<noteq> 35) (map trim_space ls)"

section \<open>Facts\<close>

lemma normalize_text_append: "normalize_text tab (xs @ ys) = normalize_text tab xs @ normalize_text tab ys"
  by (induction xs) (simp_all add: Let_def)

lemma contains_iff: "contains w t \<longleftrightarrow> (\<exists>us vs. t = us @ w @ vs)"
proof (induction t)
  case (Cons r rs)
  show ?case
  proof
    assume "contains w (r # rs)"
    then consider "take (length w) (r # rs) = w" | "contains w rs" by auto
    then show "\<exists>us vs. r # rs = us @ w @ vs"
    proof cases
      case 1
      then have "r # rs = [] @ w @ drop (length w) (r # rs)" by (metis append_Nil append_take_drop_id)
      then show ?thesis by blast
    next
      case 2
      then obtain us vs where "rs = us @ w @ vs" using Cons.IH by blast
      then have "r # rs = (r # us) @ w @ vs" by simp
      then show ?thesis by blast
    qed
  next
    assume "\<exists>us vs. r # rs = us @ w @ vs"
    then obtain us vs where e: "r # rs = us @ w @ vs" by blast
    show "contains w (r # rs)"
    proof (cases us)
      case Nil
      with e show ?thesis by (metis append_Nil append_eq_conv_conj contains.simps(2))
    next
      case (Cons u us')
      with e have "rs = us' @ w @ vs" by simp
      then show ?thesis using Cons.IH by auto
    qed
  qed
qed simp

lemma first_hit_iff: "[] \<notin> set ws \<Longrightarrow> first_hit t ws \<noteq> [] \<longleftrightarrow> (\<exists>w \<in> set ws. contains w t)"
  by (induction ws) auto

lemma normalize_words_loop_set:
  "set (normalize_words_loop tab out ws) = set out \<union> (normalize_text tab ` set ws - {[]})"
  by (induction ws arbitrary: out) (auto simp: Let_def)

lemma set_normalize_words: "set (normalize_words tab ws) = normalize_text tab ` set ws - {[]}"
  by (simp add: normalize_words_def normalize_words_loop_set)

section \<open>Disguised words\<close>

text \<open>The ways to write a word differently that the normalisation undoes: to insert white space or a
  separator, to write a rune in full width, to write a letter in upper case.\<close>

inductive disguise :: "gostr \<Rightarrow> gostr \<Rightarrow> bool" where
  separate: "is_space r \<or> is_separator r \<Longrightarrow> disguise (xs @ ys) (xs @ r # ys)"
| widen: "33 \<le> r \<Longrightarrow> r \<le> 126 \<Longrightarrow> disguise (xs @ r # ys) (xs @ (r + 65248) # ys)"
| capital: "97 \<le> r \<Longrightarrow> r \<le> 122 \<Longrightarrow> disguise (xs @ r # ys) (xs @ (r - 32) # ys)"

lemma normalize_separator: "is_space r \<or> is_separator r \<Longrightarrow> normalize_text tab [r] = []"
proof -
  assume r: "is_space r \<or> is_separator r"
  then have "r \<le> 12290 \<or> r = 65292" by (auto simp: is_space_def is_separator_def)
  then consider "r = 12288" | "r = 65292" | "full_to_half r = r" by (fastforce simp: full_to_half_def)
  then have "is_space (full_to_half r) \<or> is_separator (full_to_half r)"
    using r by cases (simp_all add: full_to_half_def is_space_def [of 32] is_separator_def [of 44])
  then show ?thesis by (auto simp: Let_def)
qed

lemma normalize_wide: "33 \<le> r \<Longrightarrow> r \<le> 126 \<Longrightarrow> normalize_text tab [r + 65248] = normalize_text tab [r]"
  by (simp add: Let_def full_to_half_def)

lemma normalize_capital:
  assumes "97 \<le> r" "r \<le> 122"
  shows "normalize_text tab [r - 32] = normalize_text tab [r]"
proof -
  have "full_to_half (r - 32) = r - 32" "full_to_half r = r" using assms by (auto simp: full_to_half_def)
  moreover have "\<not> is_space (r - 32)" "\<not> is_space r" using assms by (auto simp: is_space_def)
  moreover have "\<not> is_separator (r - 32)" "\<not> is_separator r" using assms by (auto simp: is_separator_def)
  moreover have "to_lower tab [r - 32] = [r]" "to_lower tab [r] = [r]" using assms by (auto simp: to_lower_def)
  ultimately show ?thesis by (simp add: Let_def)
qed

lemma normalize_middle:
  "normalize_text tab [r] = normalize_text tab [s] \<Longrightarrow> normalize_text tab (xs @ r # ys) = normalize_text tab (xs @ s # ys)"
  using normalize_text_append [of tab "[r]" ys] normalize_text_append [of tab "[s]" ys]
  by (simp del: normalize_text.simps(2) add: normalize_text_append)

lemma normalize_disguise: "disguise t u \<Longrightarrow> normalize_text tab u = normalize_text tab t"
proof (induction rule: disguise.induct)
  case (separate r xs ys)
  then show ?case
    using normalize_separator [of r tab] normalize_text_append [of tab "[r]" ys]
    by (simp del: normalize_text.simps(2) add: normalize_text_append)
next
  case (widen r xs ys)
  show ?case by (rule normalize_middle) (rule normalize_wide [OF widen])
next
  case (capital r xs ys)
  show ?case by (rule normalize_middle) (rule normalize_capital [OF capital])
qed

lemma normalize_disguises: "disguise\<^sup>*\<^sup>* t u \<Longrightarrow> normalize_text tab u = normalize_text tab t"
  by (induction rule: rtranclp_induct) (simp_all add: normalize_disguise)

text \<open>Block words: a text that contains a word of the block list, however it is disguised, is blocked,
  even when it contains words of the review list too.\<close>

lemma block_word_blocks:
  assumes "word \<in> set block" "normalize_text tab word \<noteq> []" "disguise\<^sup>*\<^sup>* word hidden"
  shows "rs_decision (moderate_text tab (new_keyword_words tab block review policy) (before @ hidden @ after)) = DecisionBlock"
proof -
  let ?t = "normalize_text tab (before @ hidden @ after)"
  have t: "?t = normalize_text tab before @ normalize_text tab word @ normalize_text tab after"
    by (simp add: normalize_text_append normalize_disguises [OF assms(3)])
  have "normalize_text tab word \<in> set (normalize_words tab block)"
    using assms(1,2) by (simp add: set_normalize_words)
  moreover have "contains (normalize_text tab word) ?t" unfolding contains_iff t by blast
  ultimately have "first_hit ?t (normalize_words tab block) \<noteq> []"
    by (subst first_hit_iff) (auto simp: set_normalize_words)
  moreover have "?t \<noteq> []" using assms(2) unfolding t by simp
  ultimately show ?thesis by (simp add: moderate_text_def new_keyword_words_def Let_def Block_def)
qed

text \<open>The word \<open>spam\<close> hidden as \<open>s p\<close>, a full-width \<open>A\<close> and \<open>m\<close>.\<close>

theorem block_word_blocks_witness:
  "rs_decision (moderate_text (\<lambda>r. r) (new_keyword_words (\<lambda>r. r) [lit ''spam''] [] []) (lit ''no '' @ [115, 32, 112, 65313, 109] @ lit ''!'')) = DecisionBlock"
proof (rule block_word_blocks)
  have "disguise [115, 112, 97, 109] [115, 112, 65, 109]" using disguise.capital [of 97 "[115, 112]" "[109]"] by simp
  moreover have "disguise [115, 112, 65, 109] [115, 112, 65313, 109]" using disguise.widen [of 65 "[115, 112]" "[109]"] by simp
  moreover have "disguise [115, 112, 65313, 109] [115, 32, 112, 65313, 109]"
    using disguise.separate [of 32 "[115]" "[112, 65313, 109]"] by (simp add: is_space_def)
  ultimately show "disguise\<^sup>*\<^sup>* (lit ''spam'') [115, 32, 112, 65313, 109]" by (simp add: lit_def)
qed (simp_all add: lit_def Let_def full_to_half_def is_space_def is_separator_def to_lower_def)

end
