(* ===== verification/Video_Audit.thy ===== *)
theory Video_Audit
  imports Moderation Outbox Video_Store
begin

text \<open>
  The audit of videos: the service (\<open>internal/audit/service.go\<close>, \<open>repo.go\<close>), the store and the
  publisher that package \<open>video\<close> gives it (\<open>internal/video/audit_store.go\<close>) and the consumer of
  audit requests (\<open>internal/worker/audit_worker.go\<close>). A rejection and its record, an approval, its
  record and the events that make the video public are one transaction.
\<close>

definition PublishWeight :: int where "PublishWeight = 2"

section \<open>Store and publisher (audit\_store.go)\<close>

record audit_target =
  tg_id :: nat
  tg_author :: nat
  tg_username :: gostr
  tg_title :: gostr
  tg_description :: gostr
  tg_play_url :: gostr
  tg_cover_url :: gostr
  tg_status :: audit_status

definition to_audit_target :: "video \<Rightarrow> audit_target" where
  "to_audit_target v = \<lparr>tg_id = vid_id v, tg_author = vid_author v, tg_username = vid_username v,
     tg_title = vid_title v, tg_description = vid_description v, tg_play_url = vid_play_url v,
     tg_cover_url = vid_cover_url v, tg_status = vid_audit v\<rparr>"

definition load_for_audit :: "nat \<Rightarrow> audit_target option op" where
  "load_for_audit i = bnd (video_by_id i) (\<lambda>v. ret (map_option to_audit_target v))"

definition set_audit :: "nat \<Rightarrow> audit_status \<Rightarrow> video list \<Rightarrow> video list" where
  "set_audit i s = update_where (\<lambda>v. vid_id v = i) (\<lambda>v. v\<lparr>vid_audit := s\<rparr>)"

definition update_status :: "nat \<Rightarrow> audit_status \<Rightarrow> unit op" where
  "update_status i s = exec (\<lambda>d. d\<lparr>d_videos := set_audit i s (d_videos d)\<rparr>)"

definition list_by_status :: "audit_status \<Rightarrow> nat \<Rightarrow> nat \<Rightarrow> audit_target list op" where
  "list_by_status s limit offset = query (\<lambda>d. map to_audit_target (take limit (sort_key vid_id
     (filter (\<lambda>v. vid_audit v = s \<and> scopeReviewable v \<and> (0 < offset \<longrightarrow> offset < vid_id v)) (d_videos d)))))"

definition enqueue_event :: "gostr \<Rightarrow> payload \<Rightarrow> unit op" where
  "enqueue_event ty p = bnd (new_envelope ty ProducerAPIServer p) enqueue"

definition enqueue_public :: "nat \<Rightarrow> nat \<Rightarrow> gostr \<Rightarrow> unit op" where
  "enqueue_public vid author reason = bnd read_now (\<lambda>now.
     bnd (enqueue_event EventTypeVideoTimelinePush (VideoTimeline vid author now)) (\<lambda>_.
     bnd (enqueue_event EventTypePopularityChanged (PopularityChanged vid PublishWeight reason)) (\<lambda>_.
     enqueue_event EventTypeVideoEmbedRequested (VideoEmbed vid))))"

definition enqueue_approved :: "nat \<Rightarrow> nat \<Rightarrow> unit op" where
  "enqueue_approved vid author = enqueue_public vid author (lit ''audit.approved'')"

definition enqueue_on_publish :: "nat \<Rightarrow> nat \<Rightarrow> unit op" where
  "enqueue_on_publish vid author = enqueue_public vid author (lit ''video.published'')"

section \<open>Records (repo.go)\<close>

text \<open>\<open>Append\<close> of a record without its identifier and time.\<close>

definition append_record :: "audit_record \<Rightarrow> unit op" where
  "append_record r = bnd read_now (\<lambda>now. bnd (create AuditRecords no_dup
     (\<lambda>i d. d\<lparr>d_audit := d_audit d @ [r\<lparr>ar_id := i, ar_created := now\<rparr>]\<rparr>)) (\<lambda>_. ret ()))"

definition audit_history :: "nat \<Rightarrow> audit_record list op" where
  "audit_history i = query (\<lambda>d. sort_key ar_id (filter (\<lambda>r. ar_target r = i) (d_audit d)))"

definition purge_before :: "instant \<Rightarrow> nat op" where
  "purge_before cutoff = exec_count (\<lambda>d. length (filter (\<lambda>r. ar_created r < cutoff) (d_audit d)))
     (\<lambda>d. d\<lparr>d_audit := filter (\<lambda>r. \<not> ar_created r < cutoff) (d_audit d)\<rparr>)"

section \<open>The service (service.go)\<close>

record audit_svc =
  as_moderator :: moderator
  as_publisher :: bool
  as_reviewers :: "nat list"

definition is_reviewer :: "audit_svc \<Rightarrow> nat \<Rightarrow> bool" where
  "is_reviewer s acc \<longleftrightarrow> acc \<in> set (as_reviewers s)"

fun status_for :: "decision \<Rightarrow> audit_status" where
  "status_for DecisionPass = StatusApproved"
| "status_for DecisionBlock = StatusRejected"
| "status_for DecisionReview = StatusReviewing"

text \<open>\<open>truncate\<close> cuts at a number of bytes; the model keeps the runes that fit.\<close>

fun truncate :: "gostr \<Rightarrow> nat \<Rightarrow> gostr" where
  "truncate [] n = []"
| "truncate (r # rs) n = (if utf8_width r \<le> n then r # truncate rs (n - utf8_width r) else [])"

text \<open>The Chinese for "text moderation failed" and "media moderation failed".\<close>

definition text_failed :: gostr where "text_failed = [25991, 26412, 23457, 26680, 35843, 29992, 22833, 36133] @ lit '': ''"
definition media_failed :: gostr where "media_failed = [23186, 20307, 23457, 26680, 35843, 29992, 22833, 36133] @ lit '': ''"

definition evaluate :: "moderator \<Rightarrow> audit_target \<Rightarrow> result" where
  "evaluate m t = (let text = (if tg_description t \<noteq> [] then tg_title t @ 10 # tg_description t else tg_title t) in
     case md_text m text of
       Inl e \<Rightarrow> Review (lit ''error'') (text_failed @ e)
     | Inr r \<Rightarrow> if rs_decision r \<noteq> DecisionPass then r else
         (case md_media m (tg_play_url t) (tg_cover_url t) of
            Inl e \<Rightarrow> Review (lit ''error'') (media_failed @ e) | Inr r \<Rightarrow> r))"

definition verdict_record :: "audit_target \<Rightarrow> audit_status \<Rightarrow> audit_source \<Rightarrow> gostr \<Rightarrow> nat \<Rightarrow> result \<Rightarrow> audit_record" where
  "verdict_record t next source moderator operator r = \<lparr>ar_id = 0, ar_target = tg_id t, ar_from = tg_status t, ar_to = next,
     ar_source = source, ar_moderator = moderator, ar_operator = operator, ar_label = rs_label r,
     ar_detail = truncate (rs_detail r) 1000, ar_created = 0\<rparr>"

definition apply_tx :: "audit_svc \<Rightarrow> audit_target \<Rightarrow> audit_status \<Rightarrow> audit_source \<Rightarrow> gostr \<Rightarrow> nat \<Rightarrow> result \<Rightarrow> unit op" where
  "apply_tx s t next source moderator operator r =
     bnd (update_status (tg_id t) next) (\<lambda>_.
     bnd (append_record (verdict_record t next source moderator operator r)) (\<lambda>_.
     if next \<noteq> StatusApproved \<or> \<not> as_publisher s then ret () else enqueue_approved (tg_id t) (tg_author t)))"

definition apply_verdict :: "audit_svc \<Rightarrow> audit_target \<Rightarrow> audit_status \<Rightarrow> audit_source \<Rightarrow> gostr \<Rightarrow> nat \<Rightarrow> result \<Rightarrow> unit op" where
  "apply_verdict s t next source moderator operator r = transaction (apply_tx s t next source moderator operator r)"

definition moderate_video :: "audit_svc \<Rightarrow> nat \<Rightarrow> audit_status op" where
  "moderate_video s vid = bnd (load_for_audit vid) (\<lambda>r. case r of
      None \<Rightarrow> throw ErrTargetNotFound
    | Some t \<Rightarrow> if tg_status t = StatusApproved \<or> tg_status t = StatusRejected then ret (tg_status t) else
        let result = evaluate (as_moderator s) t; next = status_for (rs_decision result) in
        bnd (apply_verdict s t next SourceMachine (md_name (as_moderator s)) 0 result) (\<lambda>_. ret next))"

definition manual_review :: "audit_svc \<Rightarrow> nat \<Rightarrow> nat \<Rightarrow> bool \<Rightarrow> gostr \<Rightarrow> audit_status op" where
  "manual_review s operator vid approve note = fail_if (\<not> is_reviewer s operator) ErrNotReviewer (
     bnd (load_for_audit vid) (\<lambda>r. case r of
       None \<Rightarrow> throw ErrTargetNotFound
     | Some t \<Rightarrow> fail_if (tg_status t \<noteq> StatusReviewing \<and> tg_status t \<noteq> StatusPending) ErrNotReviewable (
         let next = (if approve then StatusApproved else StatusRejected);
             result = \<lparr>rs_decision = (if approve then DecisionPass else DecisionBlock), rs_label = lit ''manual'', rs_detail = note\<rparr> in
         bnd (apply_verdict s t next SourceManual (lit ''manual'') operator result) (\<lambda>_. ret next))))"

definition list_reviewing :: "int \<Rightarrow> nat \<Rightarrow> audit_target list op" where
  "list_reviewing limit0 offset = (let limit = (if limit0 \<le> 0 \<or> 100 < limit0 then 20 else nat limit0) in
     bnd (list_by_status StatusReviewing limit offset) (\<lambda>targets.
     if limit \<le> length targets then ret targets else
     bnd (list_by_status StatusPending (limit - length targets) offset) (\<lambda>pending. ret (targets @ pending))))"

section \<open>The consumer (audit worker)\<close>

text \<open>\<open>AuditRequested\<close> is a request for a video: the only \<open>target_type\<close> any sender writes.\<close>

definition handle_audit :: "audit_svc \<Rightarrow> envelope \<Rightarrow> unit op" where
  "handle_audit s ev = (if ev_type ev \<noteq> EventTypeAuditRequested then ret () else
     case ev_payload ev of
       AuditRequested vid author \<Rightarrow> bnd (result_of (moderate_video s vid)) (\<lambda>r. case r of
           Inl e \<Rightarrow> if e = ErrTargetNotFound then ret () else throw e | Inr _ \<Rightarrow> ret ())
     | _ \<Rightarrow> throw ErrOther)"

end
