(* ===== verification/Media.thy ===== *)
theory Media
  imports Tag
begin

text \<open>
  What an author sends with a video: the tags that are inferred from title and description when none
  are chosen (\<open>internal/tag/tag.go\<close>), and the media URLs, which must name one object below
  \<open>/static/\<close> (\<open>internal/video/media_validator.go\<close>). \<open>url.Parse\<close> of an absolute URL is the
  parameter \<open>url_path\<close>: the path it finds, or \<open>None\<close> for its error.
\<close>

section \<open>Inferred tags\<close>

definition maxPhraseRunes :: nat where "maxPhraseRunes = 16"

text \<open>\<open>\s\<close> of Go's regular expressions, and the class \<open>[^\s#]\<close>.\<close>

definition rx_space :: "rune \<Rightarrow> bool" where
  "rx_space r \<longleftrightarrow> r = 9 \<or> r = 10 \<or> r = 12 \<or> r = 13 \<or> r = 32"

definition hash_body :: "rune \<Rightarrow> bool" where
  "hash_body r \<longleftrightarrow> \<not> rx_space r \<and> r \<noteq> 35"

definition hash_label :: "gostr \<Rightarrow> gostr" where
  "hash_label s = takeWhile hash_body (take 32 s)"

text \<open>\<open>hashTagPattern\<close>: its groups, and the text with every match replaced by a space.\<close>

fun find_hashtags :: "gostr \<Rightarrow> gostr list" where
  "find_hashtags [] = []"
| "find_hashtags (r # rs) = (if r = 35 \<and> hash_label rs \<noteq> []
     then hash_label rs # find_hashtags (drop (length (hash_label rs)) rs) else find_hashtags rs)"

fun strip_hashtags :: "gostr \<Rightarrow> gostr" where
  "strip_hashtags [] = []"
| "strip_hashtags (r # rs) = (if r = 35 \<and> hash_label rs \<noteq> []
     then 32 # strip_hashtags (drop (length (hash_label rs)) rs) else r # strip_hashtags rs)"

text \<open>\<open>leftoverSplitter\<close>: \<open>#\<close>, white space and the punctuation of both scripts.\<close>

definition splitter :: "rune \<Rightarrow> bool" where
  "splitter r \<longleftrightarrow> rx_space r \<or> r \<in> {35, 44, 65292, 46, 12290, 59, 65307, 33, 65281, 63, 65311, 12289, 47, 124}"

function split_text :: "gostr \<Rightarrow> gostr \<Rightarrow> gostr list" where
  "split_text piece [] = [piece]"
| "split_text piece (r # rs) = (if splitter r then piece # split_text [] (dropWhile splitter rs)
     else split_text (piece @ [r]) rs)"
  by pat_completeness auto
termination by (relation "measure (\<lambda>(piece, rs). length rs)") (auto simp: less_Suc_eq_le length_dropWhile_le)

definition phrases_from :: "gostr \<Rightarrow> gostr list" where
  "phrases_from raw = filter (\<lambda>l. l \<noteq> [] \<and> length l \<le> maxPhraseRunes)
     (map compact (split_text [] (strip_hashtags raw)))"

fun hashtag_loop :: "gostr list \<Rightarrow> gostr list \<Rightarrow> gostr list" where
  "hashtag_loop out [] = out"
| "hashtag_loop out (m # ms) = (let label = compact m in
     if label = [] then hashtag_loop out ms
     else if label \<in> set out then hashtag_loop out ms
     else hashtag_loop (out @ [label]) ms)"

definition from_hashtags :: "gostr \<Rightarrow> gostr \<Rightarrow> gostr list" where
  "from_hashtags title description =
     hashtag_loop [] (take Max (find_hashtags (trim_space (title @ lit '' '' @ description))))"

definition infer :: "gostr \<Rightarrow> gostr \<Rightarrow> gostr list" where
  "infer title description =
     normalize (from_hashtags title description @ phrases_from title @ phrases_from description)"

definition for_publish :: "gostr list \<Rightarrow> gostr \<Rightarrow> gostr \<Rightarrow> gostr list" where
  "for_publish explicit title description = (let chosen = normalize explicit in
     if chosen \<noteq> [] then chosen else infer title description)"

lemma tag_list_for_publish: "tag_list (for_publish explicit title description)"
  by (simp add: for_publish_def infer_def Let_def tag_list_normalize)

section \<open>Media URLs\<close>

text \<open>\<open>path.Base\<close>.\<close>

definition path_base :: "gostr \<Rightarrow> gostr" where
  "path_base p = (if p = [] then lit ''.'' else
     let q = rev (dropWhile (\<lambda>r. r = 47) (rev p)); b = rev (takeWhile (\<lambda>r. r \<noteq> 47) (rev q))
     in if b = [] then lit ''/'' else b)"

definition has_prefix :: "gostr \<Rightarrow> gostr \<Rightarrow> bool" where
  "has_prefix p s \<longleftrightarrow> take (length p) s = p"

definition trim_prefix :: "gostr \<Rightarrow> gostr \<Rightarrow> gostr" where
  "trim_prefix p s = (if has_prefix p s then drop (length p) s else s)"

definition normalize_managed_url :: "(gostr \<Rightarrow> gostr option) \<Rightarrow> gostr \<Rightarrow> gostr \<Rightarrow> gostr option" where
  "normalize_managed_url url_path sub raw = (let relative_prefix = lit ''/static/'' @ sub @ lit ''/''; p = trim_space raw in
     if p = [] then None else
     let found = (if has_prefix (lit ''http://'') p \<or> has_prefix (lit ''https://'') p
       then (case url_path p of None \<Rightarrow> None | Some q \<Rightarrow> if q = [] then None else Some q) else Some p)
     in case found of None \<Rightarrow> None
     | Some q \<Rightarrow> if \<not> has_prefix relative_prefix q then None else
         let filename = trim_prefix relative_prefix q in
         if filename = [] \<or> filename \<noteq> path_base filename then None else Some (relative_prefix @ filename))"

definition normalize_publish_urls :: "(gostr \<Rightarrow> gostr option) \<Rightarrow> gostr \<Rightarrow> gostr \<Rightarrow> err + gostr \<times> gostr" where
  "normalize_publish_urls url_path play cover = (case normalize_managed_url url_path (lit ''videos'') play of
      None \<Rightarrow> Inl ErrInvalidPlayURL
    | Some p \<Rightarrow> if cover = [] then Inr (p, []) else
        (case normalize_managed_url url_path (lit ''covers'') cover of
          None \<Rightarrow> Inl ErrInvalidCoverURL | Some c \<Rightarrow> Inr (p, c)))"

definition is_playable :: "(gostr \<Rightarrow> gostr option) \<Rightarrow> video \<Rightarrow> bool" where
  "is_playable url_path v \<longleftrightarrow> normalize_managed_url url_path (lit ''videos'') (vid_play_url v) \<noteq> None
     \<and> (vid_cover_url v \<noteq> [] \<longrightarrow> normalize_managed_url url_path (lit ''covers'') (vid_cover_url v) \<noteq> None)"

definition filter_playable :: "(gostr \<Rightarrow> gostr option) \<Rightarrow> video list \<Rightarrow> video list" where
  "filter_playable url_path vs = filter (is_playable url_path) vs"

definition object_key :: "gostr \<Rightarrow> gostr" where
  "object_key url = trim_prefix (lit ''/static/'') url"

section \<open>What a normalised URL is\<close>

lemma path_base_self: "p \<noteq> [] \<Longrightarrow> p = path_base p \<longleftrightarrow> p = [47] \<or> 47 \<notin> set p"
proof
  assume p: "p \<noteq> []" "p = path_base p"
  show "p = [47] \<or> 47 \<notin> set p"
  proof (cases "rev (takeWhile (\<lambda>r. r \<noteq> 47) (rev (rev (dropWhile (\<lambda>r. r = 47) (rev p))))) = []")
    case True
    then have "path_base p = lit ''/''" using p(1) by (simp add: path_base_def)
    with p(2) show ?thesis by (simp add: lit_def)
  next
    case False
    then have "path_base p = rev (takeWhile (\<lambda>r. r \<noteq> 47) (rev (rev (dropWhile (\<lambda>r. r = 47) (rev p)))))"
      using p(1) by (simp add: path_base_def)
    with p(2) show ?thesis by (metis (mono_tags, lifting) set_rev set_takeWhileD)
  qed
next
  assume p: "p \<noteq> []" "p = [47] \<or> 47 \<notin> set p"
  show "p = path_base p"
  proof (cases "47 \<in> set p")
    case True
    with p show ?thesis by (auto simp: path_base_def lit_def)
  next
    case False
    then have d: "dropWhile (\<lambda>r. r = 47) (rev p) = rev p" and t: "takeWhile (\<lambda>r. r \<noteq> 47) (rev p) = rev p"
      by (auto intro!: dropWhile_no takeWhile_eq_all_conv [THEN iffD2])
    show ?thesis unfolding path_base_def d Let_def rev_rev_ident t using p(1) by simp
  qed
qed

lemma trim_prefix_append: "has_prefix p s \<Longrightarrow> s = p @ trim_prefix p s"
  unfolding has_prefix_def trim_prefix_def by (metis append_take_drop_id)

lemma has_prefix_append [simp]: "has_prefix p (p @ s)" "trim_prefix p (p @ s) = s"
  by (simp_all add: has_prefix_def trim_prefix_def)

definition managed_name :: "gostr \<Rightarrow> bool" where
  "managed_name name \<longleftrightarrow> name \<noteq> [] \<and> (name = [47] \<or> 47 \<notin> set name)"

lemma managed_url_shape:
  assumes "normalize_managed_url url_path sub raw = Some u"
  obtains name q where "u = lit ''/static/'' @ sub @ lit ''/'' @ name" "managed_name name"
    "u = trim_space raw \<or> url_path (trim_space raw) = Some u"
proof -
  let ?p = "lit ''/static/'' @ sub @ lit ''/''" and ?t = "trim_space raw"
  let ?found = "if has_prefix (lit ''http://'') ?t \<or> has_prefix (lit ''https://'') ?t
    then (case url_path ?t of None \<Rightarrow> None | Some q \<Rightarrow> if q = [] then None else Some q) else Some ?t"
  from assms obtain q where q: "?found = Some q" "has_prefix ?p q" "trim_prefix ?p q \<noteq> []"
    "trim_prefix ?p q = path_base (trim_prefix ?p q)" "u = ?p @ trim_prefix ?p q"
    unfolding normalize_managed_url_def Let_def by (auto split: option.splits if_splits)
  have "q = u" using trim_prefix_append [OF q(2)] q(5) by simp
  moreover have "q = ?t \<or> url_path ?t = Some q" using q(1) by (auto split: option.splits if_splits)
  moreover have "managed_name (trim_prefix ?p q)" using q(3,4) path_base_self unfolding managed_name_def by blast
  ultimately show thesis using q(5) by (intro that [of "trim_prefix ?p q"]) simp_all
qed

lemma normalize_managed_again:
  assumes "u = lit ''/static/'' @ sub @ lit ''/'' @ name" "managed_name name" "trim_space u = u"
  shows "normalize_managed_url url_path sub u = Some u"
proof -
  have "u \<noteq> []" "\<not> has_prefix (lit ''http://'') u" "\<not> has_prefix (lit ''https://'') u"
    using assms(1) by (simp_all add: lit_def has_prefix_def)
  moreover have "name = path_base name" "name \<noteq> []" using assms(2) path_base_self unfolding managed_name_def by blast+
  ultimately show ?thesis
    using assms(1,3) has_prefix_append [of "lit ''/static/'' @ sub @ lit ''/''" name]
    unfolding normalize_managed_url_def Let_def by simp
qed

lemma normalize_managed_twice:
  assumes "normalize_managed_url url_path sub raw = Some u" "\<And>x p. url_path x = Some p \<Longrightarrow> trim_space p = p"
  shows "normalize_managed_url url_path sub u = Some u"
proof -
  from assms(1) obtain name where u: "u = lit ''/static/'' @ sub @ lit ''/'' @ name" "managed_name name"
    "u = trim_space raw \<or> url_path (trim_space raw) = Some u" by (rule managed_url_shape)
  then have "trim_space u = u" using assms(2) trim_space_idem by metis
  with u(1,2) show ?thesis by (rule normalize_managed_again)
qed

lemma normalize_publish_cases:
  "normalize_publish_urls url_path play cover = Inr (p, c) \<longleftrightarrow>
     normalize_managed_url url_path (lit ''videos'') play = Some p \<and>
     (if cover = [] then c = [] else normalize_managed_url url_path (lit ''covers'') cover = Some c)"
  by (auto simp: normalize_publish_urls_def split: option.splits)

text \<open>Media URLs: a pair of URLs that publishing accepts names one object directly below the folders of
  videos and covers, and reading finds the stored pair playable and unchanged. What the code relies on is
  that the path of an absolute URL carries no white space at its ends.\<close>

lemma accepted_media_is_playable:
  assumes "normalize_publish_urls url_path play cover = Inr (vid_play_url v, vid_cover_url v)"
    "\<forall>x p. url_path x = Some p \<longrightarrow> trim_space p = p"
  shows "is_playable url_path v
    \<and> normalize_publish_urls url_path (vid_play_url v) (vid_cover_url v) = Inr (vid_play_url v, vid_cover_url v)
    \<and> (\<exists>name. vid_play_url v = lit ''/static/videos/'' @ name \<and> managed_name name
         \<and> object_key (vid_play_url v) = lit ''videos/'' @ name)"
proof -
  have trimmed: "\<And>x p. url_path x = Some p \<Longrightarrow> trim_space p = p" using assms(2) by blast
  have play: "normalize_managed_url url_path (lit ''videos'') play = Some (vid_play_url v)"
    using assms(1) unfolding normalize_publish_cases by blast
  obtain name where "vid_play_url v = lit ''/static/'' @ lit ''videos'' @ lit ''/'' @ name" "managed_name name"
    using play by (rule managed_url_shape)
  then have name: "vid_play_url v = lit ''/static/videos/'' @ name \<and> managed_name name
      \<and> object_key (vid_play_url v) = lit ''videos/'' @ name"
    by (simp add: lit_def object_key_def trim_prefix_def has_prefix_def)
  have again: "normalize_managed_url url_path (lit ''videos'') (vid_play_url v) = Some (vid_play_url v)"
    by (rule normalize_managed_twice [OF play trimmed])
  have cover: "vid_cover_url v \<noteq> [] \<Longrightarrow> normalize_managed_url url_path (lit ''covers'') (vid_cover_url v) = Some (vid_cover_url v)"
    using assms(1) normalize_managed_twice [OF _ trimmed] unfolding normalize_publish_cases by (auto split: if_splits)
  show ?thesis
    using name again cover unfolding normalize_publish_cases is_playable_def by auto
qed

text \<open>An absolute URL of the site's own object, with a query.\<close>

definition media_video :: video where
  "media_video = \<lparr>vid_id = 1, vid_author = 1, vid_username = [], vid_title = [], vid_description = [], vid_tags = [],
     vid_play_url = lit ''/static/videos/a.mp4'', vid_cover_url = [], vid_likes = 0, vid_comments = 0, vid_popularity = 0,
     vid_audit = StatusPending, vid_lifecycle = LifecycleUnset, vid_deleted_at = None, vid_created = 0\<rparr>"

theorem accepted_media_is_playable_witness:
  "normalize_publish_urls (\<lambda>_. Some (lit ''/static/videos/a.mp4'')) (lit ''https://x/static/videos/a.mp4?k=1'') []
     = Inr (vid_play_url media_video, vid_cover_url media_video)
   \<and> is_playable (\<lambda>_. Some (lit ''/static/videos/a.mp4'')) media_video"
proof -
  have a: "normalize_publish_urls (\<lambda>_. Some (lit ''/static/videos/a.mp4'')) (lit ''https://x/static/videos/a.mp4?k=1'') []
     = Inr (vid_play_url media_video, vid_cover_url media_video)"
    by (simp add: media_video_def normalize_publish_urls_def normalize_managed_url_def has_prefix_def trim_prefix_def
        path_base_def trim_space_def is_space_def lit_def)
  have "\<forall>x p. (\<lambda>_. Some (lit ''/static/videos/a.mp4'')) x = Some p \<longrightarrow> trim_space p = p"
    by (simp add: trim_space_def is_space_def lit_def)
  with accepted_media_is_playable [OF a] a show ?thesis by blast
qed

end
