(* ===== verification/Video_Service.thy ===== *)
theory Video_Service
  imports Video_Audit Media "HOL-Library.Product_Lexorder"
begin

text \<open>
  What an author does with a video: drafts, publishing under an idempotency key, taking a video off and
  putting it back, deleting it; and what a reviewer does from outside the audit, the takedown
  (\<open>internal/video/service.go\<close>, \<open>lifecycle.go\<close>, \<open>repo.go\<close>, \<open>internal/idempotency/entity.go\<close>).
  \<open>video_svc\<close> is the service: its collaborators, the object store as the answer of \<open>StatMedia\<close>, and
  the two functions of libraries it uses: \<open>url.Parse\<close>, and \<open>vs_hash\<close>, the hexadecimal SHA-256 of the
  JSON of a request.
\<close>

datatype stat = StatFound | StatMissing | StatFailed

record video_svc =
  vs_url_path :: "gostr \<Rightarrow> gostr option"
  vs_hash :: "gostr \<Rightarrow> gostr \<Rightarrow> gostr list \<Rightarrow> gostr \<Rightarrow> gostr \<Rightarrow> gostr"
  vs_store :: "(gostr \<Rightarrow> stat) option"
  vs_popularity :: bool
  vs_detail :: bool
  vs_local :: bool
  vs_publisher :: bool
  vs_audit :: bool

definition maxDraftsPerAuthor :: nat where "maxDraftsPerAuthor = 20"
definition maxTitleRunes :: nat where "maxTitleRunes = 128"
definition maxDescriptionRunes :: nat where "maxDescriptionRunes = 1000"
definition maxIdempotencyKeyLength :: nat where "maxIdempotencyKeyLength = 128"

section \<open>Rows (repo.go)\<close>

definition create_video :: "video \<Rightarrow> video op" where
  "create_video v = bnd read_now (\<lambda>now. let row = (\<lambda>i. v\<lparr>vid_id := i, vid_created := now\<rparr>) in
     bnd (create Videos no_dup (\<lambda>i d. d\<lparr>d_videos := d_videos d @ [row i]\<rparr>)) (\<lambda>i. ret (row i)))"

definition update_fields :: "nat \<Rightarrow> (video \<Rightarrow> video) \<Rightarrow> unit op" where
  "update_fields i f = exec (\<lambda>d. d\<lparr>d_videos := update_where (\<lambda>v. vid_id v = i) f (d_videos d)\<rparr>)"

definition own_draft :: "nat \<Rightarrow> video \<Rightarrow> bool" where
  "own_draft acc v \<longleftrightarrow> scopeDrafts v \<and> vid_author v = acc"

definition count_drafts :: "nat \<Rightarrow> nat op" where
  "count_drafts acc = query (\<lambda>d. length (filter (own_draft acc) (d_videos d)))"

definition find_draft_by_play_url :: "nat \<Rightarrow> gostr \<Rightarrow> video option op" where
  "find_draft_by_play_url acc url = query (\<lambda>d. case newest vid_id (\<lambda>v. own_draft acc v \<and> vid_play_url v = url) (d_videos d) of
     [] \<Rightarrow> None | v # _ \<Rightarrow> Some v)"

definition find_by_author :: "nat \<Rightarrow> nat \<Rightarrow> video list op" where
  "find_by_author author viewer = query (\<lambda>d. rev (sort_key (\<lambda>v. (vid_created v, vid_id v))
     (filter (\<lambda>v. vid_author v = author \<and> (if viewer \<noteq> author then ScopePublic v else scopeAuthorOwned v)) (d_videos d))))"

definition find_by_author_all :: "nat \<Rightarrow> int \<Rightarrow> video list op" where
  "find_by_author_all author limit0 = (let limit = (if limit0 \<le> 0 \<or> 100 < limit0 then 50 else nat limit0) in
     query (\<lambda>d. take limit (rev (sort_key (\<lambda>v. (vid_created v, vid_id v))
       (filter (\<lambda>v. vid_author v = author \<and> vid_deleted_at v = None) (d_videos d))))))"

section \<open>What the operations share\<close>

definition stat_object :: "video_svc \<Rightarrow> gostr \<Rightarrow> err \<Rightarrow> unit op" where
  "stat_object s url missing = (case vs_store s of None \<Rightarrow> ret ()
     | Some stat \<Rightarrow> (case stat (object_key url) of
         StatFound \<Rightarrow> ret () | StatMissing \<Rightarrow> throw missing | StatFailed \<Rightarrow> throw ErrOther))"

definition checked_urls :: "video_svc \<Rightarrow> gostr \<Rightarrow> gostr \<Rightarrow> (gostr \<times> gostr) op" where
  "checked_urls s play0 cover0 = bnd (lift (normalize_publish_urls (vs_url_path s) play0 cover0)) (\<lambda>(play, cover).
     bnd (stat_object s play ErrInvalidPlayURL) (\<lambda>_.
     bnd (whenever (cover \<noteq> []) (stat_object s cover ErrInvalidCoverURL)) (\<lambda>_. ret (play, cover))))"

definition invalidate_detail_cache :: "video_svc \<Rightarrow> nat \<Rightarrow> unit op" where
  "invalidate_detail_cache s vid = bnd (whenever (vs_detail s) (call (DetailCacheDelete vid))) (\<lambda>_.
     whenever (vs_publisher s) (call (PublishInvalidated vid)))"

definition set_detail_not_found :: "video_svc \<Rightarrow> nat \<Rightarrow> unit op" where
  "set_detail_not_found s vid = bnd (whenever (vs_detail s) (call (DetailCacheSetNotFound vid))) (\<lambda>_.
     whenever (vs_local s) (call (LocalDetailSetNotFound vid)))"

definition owned_mutable :: "nat \<Rightarrow> nat \<Rightarrow> video op" where
  "owned_mutable acc i = bnd (video_by_id i) (\<lambda>r. case r of
     None \<Rightarrow> throw ErrVideoNotFound
   | Some v \<Rightarrow> fail_if (IsDeleted v \<or> vid_author v \<noteq> acc) ErrVideoNotFound (ret v))"

definition clip_runes :: "gostr \<Rightarrow> nat \<Rightarrow> gostr" where
  "clip_runes raw most = (let s = trim_space raw in if most = 0 \<or> length s \<le> most then s else take most s)"

section \<open>Drafts (lifecycle.go)\<close>

record draft_request =
  dr_id :: nat
  dr_title :: gostr
  dr_description :: gostr
  dr_tags :: "gostr list"
  dr_play :: gostr
  dr_cover :: gostr

definition new_video :: "nat \<Rightarrow> video" where
  "new_video acc = \<lparr>vid_id = 0, vid_author = acc, vid_username = [], vid_title = [], vid_description = [], vid_tags = [],
     vid_play_url = [], vid_cover_url = [], vid_likes = 0, vid_comments = 0, vid_popularity = 0, vid_audit = StatusPending,
     vid_lifecycle = LifecycleUnset, vid_deleted_at = None, vid_created = 0\<rparr>"

definition edit_video :: "gostr \<Rightarrow> gostr \<Rightarrow> gostr \<Rightarrow> gostr list \<Rightarrow> gostr \<Rightarrow> gostr \<Rightarrow> video \<Rightarrow> video" where
  "edit_video username title description tags play cover v = v\<lparr>vid_username := username, vid_title := title,
     vid_description := description, vid_tags := tags, vid_play_url := play, vid_cover_url := cover\<rparr>"

definition as_draft :: "video \<Rightarrow> video" where
  "as_draft v = v\<lparr>vid_lifecycle := LifecycleDraft, vid_audit := StatusPending\<rparr>"

definition save_draft :: "video_svc \<Rightarrow> nat \<Rightarrow> gostr \<Rightarrow> draft_request \<Rightarrow> video op" where
  "save_draft s acc username req = bnd (checked_urls s (dr_play req) (dr_cover req)) (\<lambda>(play, cover).
     let title = clip_runes (dr_title req) maxTitleRunes;
         description = clip_runes (dr_description req) maxDescriptionRunes;
         tags = for_publish (dr_tags req) title description;
         edit = (\<lambda>v. as_draft (edit_video username title description tags play cover v)) in
     bnd (if dr_id req > 0
          then bnd (owned_mutable acc (dr_id req)) (\<lambda>v. fail_if (\<not> IsDraft v) ErrNotDraft (ret (Some v)))
          else find_draft_by_play_url acc play) (\<lambda>existing.
     bnd (case existing of
            None \<Rightarrow> bnd (count_drafts acc) (\<lambda>n. fail_if (maxDraftsPerAuthor \<le> n) ErrDraftLimitReached
              (create_video (edit (new_video acc))))
          | Some v \<Rightarrow> bnd (update_fields (vid_id v) edit) (\<lambda>_. ret (edit v))) (\<lambda>v.
     bnd (invalidate_detail_cache s (vid_id v)) (\<lambda>_. ret v))))"

definition unpublish :: "video_svc \<Rightarrow> nat \<Rightarrow> nat \<Rightarrow> video op" where
  "unpublish s acc i = bnd (owned_mutable acc i) (\<lambda>v.
     fail_if (IsDraft v) ErrCannotUnpublish (
     if IsUnpublished v then ret v else
     fail_if (EffectiveLifecycle v \<noteq> LifecyclePublished) ErrCannotUnpublish (
     bnd (update_fields (vid_id v) (\<lambda>v. v\<lparr>vid_lifecycle := LifecycleUnpublished\<rparr>)) (\<lambda>_.
     bnd (invalidate_detail_cache s (vid_id v)) (\<lambda>_. ret (v\<lparr>vid_lifecycle := LifecycleUnpublished\<rparr>))))))"

definition relist_tx :: "video \<Rightarrow> unit op" where
  "relist_tx v = bnd (update_fields (vid_id v) (\<lambda>v. v\<lparr>vid_lifecycle := LifecyclePublished\<rparr>)) (\<lambda>_.
     whenever (IsPublic (vid_audit v)) (enqueue_on_publish (vid_id v) (vid_author v)))"

definition relist :: "video_svc \<Rightarrow> nat \<Rightarrow> nat \<Rightarrow> video op" where
  "relist s acc i = bnd (owned_mutable acc i) (\<lambda>v.
     fail_if (IsDraft v) ErrCannotRelist (
     if EffectiveLifecycle v = LifecyclePublished then ret v else
     fail_if (\<not> IsUnpublished v) ErrCannotRelist (
     bnd (transaction (relist_tx v)) (\<lambda>_.
     bnd (invalidate_detail_cache s (vid_id v)) (\<lambda>_. ret (v\<lparr>vid_lifecycle := LifecyclePublished\<rparr>))))))"

definition delete_video :: "video_svc \<Rightarrow> nat \<Rightarrow> nat \<Rightarrow> unit op" where
  "delete_video s acc i = bnd (owned_mutable acc i) (\<lambda>v. bnd read_now (\<lambda>now.
     bnd (update_fields (vid_id v) (\<lambda>v. v\<lparr>vid_deleted_at := Some now\<rparr>)) (\<lambda>_.
     bnd (invalidate_detail_cache s (vid_id v)) (\<lambda>_. set_detail_not_found s (vid_id v)))))"

section \<open>Idempotency keys (internal/idempotency)\<close>

definition key_scope :: "nat \<Rightarrow> gostr \<Rightarrow> idem_key \<Rightarrow> bool" where
  "key_scope acc key k \<longleftrightarrow> ik_account k = acc \<and> ik_key k = key"

text \<open>\<open>CreateProcessing\<close>: the identifier of the new row, or \<open>None\<close> when the key is taken.\<close>

definition create_processing :: "nat \<Rightarrow> gostr \<Rightarrow> gostr \<Rightarrow> nat option op" where
  "create_processing acc key hash = bnd (result_of (create IdempotencyKeys
     (\<lambda>_ d. \<exists>k \<in> set (d_idem d). key_scope acc key k)
     (\<lambda>i d. d\<lparr>d_idem := d_idem d @ [\<lparr>ik_id = i, ik_account = acc, ik_key = key, ik_hash = hash, ik_resource = 0,
        ik_done = False, ik_response = None\<rparr>]\<rparr>))) (\<lambda>r. case r of
     Inr i \<Rightarrow> ret (Some i) | Inl e \<Rightarrow> if e = DbDuplicate then ret None else throw e)"

definition find_by_scope :: "nat \<Rightarrow> gostr \<Rightarrow> idem_key op" where
  "find_by_scope acc key = bnd (query (\<lambda>d. find (key_scope acc key) (d_idem d))) (\<lambda>r. case r of
     None \<Rightarrow> throw ErrOther | Some k \<Rightarrow> ret k)"

definition mark_done :: "nat \<Rightarrow> nat \<Rightarrow> video \<Rightarrow> unit op" where
  "mark_done i resource response = exec (\<lambda>d. d\<lparr>d_idem := update_where (\<lambda>k. ik_id k = i)
     (\<lambda>k. k\<lparr>ik_done := True, ik_resource := resource, ik_response := Some response\<rparr>) (d_idem d)\<rparr>)"

definition normalize_idempotency_key :: "gostr \<Rightarrow> err + gostr" where
  "normalize_idempotency_key raw = (let key = trim_space raw in
     if key = [] then Inl ErrIdempotencyKeyRequired
     else if maxIdempotencyKeyLength < byte_len key then Inl ErrIdempotencyKeyTooLong else Inr key)"

section \<open>Publishing (service.go)\<close>

record publish_request =
  pq_draft :: nat
  pq_title :: gostr
  pq_description :: gostr
  pq_tags :: "gostr list"
  pq_play :: gostr
  pq_cover :: gostr

definition initial_audit_status :: "video_svc \<Rightarrow> audit_status" where
  "initial_audit_status s = (if vs_audit s then StatusPending else StatusApproved)"

definition reload_published :: "video_svc \<Rightarrow> idem_key \<Rightarrow> video option op" where
  "reload_published s k = (if \<not> ik_done k \<or> ik_resource k = 0 then ret None else
     bnd (video_by_id (ik_resource k)) (\<lambda>r. ret (map_option
       (\<lambda>v. if vs_popularity s \<and> vid_popularity v = 0 then v\<lparr>vid_popularity := PublishWeight\<rparr> else v) r)))"

definition replay_published :: "video_svc \<Rightarrow> idem_key \<Rightarrow> video option op" where
  "replay_published s k = (case ik_response k of
     Some v \<Rightarrow> if vid_id v \<noteq> 0 then ret (Some v) else reload_published s k | None \<Rightarrow> reload_published s k)"

definition find_promotable_draft :: "nat \<Rightarrow> nat \<Rightarrow> gostr \<Rightarrow> video option op" where
  "find_promotable_draft acc draft play = (if draft > 0
     then bnd (video_by_id draft) (\<lambda>r. case r of
         None \<Rightarrow> throw ErrVideoNotFound
       | Some v \<Rightarrow> fail_if (IsDeleted v \<or> vid_author v \<noteq> acc) ErrVideoNotFound (fail_if (\<not> IsDraft v) ErrNotDraft (ret (Some v))))
     else find_draft_by_play_url acc play)"

definition as_published :: "video_svc \<Rightarrow> video \<Rightarrow> video" where
  "as_published s v = v\<lparr>vid_lifecycle := LifecyclePublished, vid_audit := initial_audit_status s, vid_popularity := PublishWeight\<rparr>"

definition promote_draft :: "video_svc \<Rightarrow> video \<Rightarrow> (video \<Rightarrow> video) \<Rightarrow> video op" where
  "promote_draft s draft edit = bnd read_now (\<lambda>now. let f = (\<lambda>v. (as_published s (edit v))\<lparr>vid_created := now\<rparr>) in
     bnd (update_fields (vid_id draft) f) (\<lambda>_. ret (f draft)))"

definition enqueue_after_create :: "video_svc \<Rightarrow> video \<Rightarrow> unit op" where
  "enqueue_after_create s v = (if \<not> vs_audit s then enqueue_on_publish (vid_id v) (vid_author v)
     else enqueue_event EventTypeAuditRequested (AuditRequested (vid_id v) (vid_author v)))"

text \<open>The transaction answers the video and whether it is new.\<close>

definition publish_tx :: "video_svc \<Rightarrow> nat \<Rightarrow> gostr \<Rightarrow> gostr \<Rightarrow> publish_request \<Rightarrow> gostr list \<Rightarrow> gostr \<Rightarrow> gostr \<Rightarrow> (video \<times> bool) op" where
  "publish_tx s acc username key req tags play cover =
     (let hash = vs_hash s (pq_title req) (pq_description req) tags play cover;
          edit = edit_video username (pq_title req) (pq_description req) tags play cover in
     bnd (create_processing acc key hash) (\<lambda>inserted. case inserted of
       None \<Rightarrow> bnd (find_by_scope acc key) (\<lambda>existing.
         fail_if (ik_hash existing \<noteq> hash) ErrIdempotencyConflict (
         bnd (replay_published s existing) (\<lambda>r. case r of None \<Rightarrow> throw ErrIdempotencyBusy | Some v \<Rightarrow> ret (v, False))))
     | Some row \<Rightarrow>
         bnd (find_promotable_draft acc (pq_draft req) play) (\<lambda>draft.
         bnd (case draft of Some d \<Rightarrow> promote_draft s d edit
                | None \<Rightarrow> create_video (as_published s (edit (new_video acc)))) (\<lambda>v.
         bnd (enqueue_after_create s v) (\<lambda>_.
         bnd (mark_done row (vid_id v) (if vs_popularity s then v\<lparr>vid_popularity := PublishWeight\<rparr> else v)) (\<lambda>_.
         ret (v, True)))))))"

definition publish :: "video_svc \<Rightarrow> nat \<Rightarrow> gostr \<Rightarrow> gostr \<Rightarrow> publish_request \<Rightarrow> video op" where
  "publish s acc username raw_key req = bnd (lift (normalize_idempotency_key raw_key)) (\<lambda>key.
     bnd (checked_urls s (pq_play req) (pq_cover req)) (\<lambda>(play, cover).
     let tags = for_publish (pq_tags req) (pq_title req) (pq_description req) in
     bnd (transaction (publish_tx s acc username key req tags play cover)) (\<lambda>(v, created).
     bnd (whenever created (invalidate_detail_cache s (vid_id v))) (\<lambda>_.
     ret (if created \<and> vs_popularity s then v\<lparr>vid_popularity := PublishWeight\<rparr> else v)))))"

section \<open>Takedown (service.go)\<close>

definition takedown_tx :: "video \<Rightarrow> nat \<Rightarrow> gostr \<Rightarrow> gostr \<Rightarrow> unit op" where
  "takedown_tx v operator note moderator = bnd (update_status (vid_id v) StatusRejected) (\<lambda>_.
     append_record \<lparr>ar_id = 0, ar_target = vid_id v, ar_from = vid_audit v, ar_to = StatusRejected, ar_source = SourceManual,
       ar_moderator = moderator, ar_operator = operator, ar_label = moderator, ar_detail = note, ar_created = 0\<rparr>)"

definition takedown_as :: "video_svc \<Rightarrow> nat \<Rightarrow> nat \<Rightarrow> gostr \<Rightarrow> gostr \<Rightarrow> unit op" where
  "takedown_as s i operator note moderator = bnd (video_by_id i) (\<lambda>r. case r of
     None \<Rightarrow> throw ErrVideoNotFound
   | Some v \<Rightarrow> bnd (transaction (takedown_tx v operator note moderator)) (\<lambda>_. invalidate_detail_cache s i))"

definition takedown :: "video_svc \<Rightarrow> nat \<Rightarrow> nat \<Rightarrow> gostr \<Rightarrow> unit op" where
  "takedown s i operator note = takedown_as s i operator note (lit ''report'')"

definition admin_takedown :: "video_svc \<Rightarrow> nat \<Rightarrow> nat \<Rightarrow> gostr \<Rightarrow> unit op" where
  "admin_takedown s i operator note = takedown_as s i operator note (lit ''admin'')"

definition lookup_for_review :: "nat \<Rightarrow> video op" where
  "lookup_for_review i = bnd (video_by_id i) (\<lambda>r. case r of None \<Rightarrow> throw ErrVideoNotFound | Some v \<Rightarrow> ret v)"

definition list_by_author_for_review :: "nat \<Rightarrow> video list op" where
  "list_by_author_for_review author = find_by_author_all author 50"

end
