(* ===== verification/Progress.thy ===== *)
theory Progress
  imports Tx
begin

text \<open>
  Programs that keep an invariant of a part of the database. \<open>reached u w\<close>: the invariant holds in
  \<open>w\<close>, and the part has advanced from where it was in \<open>u\<close>. \<open>goes u m w\<close>: the program \<open>m\<close>, run in
  \<open>w\<close>, stays on the way from \<open>u\<close>, whatever it answers. The rules follow the shape of the services:
  queries, then a transaction, then calls that touch no table.
\<close>

definition reached :: "('s \<Rightarrow> 'b) \<Rightarrow> ((table \<Rightarrow> nat) \<Rightarrow> 'b \<Rightarrow> bool) \<Rightarrow> ('b \<Rightarrow> 'b \<Rightarrow> bool) \<Rightarrow> 's world \<Rightarrow> 's world \<Rightarrow> bool" where
  "reached g J A u w \<longleftrightarrow> J (seqs w) (g (tabs w)) \<and> A (g (tabs u)) (g (tabs w))"

definition goes :: "('s \<Rightarrow> 'b) \<Rightarrow> ((table \<Rightarrow> nat) \<Rightarrow> 'b \<Rightarrow> bool) \<Rightarrow> ('b \<Rightarrow> 'b \<Rightarrow> bool) \<Rightarrow> 's world \<Rightarrow> ('s, 'a) tx \<Rightarrow> 's world \<Rightarrow> bool" where
  "goes g J A u m w \<longleftrightarrow> reached g J A u w \<longrightarrow> wp m (\<lambda>_. reached g J A u) (\<lambda>_. reached g J A u) w"

lemma reads_same:
  assumes "steps (frame (\<lambda>d. d)) m" "m w = (r, v)"
  shows "tabs v = tabs w \<and> (\<forall>t. seqs w t \<le> seqs v t)"
  using stepsD [OF assms] steps_seqsD [OF assms] by blast

context table_inv
begin

lemma reached_refl: "J (seqs w) (g (tabs w)) \<Longrightarrow> reached g J A w w"
  by (simp add: reached_def refl)

lemma reached_env:
  "reached g J A u w \<Longrightarrow> g (tabs v) = g (tabs w) \<Longrightarrow> \<forall>t. seqs w t \<le> seqs v t \<Longrightarrow> reached g J A u v"
  using mono [of "seqs w" "g (tabs w)" "seqs v"] by (simp add: reached_def)

lemma reached_trans: "reached g J A u w \<Longrightarrow> tabs v = tabs w \<Longrightarrow> reached g J A v x \<Longrightarrow> reached g J A u x"
  using steady [of "g (tabs u)" "g (tabs w)" "g (tabs x)"] by (simp add: reached_def)

lemma wp_rest:
  fixes u w :: "'s world"
  assumes "steps (frame g) m" "reached g J A u w"
  shows "wp m (\<lambda>_. reached g J A u) (\<lambda>_ _. True) w"
proof (rule wpI)
  fix x and w' :: "'s world" assume "m w = (Inr x, w')"
  then show "reached g J A u w'" using stepsD [OF assms(1)] steps_seqsD [OF assms(1)] assms(2) reached_env by blast
qed simp

lemma goes_frame:
  fixes u w :: "'s world"
  assumes m: "steps (frame g) m"
  shows "goes g J A u m w"
proof -
  have "reached g J A u w'" if "reached g J A u w" "m w = (r, w')" for r w'
    using reached_env [OF that(1)] stepsD [OF m that(2)] steps_seqsD [OF m that(2)] by blast
  then show ?thesis by (auto simp: goes_def intro: wpI)
qed

lemma goes_bnd: "goes g J A u m w \<Longrightarrow> (\<And>x v. goes g J A u (f x) v) \<Longrightarrow> goes g J A u (bnd m f) w"
  by (auto simp: goes_def wp_bnd elim!: wp_mono)

lemma goes_throw: "goes g J A u (throw e) w"
  by (rule goes_frame [OF framed.steps_env(2)])

lemma goes_ret: "goes g J A u (ret x) w"
  by (rule goes_frame [OF framed.steps_env(1)])

lemma goes_result_of: "goes g J A u m w \<Longrightarrow> goes g J A u (result_of m) w"
  by (simp add: goes_def wp_result_of)

lemma goes_transaction:
  fixes u w :: "'s world"
  assumes "reached g J A u w \<Longrightarrow> wp m (\<lambda>_. reached g J A (next_stmt w)) (\<lambda>_ _. True) (next_stmt w)" "steps grows m"
  shows "goes g J A u (transaction m) w"
  unfolding goes_def
proof
  assume w: "reached g J A u w"
  have on: "reached g J A u (next_stmt v)" if "reached g J A (next_stmt w) v" for v
    by (rule reached_env [OF reached_trans [OF w _ that]]) simp_all
  have "wp m (\<lambda>_ v. reached g J A u (next_stmt v)) (\<lambda>_ _. True) (next_stmt w)"
    by (rule wp_mono [OF assms(1) [OF w]]) (simp_all add: on)
  then have "wp (transaction m) (\<lambda>_. reached g J A u) (\<lambda>_ w'. tabs w' = tabs w \<and> (\<forall>t. seqs w t \<le> seqs w' t)) w"
    using assms(2) by (rule wp_transaction_or)
  then show "wp (transaction m) (\<lambda>_. reached g J A u) (\<lambda>_. reached g J A u) w"
    by (rule wp_mono) (use reached_env [OF w] in auto)
qed

text \<open>A program that only reads hands on what it has found, in the state it has read.\<close>

lemma goes_reads:
  fixes u w :: "'s world"
  assumes "steps (frame (\<lambda>d. d)) m" "wp m (\<lambda>x _. P x) (\<lambda>_ _. True) w"
    "\<And>x v. tabs v = tabs w \<Longrightarrow> P x \<Longrightarrow> goes g J A u (f x) v"
  shows "goes g J A u (bnd m f) w"
  unfolding goes_def
proof
  assume w: "reached g J A u w"
  have err: "reached g J A u v" if "m w = (r, v)" for r v
    using reached_env [OF w] reads_same [OF assms(1) that] by simp
  have ok: "wp (f x) (\<lambda>_. reached g J A u) (\<lambda>_. reached g J A u) v" if "m w = (Inr x, v)" for x v
    using assms(3) reads_same [OF assms(1) that] wp_ok [OF assms(2) that] err [OF that] by (simp add: goes_def)
  show "wp (bnd m f) (\<lambda>_. reached g J A u) (\<lambda>_. reached g J A u) w"
    unfolding wp_bnd by (rule wpI) (erule ok err)+
qed

lemma goes_keeps: "(\<And>w. goes g J A w m w) \<Longrightarrow> steps grows m \<Longrightarrow> steps (keeps g J A) m"
  by (rule always) (simp_all add: goes_def holds_def reached_def [abs_def] refl)

lemma goes_after:
  "goes g J A w m w \<Longrightarrow> J (seqs w) (g (tabs w)) \<Longrightarrow> reached g J A w (snd (m w))"
  using reached_refl [of w] by (auto simp: goes_def wp_def split: prod.splits sum.splits)

end

end
