(* ===== verification/Video_Invariants.thy ===== *)
theory Video_Invariants
  imports Video_Service Progress
begin

text \<open>
  What every operation on videos keeps. A video is in one of four phases, and its row only moves along
  the abstract life cycle \<open>moves\<close>; its author never changes; an author has at most twenty drafts; with
  the audit enabled, a status other than pending is the last verdict on record; a key of idempotency
  belongs to one finished request. \<open>shelf\<close> is the part of the database all this is about.
\<close>

section \<open>The life cycle\<close>

datatype phase = Draft | Listed | Unlisted | Gone

definition phase_of :: "video \<Rightarrow> phase" where
  "phase_of v = (if IsDeleted v then Gone else if IsDraft v then Draft else if IsUnpublished v then Unlisted else Listed)"

inductive move :: "phase \<Rightarrow> phase \<Rightarrow> bool" where
  release: "move Draft Listed"
| take_off: "move Listed Unlisted"
| put_back: "move Unlisted Listed"
| discard: "p \<noteq> Gone \<Longrightarrow> move p Gone"

inductive_simps move_simps [simp]: "move Gone q" "move p Draft"

abbreviation moves :: "phase \<Rightarrow> phase \<Rightarrow> bool" where
  "moves \<equiv> move\<^sup>*\<^sup>*"

lemma moves_Gone [simp]: "moves Gone q \<longleftrightarrow> q = Gone"
  by (auto elim: converse_rtranclpE)

lemma moves_Draft [simp]: "moves p Draft \<longleftrightarrow> p = Draft"
  by (auto elim: rtranclp.cases)

section \<open>The invariant\<close>

type_synonym shelf = "video list \<times> audit_record list \<times> idem_key list"

abbreviation shelf_of :: "db \<Rightarrow> shelf" where
  "shelf_of d \<equiv> (d_videos d, d_audit d, d_idem d)"

definition last_verdict :: "audit_record list \<Rightarrow> nat \<Rightarrow> audit_status option" where
  "last_verdict rs i = (case rev (filter (\<lambda>r. ar_target r = i) rs) of [] \<Rightarrow> None | r # _ \<Rightarrow> Some (ar_to r))"

lemma last_verdict_simps [simp]:
  "last_verdict [] i = None"
  "last_verdict (rs @ [r]) i = (if ar_target r = i then Some (ar_to r) else last_verdict rs i)"
  by (simp_all add: last_verdict_def)

definition judged :: "audit_record list \<Rightarrow> video \<Rightarrow> bool" where
  "judged rs v \<longleftrightarrow> vid_audit v = StatusPending \<or> last_verdict rs (vid_id v) = Some (vid_audit v)"

definition few_drafts :: "video list \<Rightarrow> bool" where
  "few_drafts vs \<longleftrightarrow> (\<forall>acc. length (filter (own_draft acc) vs) \<le> maxDraftsPerAuthor)"

definition rows_ok :: "(table \<Rightarrow> nat) \<Rightarrow> video list \<Rightarrow> bool" where
  "rows_ok q vs \<longleftrightarrow> distinct (map vid_id vs) \<and> (\<forall>v \<in> set vs. 0 < vid_id v \<and> vid_id v \<le> q Videos)"

definition idem_scope :: "idem_key \<Rightarrow> nat \<times> gostr" where
  "idem_scope k = (ik_account k, ik_key k)"

text \<open>Outside a transaction every key is of a finished request, whose answer is a video.\<close>

definition finished :: "idem_key \<Rightarrow> bool" where
  "finished k \<longleftrightarrow> ik_done k \<and> (\<exists>v. ik_response k = Some v \<and> vid_id v \<noteq> 0)"

definition idem_ok :: "(table \<Rightarrow> nat) \<Rightarrow> idem_key list \<Rightarrow> bool" where
  "idem_ok q ks \<longleftrightarrow> distinct (map idem_scope ks) \<and> (\<forall>k \<in> set ks. finished k \<and> ik_id k \<le> q IdempotencyKeys)"

fun shelf_ok :: "(table \<Rightarrow> nat) \<Rightarrow> shelf \<Rightarrow> bool" where
  "shelf_ok q (vs, rs, ks) \<longleftrightarrow> rows_ok q vs \<and> few_drafts vs \<and> (\<forall>v \<in> set vs. judged rs v) \<and> idem_ok q ks"

text \<open>The row a row has become: the same video of the same author, further on in its life.\<close>

definition follows :: "video \<Rightarrow> video \<Rightarrow> bool" where
  "follows v v' \<longleftrightarrow> vid_id v' = vid_id v \<and> vid_author v' = vid_author v \<and> moves (phase_of v) (phase_of v')"

fun shelf_step :: "shelf \<Rightarrow> shelf \<Rightarrow> bool" where
  "shelf_step (vs, rs, ks) (vs', rs', ks') \<longleftrightarrow> (\<forall>v \<in> set vs. \<exists>v' \<in> set vs'. follows v v') \<and> set ks \<subseteq> set ks'"

declare shelf_ok.simps [simp del] shelf_step.simps [simp del]

lemma follows_refl [simp]: "follows v v"
  by (simp add: follows_def)

lemma follows_trans: "follows u v \<Longrightarrow> follows v w \<Longrightarrow> follows u w"
  by (auto simp: follows_def)

lemma shelf_ok_mono: "shelf_ok q x \<Longrightarrow> \<forall>s. q s \<le> q' s \<Longrightarrow> shelf_ok q' x"
  by (cases x) (fastforce simp: shelf_ok.simps rows_ok_def idem_ok_def intro: order_trans)

lemma shelf_step_refl [simp]: "shelf_step x x"
  by (cases x) (auto simp: shelf_step.simps intro: follows_refl)

lemma shelf_step_trans: "shelf_step x y \<Longrightarrow> shelf_step y z \<Longrightarrow> shelf_step x z"
  by (cases x; cases y; cases z) (simp add: shelf_step.simps, meson follows_trans subset_trans)

interpretation shelf: table_inv g shelf_ok shelf_step for g :: "db \<Rightarrow> shelf"
  by unfold_locales (auto intro: shelf_ok_mono shelf_step_trans)

section \<open>Changes of the rows\<close>

text \<open>What an edit may do to a row without breaking the invariant.\<close>

definition fair_edit :: "video \<Rightarrow> video \<Rightarrow> bool" where
  "fair_edit v v' \<longleftrightarrow> follows v v' \<and> (vid_audit v' = vid_audit v \<or> vid_audit v' = StatusPending)"

lemma own_draft_phase: "own_draft acc v \<longleftrightarrow> phase_of v = Draft \<and> vid_author v = acc"
  by (auto simp: own_draft_def scopeDrafts_iff phase_of_def IsDraft_def)

lemma follows_draft: "follows v v' \<Longrightarrow> own_draft acc v' \<Longrightarrow> own_draft acc v"
  by (auto simp: follows_def own_draft_phase)

lemma few_drafts_map:
  assumes "few_drafts vs" "\<forall>v \<in> set vs. follows v (f v)"
  shows "few_drafts (map f vs)"
proof -
  have "length (filter (own_draft acc) (map f vs)) \<le> length (filter (own_draft acc) vs)" for acc
    using assms(2) by (induction vs) (auto dest: follows_draft)
  then show ?thesis using assms(1) by (auto simp: few_drafts_def intro: order_trans)
qed

lemma rows_ok_map:
  assumes "rows_ok q vs" "\<forall>v \<in> set vs. follows v (f v)"
  shows "rows_ok q (map f vs)"
proof -
  have "map vid_id (map f vs) = map vid_id vs" using assms(2) by (induction vs) (auto simp: follows_def)
  moreover have "\<forall>v \<in> set vs. vid_id (f v) = vid_id v" using assms(2) by (auto simp: follows_def)
  ultimately show ?thesis using assms(1) by (auto simp: rows_ok_def simp del: map_map)
qed

lemma shelf_map:
  assumes "shelf_ok q (vs, rs, ks)" "\<forall>v \<in> set vs. follows v (f v)" "\<forall>v \<in> set vs. judged rs' (f v)"
  shows "shelf_ok q (map f vs, rs', ks) \<and> shelf_step (vs, rs, ks) (map f vs, rs', ks)"
  using assms few_drafts_map [OF _ assms(2)] rows_ok_map [OF _ assms(2)]
  by (auto simp: shelf_ok.simps shelf_step.simps)

lemma shelf_edit:
  assumes "shelf_ok q (vs, rs, ks)" "\<forall>v \<in> set vs. vid_id v = i \<longrightarrow> fair_edit v (f v)"
  shows "shelf_ok q (update_where (\<lambda>v. vid_id v = i) f vs, rs, ks)
    \<and> shelf_step (vs, rs, ks) (update_where (\<lambda>v. vid_id v = i) f vs, rs, ks)"
  unfolding update_where_def
proof (rule shelf_map [OF assms(1)])
  show "\<forall>v \<in> set vs. follows v (if vid_id v = i then f v else v)" using assms(2) by (auto simp: fair_edit_def)
  have "judged rs (f v)" if "v \<in> set vs" "vid_id v = i" for v
    using assms that unfolding shelf_ok.simps judged_def fair_edit_def follows_def by metis
  then show "\<forall>v \<in> set vs. judged rs (if vid_id v = i then f v else v)" using assms(1) by (auto simp: shelf_ok.simps)
qed

lemma shelf_verdict:
  assumes "shelf_ok q (vs, rs, ks)" "ar_target r = i" "ar_to r = s"
  shows "shelf_ok q (set_audit i s vs, rs @ [r], ks) \<and> shelf_step (vs, rs, ks) (set_audit i s vs, rs @ [r], ks)"
  unfolding set_audit_def update_where_def
proof (rule shelf_map [OF assms(1)])
  have same: "phase_of (v\<lparr>vid_audit := s\<rparr>) = phase_of v" for v
    by (simp add: phase_of_def IsDeleted_def IsDraft_def IsUnpublished_def EffectiveLifecycle_def)
  show "\<forall>v \<in> set vs. follows v (if vid_id v = i then v\<lparr>vid_audit := s\<rparr> else v)" by (simp add: follows_def same)
  show "\<forall>v \<in> set vs. judged (rs @ [r]) (if vid_id v = i then v\<lparr>vid_audit := s\<rparr> else v)"
    using assms by (auto simp: judged_def shelf_ok.simps)
qed

lemma shelf_new:
  assumes "shelf_ok q (vs, rs, ks)" "vid_id v = Suc (q Videos)" "vid_audit v = StatusPending"
    "\<forall>acc. own_draft acc v \<longrightarrow> length (filter (own_draft acc) vs) < maxDraftsPerAuthor"
  shows "shelf_ok (q(Videos := Suc (q Videos))) (vs @ [v], rs, ks) \<and> shelf_step (vs, rs, ks) (vs @ [v], rs, ks)"
proof -
  have "few_drafts (vs @ [v])" using assms(1,4) by (auto simp: few_drafts_def shelf_ok.simps Suc_le_eq)
  moreover have "rows_ok (q(Videos := Suc (q Videos))) (vs @ [v])"
    using assms(1,2) by (auto simp: rows_ok_def shelf_ok.simps)
  moreover have "idem_ok (q(Videos := Suc (q Videos))) ks" using assms(1) by (simp add: idem_ok_def shelf_ok.simps)
  moreover have "shelf_step (vs, rs, ks) (vs @ [v], rs, ks)"
    by (simp add: shelf_step.simps) (intro ballI disjI2, rule bexI [rotated], assumption, rule follows_refl)
  ultimately show ?thesis using assms(1,3) by (auto simp: shelf_ok.simps judged_def)
qed

section \<open>Operations on the rows\<close>

text \<open>Most operations leave the keys alone; they are looked at beside a fixed list of keys.\<close>

abbreviation beside :: "idem_key list \<Rightarrow> db \<Rightarrow> shelf" where
  "beside ks d \<equiv> (d_videos d, d_audit d, ks)"

abbreviation shelving :: "idem_key list \<Rightarrow> db world \<Rightarrow> 'a op \<Rightarrow> db world \<Rightarrow> bool" where
  "shelving ks \<equiv> goes (beside ks) shelf_ok shelf_step"

lemma same_row: "rows_ok q vs \<Longrightarrow> v \<in> set vs \<Longrightarrow> x \<in> set vs \<Longrightarrow> vid_id x = vid_id v \<Longrightarrow> x = v"
  using distinct_map_inj_eq [of vid_id vs x v] by (simp add: rows_ok_def)

lemma wp_update_fields:
  assumes "reached (beside ks) shelf_ok shelf_step u w" "v \<in> set (d_videos (tabs w))" "fair_edit v (f v)"
  shows "wp (update_fields (vid_id v) f) (\<lambda>_. reached (beside ks) shelf_ok shelf_step u) (\<lambda>_ x. tabs x = tabs w \<and> (\<forall>t. seqs w t \<le> seqs x t)) w"
proof -
  have ok: "shelf_ok (seqs w) (d_videos (tabs w), d_audit (tabs w), ks)" using assms(1) by (simp add: reached_def)
  then have "\<forall>x \<in> set (d_videos (tabs w)). vid_id x = vid_id v \<longrightarrow> fair_edit x (f x)"
    using assms(2,3) same_row by (simp add: shelf_ok.simps) blast
  from shelf_edit [OF ok this] show ?thesis
    using assms(1) by (auto simp: update_fields_def wp_rules reached_def intro: shelf_step_trans)
qed

lemma goes_update_fields:
  assumes "v \<in> set (d_videos (tabs w))" "fair_edit v (f v)"
  shows "shelving ks u (update_fields (vid_id v) f) w"
  unfolding goes_def
proof
  assume w: "reached (beside ks) shelf_ok shelf_step u w"
  show "wp (update_fields (vid_id v) f) (\<lambda>_. reached (beside ks) shelf_ok shelf_step u) (\<lambda>_. reached (beside ks) shelf_ok shelf_step u) w"
    by (rule wp_mono [OF wp_update_fields [where f = f, OF w assms]]) (auto intro: shelf.reached_env [OF w])
qed

lemma wp_create_video:
  assumes "reached (beside ks) shelf_ok shelf_step u w" "vid_audit v = StatusPending"
    "\<forall>acc. own_draft acc v \<longrightarrow> length (filter (own_draft acc) (d_videos (tabs w))) < maxDraftsPerAuthor"
  shows "wp (create_video v) (\<lambda>r x. reached (beside ks) shelf_ok shelf_step u x \<and> vid_id r \<noteq> 0)
    (\<lambda>_ x. tabs x = tabs w \<and> (\<forall>t. seqs w t \<le> seqs x t)) w"
proof -
  let ?row = "\<lambda>t. v\<lparr>vid_id := Suc (seqs w Videos), vid_created := t\<rparr>"
  have draft: "own_draft acc (?row t) = own_draft acc v" for acc t
    by (simp add: own_draft_def scopeDrafts_def)
  have "shelf_ok ((seqs w)(Videos := Suc (seqs w Videos))) (d_videos (tabs w) @ [?row t], d_audit (tabs w), ks)
      \<and> shelf_step (beside ks (tabs w)) (d_videos (tabs w) @ [?row t], d_audit (tabs w), ks)" for t
    using assms by (intro shelf_new) (simp_all add: reached_def draft)
  then show ?thesis
    using assms(1) by (auto simp: create_video_def wp_rules Let_def reached_def intro: shelf_step_trans)
qed

lemma wp_verdict:
  assumes "reached (beside ks) shelf_ok shelf_step u w" "ar_target r = i" "ar_to r = s"
  shows "wp (bnd (update_status i s) (\<lambda>_. append_record r)) (\<lambda>_. reached (beside ks) shelf_ok shelf_step u) (\<lambda>_ _. True) w"
proof -
  let ?q = "(seqs w)(AuditRecords := Suc (seqs w AuditRecords))"
  have "shelf_ok ?q (beside ks (tabs w))"
    by (rule shelf_ok_mono [of "seqs w"]) (use assms(1) in \<open>simp_all add: reached_def\<close>)
  then have new: "shelf_ok ?q (set_audit i s (d_videos (tabs w)), d_audit (tabs w) @ [r\<lparr>ar_id := j, ar_created := t\<rparr>], ks)
      \<and> shelf_step (beside ks (tabs w)) (set_audit i s (d_videos (tabs w)), d_audit (tabs w) @ [r\<lparr>ar_id := j, ar_created := t\<rparr>], ks)" for j t
    using assms(2,3) by (intro shelf_verdict) simp_all
  have "shelf_step (beside ks (tabs u)) (set_audit i s (d_videos (tabs w)), d_audit (tabs w) @ [r\<lparr>ar_id := j, ar_created := t\<rparr>], ks)" for j t
    by (rule shelf_step_trans [OF _ conjunct2 [OF new]]) (use assms(1) in \<open>simp add: reached_def\<close>)
  with new show ?thesis
    by (simp add: update_status_def append_record_def wp_rules Let_def reached_def)
qed

text \<open>What an operation keeps beside the keys it keeps of the whole shelf, when it does not write the keys.\<close>

lemma goes_shelf:
  assumes "shelving (d_idem (tabs w)) u m w" "steps (frame d_idem) m"
  shows "goes shelf_of shelf_ok shelf_step u m w"
  unfolding goes_def
proof
  let ?ks = "d_idem (tabs w)"
  assume w: "reached shelf_of shelf_ok shelf_step u w"
  then have "wp m (\<lambda>_. reached (beside ?ks) shelf_ok shelf_step u) (\<lambda>_. reached (beside ?ks) shelf_ok shelf_step u) w"
    using assms(1) by (auto simp: goes_def reached_def shelf_step.simps)
  from wp_frame [OF assms(2) this] show
    "wp m (\<lambda>_. reached shelf_of shelf_ok shelf_step u) (\<lambda>_. reached shelf_of shelf_ok shelf_step u) w"
    by (rule wp_mono) (use w in \<open>auto simp: reached_def shelf_step.simps\<close>)
qed

section \<open>Whole operations\<close>

lemma phase_simps:
  "IsDraft v \<longleftrightarrow> phase_of v = Draft" "IsUnpublished v \<longleftrightarrow> phase_of v = Unlisted" "IsDeleted v \<longleftrightarrow> phase_of v = Gone"
  by (auto simp: phase_of_def IsDraft_def IsUnpublished_def)

lemma phase_listed: "phase_of v = Listed \<longleftrightarrow> \<not> IsDeleted v \<and> EffectiveLifecycle v = LifecyclePublished"
  using lifecycle_partition [of v] by (auto simp: phase_of_def IsDraft_def IsUnpublished_def)

lemma phase_edits [simp]:
  "phase_of (edit_video a b c d e f v) = phase_of v"
  "phase_of (v\<lparr>vid_created := t\<rparr>) = phase_of v"
  "\<not> IsDeleted v \<Longrightarrow> phase_of (as_draft v) = Draft"
  "\<not> IsDeleted v \<Longrightarrow> phase_of (as_published s v) = Listed"
  "\<not> IsDeleted v \<Longrightarrow> phase_of (v\<lparr>vid_lifecycle := LifecyclePublished\<rparr>) = Listed"
  "\<not> IsDeleted v \<Longrightarrow> phase_of (v\<lparr>vid_lifecycle := LifecycleUnpublished\<rparr>) = Unlisted"
  "phase_of (v\<lparr>vid_deleted_at := Some t\<rparr>) = Gone"
  by (simp_all add: phase_of_def IsDraft_def IsUnpublished_def IsDeleted_def EffectiveLifecycle_def edit_video_def
      as_draft_def as_published_def)

lemma edit_sel [simp]:
  "vid_id (edit_video a b c d e f v) = vid_id v" "vid_author (edit_video a b c d e f v) = vid_author v"
  "vid_id (as_draft v) = vid_id v" "vid_author (as_draft v) = vid_author v" "vid_audit (as_draft v) = StatusPending"
  "vid_id (as_published s v) = vid_id v" "vid_author (as_published s v) = vid_author v"
  "vid_audit (as_published s v) = initial_audit_status s"
  by (simp_all add: edit_video_def as_draft_def as_published_def)

lemma fair_draft: "IsDraft v \<Longrightarrow> fair_edit v (as_draft (edit_video a b c d e f v))"
  by (simp add: fair_edit_def follows_def phase_simps)

lemma fair_promote: "IsDraft v \<Longrightarrow> vs_audit s \<Longrightarrow> fair_edit v ((as_published s (edit_video a b c d e f v))\<lparr>vid_created := t\<rparr>)"
  by (simp add: fair_edit_def follows_def phase_simps initial_audit_status_def release r_into_rtranclp)

lemma fair_take_off: "phase_of v = Listed \<Longrightarrow> fair_edit v (v\<lparr>vid_lifecycle := LifecycleUnpublished\<rparr>)"
  by (simp add: fair_edit_def follows_def phase_simps take_off r_into_rtranclp)

lemma fair_put_back: "phase_of v = Unlisted \<Longrightarrow> fair_edit v (v\<lparr>vid_lifecycle := LifecyclePublished\<rparr>)"
  by (simp add: fair_edit_def follows_def phase_simps put_back r_into_rtranclp)

lemma fair_discard: "fair_edit v (v\<lparr>vid_deleted_at := Some t\<rparr>)"
  by (cases "phase_of v = Gone") (auto simp: fair_edit_def follows_def intro: discard)

lemma reads_video_queries [rel_rules]:
  "steps (frame g) (owned_mutable acc i)" "steps (frame g) (find_draft_by_play_url acc url)" "steps (frame g) (count_drafts acc)"
  "steps (frame g) (find_promotable_draft acc i url)" "steps (frame g) (checked_urls s a b)" "steps (frame g) (load_for_audit i)"
  unfolding owned_mutable_def find_draft_by_play_url_def count_drafts_def find_promotable_draft_def checked_urls_def
    stat_object_def load_for_audit_def
  by (intro rel_rules; simp add: framed.steps_env split: stat.split)+

lemma frame_video_calls [rel_rules]:
  "steps (frame g) (invalidate_detail_cache s i)" "steps (frame g) (set_detail_not_found s i)"
  unfolding invalidate_detail_cache_def set_detail_not_found_def by (intro rel_rules)+

lemma frame_enqueue_event [rel_rules]:
  "(\<And>d x. g (d\<lparr>d_outbox := x\<rparr>) = g d) \<Longrightarrow> steps (frame g) (enqueue_event ty p)"
  "(\<And>d x. g (d\<lparr>d_outbox := x\<rparr>) = g d) \<Longrightarrow> steps (frame g) (enqueue_public i a reason)"
  "(\<And>d x. g (d\<lparr>d_outbox := x\<rparr>) = g d) \<Longrightarrow> steps (frame g) (enqueue_approved i a)"
  "(\<And>d x. g (d\<lparr>d_outbox := x\<rparr>) = g d) \<Longrightarrow> steps (frame g) (enqueue_on_publish i a)"
  unfolding enqueue_approved_def enqueue_on_publish_def enqueue_public_def enqueue_event_def by (intro rel_rules; simp)+

lemma frame_video_rows [rel_rules]:
  "(\<And>d x. g (d\<lparr>d_videos := x\<rparr>) = g d) \<Longrightarrow> steps (frame g) (update_fields i f)"
  "(\<And>d x. g (d\<lparr>d_videos := x\<rparr>) = g d) \<Longrightarrow> steps (frame g) (create_video v)"
  "(\<And>d x. g (d\<lparr>d_videos := x\<rparr>) = g d) \<Longrightarrow> steps (frame g) (update_status i st)"
  "(\<And>d x. g (d\<lparr>d_audit := x\<rparr>) = g d) \<Longrightarrow> steps (frame g) (append_record r)"
  unfolding update_fields_def create_video_def update_status_def append_record_def Let_def by (intro rel_rules; simp)+

lemma wp_owned: "wp (owned_mutable acc i) (\<lambda>v _. v \<in> set (d_videos (tabs w)) \<and> vid_id v = i \<and> vid_author v = acc \<and> \<not> IsDeleted v) (\<lambda>_ _. True) w"
proof (cases "find (\<lambda>v. vid_id v = i) (d_videos (tabs w))")
  case (Some v)
  then show ?thesis using find_Some_in [OF Some] by (simp add: owned_mutable_def video_by_id_def wp_rules)
qed (simp add: owned_mutable_def video_by_id_def wp_rules)

lemma wp_draft_by_url:
  "wp (find_draft_by_play_url acc url) (\<lambda>r _. \<forall>v. r = Some v \<longrightarrow> v \<in> set (d_videos (tabs w)) \<and> IsDraft v) (\<lambda>_ _. True) w"
proof -
  have "v \<in> set (d_videos (tabs w)) \<and> IsDraft v"
    if "newest vid_id (\<lambda>v. own_draft acc v \<and> vid_play_url v = url) (d_videos (tabs w)) = v # vs" for v vs
  proof -
    have "v \<in> set (newest vid_id (\<lambda>v. own_draft acc v \<and> vid_play_url v = url) (d_videos (tabs w)))" unfolding that by simp
    then show ?thesis by (simp add: own_draft_phase phase_simps)
  qed
  then show ?thesis by (simp add: find_draft_by_play_url_def wp_rules split: list.split)
qed

lemma wp_promotable:
  "wp (find_promotable_draft acc i url) (\<lambda>r _. \<forall>v. r = Some v \<longrightarrow> v \<in> set (d_videos (tabs w)) \<and> IsDraft v) (\<lambda>_ _. True) w"
proof (cases "i > 0")
  case True
  show ?thesis
  proof (cases "find (\<lambda>v. vid_id v = i) (d_videos (tabs w))")
    case (Some v)
    then show ?thesis using True find_Some_in [OF Some] by (simp add: find_promotable_draft_def video_by_id_def wp_rules)
  qed (simp add: True find_promotable_draft_def video_by_id_def wp_rules)
qed (simp add: find_promotable_draft_def wp_draft_by_url)

lemma goes_unpublish: "shelving ks u (unpublish s acc i) w"
  unfolding unpublish_def
proof (rule shelf.goes_reads [OF _ wp_owned])
  fix v and x :: "db world" assume x: "tabs x = tabs w" "v \<in> set (d_videos (tabs w)) \<and> vid_id v = i \<and> vid_author v = acc \<and> \<not> IsDeleted v"
  have "shelving ks u (bnd (update_fields (vid_id v) (\<lambda>v. v\<lparr>vid_lifecycle := LifecycleUnpublished\<rparr>)) (\<lambda>_.
     bnd (invalidate_detail_cache s (vid_id v)) (\<lambda>_. ret (v\<lparr>vid_lifecycle := LifecycleUnpublished\<rparr>)))) x"
    if "EffectiveLifecycle v = LifecyclePublished"
    by (intro shelf.goes_bnd goes_update_fields fair_take_off shelf.goes_frame rel_rules)
      (use x that in \<open>simp_all add: phase_listed\<close>)
  then show "shelving ks u (fail_if (IsDraft v) ErrCannotUnpublish (if IsUnpublished v then ret v else
     fail_if (EffectiveLifecycle v \<noteq> LifecyclePublished) ErrCannotUnpublish (
     bnd (update_fields (vid_id v) (\<lambda>v. v\<lparr>vid_lifecycle := LifecycleUnpublished\<rparr>)) (\<lambda>_.
     bnd (invalidate_detail_cache s (vid_id v)) (\<lambda>_. ret (v\<lparr>vid_lifecycle := LifecycleUnpublished\<rparr>)))))) x"
    by (simp add: shelf.goes_throw shelf.goes_ret)
qed (intro rel_rules)

lemma goes_relist: "shelving ks u (relist s acc i) w"
  unfolding relist_def
proof (rule shelf.goes_reads [OF _ wp_owned])
  fix v and x :: "db world" assume x: "tabs x = tabs w" "v \<in> set (d_videos (tabs w)) \<and> vid_id v = i \<and> vid_author v = acc \<and> \<not> IsDeleted v"
  have tx: "shelving ks u (transaction (relist_tx v)) x" if "IsUnpublished v"
  proof (rule shelf.goes_transaction)
    assume "reached (beside ks) shelf_ok shelf_step u x"
    then have "reached (beside ks) shelf_ok shelf_step (next_stmt x) (next_stmt x)" by (simp add: reached_def)
    then have "wp (update_fields (vid_id v) (\<lambda>v. v\<lparr>vid_lifecycle := LifecyclePublished\<rparr>))
        (\<lambda>_. reached (beside ks) shelf_ok shelf_step (next_stmt x)) (\<lambda>_ _. True) (next_stmt x)"
      by (rule wp_mono [OF wp_update_fields]) (use x that fair_put_back in \<open>simp_all add: phase_simps\<close>)
    then show "wp (relist_tx v) (\<lambda>_. reached (beside ks) shelf_ok shelf_step (next_stmt x)) (\<lambda>_ _. True) (next_stmt x)"
      unfolding relist_tx_def by (rule wp_and_then) (rule shelf.wp_rest, intro rel_rules, simp_all)
  qed (unfold relist_tx_def, intro rel_rules, simp_all)
  have "shelving ks u (bnd (transaction (relist_tx v)) (\<lambda>_.
     bnd (invalidate_detail_cache s (vid_id v)) (\<lambda>_. ret (v\<lparr>vid_lifecycle := LifecyclePublished\<rparr>)))) x" if "IsUnpublished v"
    by (rule shelf.goes_bnd [OF tx [OF that]]) (intro shelf.goes_frame rel_rules)
  then show "shelving ks u (fail_if (IsDraft v) ErrCannotRelist (
     if EffectiveLifecycle v = LifecyclePublished then ret v else
     fail_if (\<not> IsUnpublished v) ErrCannotRelist (
     bnd (transaction (relist_tx v)) (\<lambda>_.
     bnd (invalidate_detail_cache s (vid_id v)) (\<lambda>_. ret (v\<lparr>vid_lifecycle := LifecyclePublished\<rparr>)))))) x"
    by (simp add: shelf.goes_throw shelf.goes_ret)
qed (intro rel_rules)

lemma goes_delete_video: "shelving ks u (delete_video s acc i) w"
  unfolding delete_video_def
proof (rule shelf.goes_reads [OF _ wp_owned])
  fix v and x :: "db world" assume x: "tabs x = tabs w" "v \<in> set (d_videos (tabs w)) \<and> vid_id v = i \<and> vid_author v = acc \<and> \<not> IsDeleted v"
  show "shelving ks u (bnd read_now (\<lambda>now. bnd (update_fields (vid_id v) (\<lambda>v. v\<lparr>vid_deleted_at := Some now\<rparr>)) (\<lambda>_.
     bnd (invalidate_detail_cache s (vid_id v)) (\<lambda>_. set_detail_not_found s (vid_id v))))) x"
  proof (rule shelf.goes_reads [where P = "\<lambda>_. True"])
    fix t and y :: "db world" assume "tabs y = tabs x"
    then show "shelving ks u (bnd (update_fields (vid_id v) (\<lambda>v. v\<lparr>vid_deleted_at := Some t\<rparr>)) (\<lambda>_.
        bnd (invalidate_detail_cache s (vid_id v)) (\<lambda>_. set_detail_not_found s (vid_id v)))) y"
      using x by (intro shelf.goes_bnd goes_update_fields fair_discard shelf.goes_frame rel_rules) simp_all
  qed (intro rel_rules, simp)
qed (intro rel_rules)

lemma goes_new_draft:
  "shelving ks u (bnd (count_drafts acc) (\<lambda>n. fail_if (maxDraftsPerAuthor \<le> n) ErrDraftLimitReached
     (create_video (as_draft (edit_video a b c d e f (new_video acc)))))) w"
proof (rule shelf.goes_reads)
  let ?v = "as_draft (edit_video a b c d e f (new_video acc))"
  have author: "vid_author ?v = acc" by (simp add: new_video_def)
  show "wp (count_drafts acc) (\<lambda>n _. n = length (filter (own_draft acc) (d_videos (tabs w)))) (\<lambda>_ _. True) w"
    by (simp add: count_drafts_def wp_rules)
  fix n and x :: "db world" assume x: "tabs x = tabs w" "n = length (filter (own_draft acc) (d_videos (tabs w)))"
  have "shelving ks u (create_video ?v) x" if "n < maxDraftsPerAuthor"
    unfolding goes_def
  proof
    assume r: "reached (beside ks) shelf_ok shelf_step u x"
    have few: "\<forall>a. own_draft a ?v \<longrightarrow> length (filter (own_draft a) (d_videos (tabs x))) < maxDraftsPerAuthor"
      using x that author by (simp add: own_draft_phase)
    show "wp (create_video ?v) (\<lambda>_. reached (beside ks) shelf_ok shelf_step u) (\<lambda>_. reached (beside ks) shelf_ok shelf_step u) x"
      by (rule wp_mono [OF wp_create_video [OF r _ few]]) (simp_all add: shelf.reached_env [OF r])
  qed
  then show "shelving ks u (fail_if (maxDraftsPerAuthor \<le> n) ErrDraftLimitReached (create_video ?v)) x"
    by (simp add: shelf.goes_throw)
qed (intro rel_rules)

lemma goes_save_draft: "shelving ks u (save_draft s acc username req) w"
  unfolding save_draft_def
proof (rule shelf.goes_reads [where P = "\<lambda>_. True"])
  fix p :: "gostr \<times> gostr" and x :: "db world"
  obtain play cover where p: "p = (play, cover)" by (cases p)
  let ?title = "clip_runes (dr_title req) maxTitleRunes" and ?desc = "clip_runes (dr_description req) maxDescriptionRunes"
  let ?edit = "\<lambda>v. as_draft (edit_video username ?title ?desc (for_publish (dr_tags req) ?title ?desc) play cover v)"
  let ?look = "if dr_id req > 0 then bnd (owned_mutable acc (dr_id req)) (\<lambda>v. fail_if (\<not> IsDraft v) ErrNotDraft (ret (Some v)))
    else find_draft_by_play_url acc play"
  let ?written = "\<lambda>existing. case existing of
      None \<Rightarrow> bnd (count_drafts acc) (\<lambda>n. fail_if (maxDraftsPerAuthor \<le> n) ErrDraftLimitReached (create_video (?edit (new_video acc))))
    | Some v \<Rightarrow> bnd (update_fields (vid_id v) ?edit) (\<lambda>_. ret (?edit v))"
  have "shelving ks u (bnd ?look (\<lambda>existing. bnd (?written existing) (\<lambda>v. bnd (invalidate_detail_cache s (vid_id v)) (\<lambda>_. ret v)))) x"
  proof (rule shelf.goes_reads)
    show "steps (frame (\<lambda>d. d)) ?look" by (intro rel_rules)
    show "wp ?look (\<lambda>r _. \<forall>v. r = Some v \<longrightarrow> v \<in> set (d_videos (tabs x)) \<and> IsDraft v) (\<lambda>_ _. True) x"
    proof (cases "dr_id req > 0")
      case True
      have "wp (bnd (owned_mutable acc (dr_id req)) (\<lambda>v. fail_if (\<not> IsDraft v) ErrNotDraft (ret (Some v))))
          (\<lambda>r _. \<forall>v. r = Some v \<longrightarrow> v \<in> set (d_videos (tabs x)) \<and> IsDraft v) (\<lambda>_ _. True) x"
        by (rule wp_and_then [OF wp_owned]) (simp add: wp_basic)
      with True show ?thesis by simp
    qed (simp add: wp_draft_by_url)
    fix r and y :: "db world" assume y: "tabs y = tabs x" "\<forall>v. r = Some v \<longrightarrow> v \<in> set (d_videos (tabs x)) \<and> IsDraft v"
    have "shelving ks u (?written r) y"
    proof (cases r)
      case (Some v)
      then have v: "v \<in> set (d_videos (tabs y))" "IsDraft v" using y by simp_all
      show ?thesis
        unfolding Some option.case
        by (intro shelf.goes_bnd goes_update_fields fair_draft v shelf.goes_ret)
    qed (simp add: goes_new_draft)
    then show "shelving ks u (bnd (?written r) (\<lambda>v. bnd (invalidate_detail_cache s (vid_id v)) (\<lambda>_. ret v))) y"
      by (rule shelf.goes_bnd) (intro shelf.goes_frame rel_rules)
  qed
  then show "shelving ks u (case p of (play, cover) \<Rightarrow>
     let title = clip_runes (dr_title req) maxTitleRunes;
         description = clip_runes (dr_description req) maxDescriptionRunes;
         tags = for_publish (dr_tags req) title description;
         edit = (\<lambda>v. as_draft (edit_video username title description tags play cover v)) in
     bnd (if dr_id req > 0
          then bnd (owned_mutable acc (dr_id req)) (\<lambda>v. fail_if (\<not> IsDraft v) ErrNotDraft (ret (Some v)))
          else find_draft_by_play_url acc play) (\<lambda>existing.
     bnd (case existing of
            None \<Rightarrow> bnd (count_drafts acc) (\<lambda>n. fail_if (maxDraftsPerAuthor \<le> n) ErrDraftLimitReached
              (create_video (edit (new_video acc))))
          | Some v \<Rightarrow> bnd (update_fields (vid_id v) edit) (\<lambda>_. ret (edit v))) (\<lambda>v.
     bnd (invalidate_detail_cache s (vid_id v)) (\<lambda>_. ret v)))) x"
    unfolding p prod.case Let_def .
qed (intro rel_rules, simp)

section \<open>Verdicts\<close>

lemma goes_verdict_tx:
  assumes "ar_target r = i" "ar_to r = st" "\<And>x. steps (frame (beside ks)) (f x)" "\<And>x. steps grows (f x)"
  shows "shelving ks u (transaction (bnd (bnd (update_status i st) (\<lambda>_. append_record r)) f)) w"
proof (rule shelf.goes_transaction)
  assume "reached (beside ks) shelf_ok shelf_step u w"
  then have "reached (beside ks) shelf_ok shelf_step (next_stmt w) (next_stmt w)" by (simp add: reached_def)
  then have "wp (bnd (update_status i st) (\<lambda>_. append_record r)) (\<lambda>_. reached (beside ks) shelf_ok shelf_step (next_stmt w)) (\<lambda>_ _. True) (next_stmt w)"
    by (rule wp_verdict [OF _ assms(1,2)])
  then show "wp (bnd (bnd (update_status i st) (\<lambda>_. append_record r)) f)
      (\<lambda>_. reached (beside ks) shelf_ok shelf_step (next_stmt w)) (\<lambda>_ _. True) (next_stmt w)"
    by (rule wp_and_then) (rule shelf.wp_rest [OF assms(3)])
qed (intro rel_rules assms(4); simp)

lemma bnd_ret [simp]: "bnd m ret = m"
  by (rule ext) (simp add: bnd_def ret_def split: prod.split sum.split)

lemma goes_apply: "shelving ks u (apply_verdict s t next source moderator operator r) w"
  unfolding apply_verdict_def apply_tx_def bnd_assoc [symmetric]
  by (rule goes_verdict_tx; (intro rel_rules)?; simp add: verdict_record_def)

lemma goes_moderate: "shelving ks u (moderate_video s i) w"
  unfolding moderate_video_def
proof (rule shelf.goes_reads [where P = "\<lambda>_. True"])
  fix r and x :: "db world"
  have "shelving ks u (bnd (apply_verdict s t st src md op res) (\<lambda>_. ret st)) x" for t st src md op res
    by (intro shelf.goes_bnd goes_apply shelf.goes_ret)
  then show "shelving ks u (case r of
      None \<Rightarrow> throw ErrTargetNotFound
    | Some t \<Rightarrow> if tg_status t = StatusApproved \<or> tg_status t = StatusRejected then ret (tg_status t) else
        let result = evaluate (as_moderator s) t; next = status_for (rs_decision result) in
        bnd (apply_verdict s t next SourceMachine (md_name (as_moderator s)) 0 result) (\<lambda>_. ret next)) x"
    by (simp add: Let_def shelf.goes_throw shelf.goes_ret split: option.split)
qed (intro rel_rules, simp)

lemma goes_manual: "shelving ks u (manual_review s op i approve note) w"
proof -
  have "shelving ks u (bnd (load_for_audit i) (\<lambda>r. case r of
       None \<Rightarrow> throw ErrTargetNotFound
     | Some t \<Rightarrow> fail_if (tg_status t \<noteq> StatusReviewing \<and> tg_status t \<noteq> StatusPending) ErrNotReviewable (
         let next = (if approve then StatusApproved else StatusRejected);
             result = \<lparr>rs_decision = (if approve then DecisionPass else DecisionBlock), rs_label = lit ''manual'', rs_detail = note\<rparr> in
         bnd (apply_verdict s t next SourceManual (lit ''manual'') op result) (\<lambda>_. ret next)))) w"
  proof (rule shelf.goes_reads [where P = "\<lambda>_. True"])
    fix r and x :: "db world"
    have "shelving ks u (bnd (apply_verdict s t st src md op res) (\<lambda>_. ret st)) x" for t st src md op res
      by (intro shelf.goes_bnd goes_apply shelf.goes_ret)
    then show "shelving ks u (case r of
       None \<Rightarrow> throw ErrTargetNotFound
     | Some t \<Rightarrow> fail_if (tg_status t \<noteq> StatusReviewing \<and> tg_status t \<noteq> StatusPending) ErrNotReviewable (
         let next = (if approve then StatusApproved else StatusRejected);
             result = \<lparr>rs_decision = (if approve then DecisionPass else DecisionBlock), rs_label = lit ''manual'', rs_detail = note\<rparr> in
         bnd (apply_verdict s t next SourceManual (lit ''manual'') op result) (\<lambda>_. ret next))) x"
      by (simp only: Let_def shelf.goes_throw split: option.split if_split) simp
  qed (intro rel_rules, simp)
  then show ?thesis by (simp add: manual_review_def shelf.goes_throw)
qed

lemma goes_takedown: "shelving ks u (takedown_as s i op note md) w"
  unfolding takedown_as_def
proof (rule shelf.goes_reads)
  show "wp (video_by_id i) (\<lambda>_ _. True) (\<lambda>_ _. True) w" by simp
  fix r and x :: "db world"
  have "shelving ks u (transaction (takedown_tx v op note md)) x" for v
    using goes_verdict_tx [where f = ret and r = "\<lparr>ar_id = 0, ar_target = vid_id v, ar_from = vid_audit v, ar_to = StatusRejected,
        ar_source = SourceManual, ar_moderator = md, ar_operator = op, ar_label = md, ar_detail = note, ar_created = 0\<rparr>"]
    by (simp add: takedown_tx_def framed.steps_env)
  then show "shelving ks u (case r of None \<Rightarrow> throw ErrVideoNotFound
    | Some v \<Rightarrow> bnd (transaction (takedown_tx v op note md)) (\<lambda>_. invalidate_detail_cache s i)) x"
    by (cases r) (simp_all only: option.case shelf.goes_throw, intro shelf.goes_bnd shelf.goes_frame [OF frame_video_calls(1)])
qed (intro rel_rules)

section \<open>Publishing\<close>

text \<open>Inside the transaction the last key is the unfinished one of the request; \<open>key_claimed\<close> says what is known then.\<close>

definition key_claimed :: "db world \<Rightarrow> nat \<Rightarrow> idem_key \<Rightarrow> db world \<Rightarrow> bool" where
  "key_claimed u row k w \<longleftrightarrow> reached (beside (d_idem (tabs u))) shelf_ok shelf_step u w
     \<and> d_idem (tabs w) = d_idem (tabs u) @ [k] \<and> ik_id k = row \<and> row \<le> seqs w IdempotencyKeys
     \<and> (\<forall>x \<in> set (d_idem (tabs u)). ik_id x < row \<and> idem_scope x \<noteq> idem_scope k)"

lemma claimed_env:
  assumes "key_claimed u row k w" "tabs x = tabs w" "\<forall>t. seqs w t \<le> seqs x t"
  shows "key_claimed u row k x"
proof -
  have "row \<le> seqs w IdempotencyKeys" using assms(1) by (simp add: key_claimed_def)
  then have "row \<le> seqs x IdempotencyKeys" using assms(3) le_trans by blast
  moreover have "reached (beside (d_idem (tabs u))) shelf_ok shelf_step u x"
    by (rule shelf.reached_env [of _ u w]) (use assms in \<open>simp_all add: key_claimed_def\<close>)
  ultimately show ?thesis using assms(1,2) by (simp add: key_claimed_def)
qed

lemma claimed_step:
  assumes "key_claimed u row k w" "wp m (\<lambda>r x. reached (beside (d_idem (tabs u))) shelf_ok shelf_step u x \<and> P r) (\<lambda>_ _. True) w"
    "steps (frame d_idem) m"
  shows "wp m (\<lambda>r x. key_claimed u row k x \<and> P r) (\<lambda>_ _. True) w"
proof (rule wpI)
  fix r and x :: "db world" assume m: "m w = (Inr r, x)"
  then show "key_claimed u row k x \<and> P r"
    using wp_ok [OF assms(2) m] stepsD [OF assms(3) m] steps_seqsD [OF assms(3) m, of IdempotencyKeys] assms(1)
    by (auto simp: key_claimed_def)
qed simp

lemma wp_claim:
  assumes "shelf_ok (seqs w) (shelf_of (tabs w))"
  shows "wp (create_processing acc key hash) (\<lambda>r x. case r of
      None \<Rightarrow> shelf_ok (seqs x) (shelf_of (tabs x)) \<and> tabs x = tabs w
    | Some row \<Rightarrow> \<exists>k. key_claimed w row k x \<and> idem_scope k = (acc, key) \<and> ik_hash k = hash) (\<lambda>_ _. True) w"
proof -
  let ?row = "Suc (seqs w IdempotencyKeys)" and ?ks = "d_idem (tabs w)"
  let ?k = "\<lparr>ik_id = ?row, ik_account = acc, ik_key = key, ik_hash = hash, ik_resource = 0, ik_done = False, ik_response = None\<rparr>"
  have up: "shelf_ok ((seqs w)(IdempotencyKeys := ?row)) (shelf_of (tabs w))"
    by (rule shelf_ok_mono [OF assms]) simp
  have "\<forall>x \<in> set ?ks. ik_id x < ?row" using assms by (auto simp: shelf_ok.simps idem_ok_def less_Suc_eq_le)
  then have "\<forall>x \<in> set ?ks. ik_id x < ?row \<and> idem_scope x \<noteq> idem_scope ?k" if "\<forall>k \<in> set ?ks. \<not> key_scope acc key k"
    using that by (auto simp: idem_scope_def key_scope_def)
  then show ?thesis
    using up by (simp add: create_processing_def wp_rules Let_def key_claimed_def reached_def idem_scope_def [of ?k])
qed

text \<open>A key whose request was answered with a video.\<close>

definition answered :: "nat \<times> gostr \<Rightarrow> gostr \<Rightarrow> nat \<Rightarrow> idem_key list \<Rightarrow> bool" where
  "answered scope hash i ks \<longleftrightarrow> (\<exists>k \<in> set ks. idem_scope k = scope \<and> ik_hash k = hash
     \<and> (\<exists>v. ik_response k = Some v \<and> vid_id v = i \<and> i \<noteq> 0))"

lemma wp_finish:
  assumes "key_claimed u row k w" "vid_id v \<noteq> 0"
  shows "wp (mark_done row i v) (\<lambda>_ x. reached shelf_of shelf_ok shelf_step u x
    \<and> answered (idem_scope k) (ik_hash k) (vid_id v) (d_idem (tabs x))) (\<lambda>_ _. True) w"
proof -
  let ?ks = "d_idem (tabs u)"
  let ?k = "k\<lparr>ik_done := True, ik_resource := i, ik_response := Some v\<rparr>"
  have c: "reached (beside ?ks) shelf_ok shelf_step u w" "d_idem (tabs w) = ?ks @ [k]" "ik_id k = row" "row \<le> seqs w IdempotencyKeys"
    "\<forall>x \<in> set ?ks. ik_id x < row \<and> idem_scope x \<noteq> idem_scope k" using assms(1) by (simp_all add: key_claimed_def)
  have same: "update_where (\<lambda>x. ik_id x = row) (\<lambda>k. k\<lparr>ik_done := True, ik_resource := i, ik_response := Some v\<rparr>) (?ks @ [k]) = ?ks @ [?k]"
    using c(3) update_where_none [of ?ks "\<lambda>x. ik_id x = row"] c(5) by fastforce
  have "shelf_ok (seqs w) (beside ?ks (tabs w))" using c(1) by (simp add: reached_def)
  moreover have "finished ?k" using assms(2) by (simp add: finished_def)
  moreover have "distinct (map idem_scope (?ks @ [?k]))"
    using \<open>shelf_ok _ _\<close> c(5) by (auto simp: shelf_ok.simps idem_ok_def idem_scope_def)
  ultimately have "shelf_ok (seqs w) (d_videos (tabs w), d_audit (tabs w), ?ks @ [?k])"
    using c(3,4) by (simp add: shelf_ok.simps idem_ok_def)
  moreover have "shelf_step (shelf_of (tabs u)) (d_videos (tabs w), d_audit (tabs w), ?ks @ [?k])"
    using c(1) by (auto simp: reached_def shelf_step.simps)
  moreover have "answered (idem_scope k) (ik_hash k) (vid_id v) (?ks @ [?k])"
    using assms(2) by (auto simp: answered_def idem_scope_def)
  ultimately show ?thesis
    by (simp add: mark_done_def wp_rules reached_def c(2) same del: update_where_append update_where_simps)
qed

lemma wp_place:
  assumes "reached (beside ks) shelf_ok shelf_step u w" "vs_audit s"
    "\<forall>d. draft = Some d \<longrightarrow> d \<in> set (d_videos (tabs w)) \<and> IsDraft d"
  shows "wp (case draft of Some d \<Rightarrow> promote_draft s d (edit_video a b c e f g)
      | None \<Rightarrow> create_video (as_published s (edit_video a b c e f g (new_video acc))))
    (\<lambda>v x. reached (beside ks) shelf_ok shelf_step u x \<and> vid_id v \<noteq> 0) (\<lambda>_ _. True) w"
proof (cases draft)
  case None
  let ?v = "as_published s (edit_video a b c e f g (new_video acc))"
  have "phase_of ?v = Listed" by (simp add: new_video_def edit_video_def IsDeleted_def)
  then have few: "\<forall>acc. own_draft acc ?v \<longrightarrow> length (filter (own_draft acc) (d_videos (tabs w))) < maxDraftsPerAuthor"
    by (simp add: own_draft_phase)
  show ?thesis
    unfolding None option.case
    by (rule wp_mono [OF wp_create_video [OF assms(1) _ few]]) (use assms(2) in \<open>simp_all add: initial_audit_status_def\<close>)
next
  case (Some d)
  then have d: "d \<in> set (d_videos (tabs w))" "IsDraft d" using assms(3) by simp_all
  then have id: "vid_id d \<noteq> 0" using assms(1) by (auto simp: reached_def shelf_ok.simps rows_ok_def)
  show ?thesis
    unfolding Some option.case promote_draft_def
  proof (rule wp_and_then)
    show "wp read_now (\<lambda>_ x. reached (beside ks) shelf_ok shelf_step u x \<and> tabs x = tabs w) (\<lambda>_ _. True) w"
      by (simp add: wp_basic shelf.reached_env [OF assms(1)])
    fix t and x :: "db world" assume x: "reached (beside ks) shelf_ok shelf_step u x \<and> tabs x = tabs w"
    let ?f = "\<lambda>v. (as_published s (edit_video a b c e f g v))\<lparr>vid_created := t\<rparr>"
    have "wp (update_fields (vid_id d) ?f) (\<lambda>_. reached (beside ks) shelf_ok shelf_step u) (\<lambda>_ _. True) x"
      by (rule wp_mono [OF wp_update_fields]) (use x d assms(2) fair_promote in simp_all)
    then show "wp (let f = ?f in bnd (update_fields (vid_id d) f) (\<lambda>_. ret (f d)))
        (\<lambda>v x. reached (beside ks) shelf_ok shelf_step u x \<and> vid_id v \<noteq> 0) (\<lambda>_ _. True) x"
      unfolding Let_def by (rule wp_and_then) (use id in \<open>simp add: wp_basic\<close>)
  qed
qed

lemma frame_place [rel_rules]:
  "(\<And>d x. g (d\<lparr>d_videos := x\<rparr>) = g d) \<Longrightarrow> steps (frame g) (promote_draft s d f)"
  unfolding promote_draft_def Let_def by (intro rel_rules)

lemma frame_after_create [rel_rules]:
  "(\<And>d x. g (d\<lparr>d_outbox := x\<rparr>) = g d) \<Longrightarrow> steps (frame g) (enqueue_after_create s v)"
  unfolding enqueue_after_create_def by (intro rel_rules)

lemma grows_keys [rel_rules]: "steps grows (create_processing acc key hash)" "steps grows (mark_done i j v)"
  unfolding create_processing_def mark_done_def by (intro rel_rules; simp)+

lemma reads_replay [rel_rules]: "steps (frame g) (replay_published s k)" "steps (frame g) (find_by_scope acc key)"
  unfolding replay_published_def reload_published_def find_by_scope_def by (intro rel_rules)+

lemma wp_replay:
  assumes "shelf_ok (seqs w) (shelf_of (tabs w))"
  shows "wp (bnd (find_by_scope acc key) (\<lambda>existing. fail_if (ik_hash existing \<noteq> hash) ErrIdempotencyConflict (
      bnd (replay_published s existing) (\<lambda>r. case r of None \<Rightarrow> throw ErrIdempotencyBusy | Some v \<Rightarrow> ret (v, False)))))
    (\<lambda>p x. tabs x = tabs w \<and> answered (acc, key) hash (vid_id (fst p)) (d_idem (tabs w))) (\<lambda>_ _. True) w"
proof (cases "find (key_scope acc key) (d_idem (tabs w))")
  case (Some k)
  then have k: "k \<in> set (d_idem (tabs w))" "idem_scope k = (acc, key)"
    using find_Some_in [OF Some] by (simp_all add: key_scope_def idem_scope_def)
  then obtain v where v: "ik_response k = Some v" "vid_id v \<noteq> 0"
    using assms by (auto simp: shelf_ok.simps idem_ok_def finished_def)
  then have "answered (acc, key) (ik_hash k) (vid_id v) (d_idem (tabs w))" using k by (auto simp: answered_def)
  then show ?thesis using v by (auto simp: find_by_scope_def replay_published_def wp_rules Some)
qed (simp add: find_by_scope_def wp_rules)

abbreviation published_as :: "db world \<Rightarrow> nat \<times> gostr \<Rightarrow> gostr \<Rightarrow> video \<times> bool \<Rightarrow> db world \<Rightarrow> bool" where
  "published_as w scope hash p x \<equiv> reached shelf_of shelf_ok shelf_step w x \<and> answered scope hash (vid_id (fst p)) (d_idem (tabs x))"

lemma wp_publish_tx:
  assumes "shelf_ok (seqs w) (shelf_of (tabs w))" "vs_audit s"
  shows "wp (publish_tx s acc username key req tags play cover)
    (published_as w (acc, key) (vs_hash s (pq_title req) (pq_description req) tags play cover)) (\<lambda>_ _. True) w"
  unfolding publish_tx_def Let_def
proof (rule wp_and_then [OF wp_claim [OF assms(1)]])
  let ?edit = "edit_video username (pq_title req) (pq_description req) tags play cover"
    and ?hash = "vs_hash s (pq_title req) (pq_description req) tags play cover"
  fix inserted and x :: "db world"
  assume x: "case inserted of None \<Rightarrow> shelf_ok (seqs x) (shelf_of (tabs x)) \<and> tabs x = tabs w
    | Some row \<Rightarrow> \<exists>k. key_claimed w row k x \<and> idem_scope k = (acc, key) \<and> ik_hash k = ?hash"
  show "wp (case inserted of
       None \<Rightarrow> bnd (find_by_scope acc key) (\<lambda>existing.
         fail_if (ik_hash existing \<noteq> ?hash) ErrIdempotencyConflict (
         bnd (replay_published s existing) (\<lambda>r. case r of None \<Rightarrow> throw ErrIdempotencyBusy | Some v \<Rightarrow> ret (v, False))))
     | Some row \<Rightarrow>
         bnd (find_promotable_draft acc (pq_draft req) play) (\<lambda>draft.
         bnd (case draft of None \<Rightarrow> create_video (as_published s (?edit (new_video acc))) | Some d \<Rightarrow> promote_draft s d ?edit) (\<lambda>v.
         bnd (enqueue_after_create s v) (\<lambda>_.
         bnd (mark_done row (vid_id v) (if vs_popularity s then v\<lparr>vid_popularity := PublishWeight\<rparr> else v)) (\<lambda>_.
         ret (v, True)))))) (published_as w (acc, key) ?hash) (\<lambda>_ _. True) x"
  proof (cases inserted)
    case None
    from x have "shelf_ok (seqs x) (shelf_of (tabs x)) \<and> tabs x = tabs w" unfolding None option.case .
    then have ok: "shelf_ok (seqs x) (shelf_of (tabs x))" by (rule conjunct1)
    from \<open>_ \<and> _\<close> have "reached shelf_of shelf_ok shelf_step w x" unfolding reached_def by (metis shelf_step_refl)
    then show ?thesis
      unfolding None option.case
      by (intro wp_mono [OF wp_conj [OF shelf.wp_rest [rotated] wp_replay [OF ok]]] rel_rules) auto
  next
    case (Some row)
    with x obtain k where k: "key_claimed w row k x" "idem_scope k = (acc, key)" "ik_hash k = ?hash" by auto
    show ?thesis
      unfolding Some option.case
    proof (rule wp_and_then)
      have "wp (find_promotable_draft acc (pq_draft req) play) (\<lambda>r y. (\<forall>v. r = Some v \<longrightarrow> v \<in> set (d_videos (tabs x)) \<and> IsDraft v)
          \<and> d_videos (tabs y) = d_videos (tabs x)) (\<lambda>_ y. True \<and> d_videos (tabs y) = d_videos (tabs x)) x"
        by (rule wp_frame [OF reads_video_queries(4) wp_promotable])
      then have look: "wp (find_promotable_draft acc (pq_draft req) play)
          (\<lambda>r y. \<forall>v. r = Some v \<longrightarrow> v \<in> set (d_videos (tabs y)) \<and> IsDraft v) (\<lambda>_ _. True) x"
        by (rule wp_mono) auto
      show "wp (find_promotable_draft acc (pq_draft req) play)
          (\<lambda>r y. (\<forall>v. r = Some v \<longrightarrow> v \<in> set (d_videos (tabs y)) \<and> IsDraft v) \<and> key_claimed w row k y) (\<lambda>_ _. True) x"
      proof (rule wpI)
        fix r and y :: "db world" assume m: "find_promotable_draft acc (pq_draft req) play x = (Inr r, y)"
        have "tabs y = tabs x" "\<forall>t. seqs x t \<le> seqs y t" using reads_same [OF reads_video_queries(4) m] by simp_all
        then have "key_claimed w row k y"
          using claimed_env [OF k(1)] by blast
        then show "(\<forall>v. r = Some v \<longrightarrow> v \<in> set (d_videos (tabs y)) \<and> IsDraft v) \<and> key_claimed w row k y"
          using wp_ok [OF look m] by blast
      qed simp
      fix draft and y :: "db world" assume y: "(\<forall>v. draft = Some v \<longrightarrow> v \<in> set (d_videos (tabs y)) \<and> IsDraft v) \<and> key_claimed w row k y"
      let ?place = "case draft of Some d \<Rightarrow> promote_draft s d ?edit | None \<Rightarrow> create_video (as_published s (?edit (new_video acc)))"
      have "wp ?place (\<lambda>v z. key_claimed w row k z \<and> vid_id v \<noteq> 0) (\<lambda>_ _. True) y"
        by (rule claimed_step, use y in blast, rule wp_place) (use y assms(2) in \<open>simp_all add: key_claimed_def, intro rel_rules, simp_all\<close>)
      then show "wp (bnd ?place (\<lambda>v. bnd (enqueue_after_create s v) (\<lambda>_.
          bnd (mark_done row (vid_id v) (if vs_popularity s then v\<lparr>vid_popularity := PublishWeight\<rparr> else v)) (\<lambda>_. ret (v, True)))))
          (published_as w (acc, key) ?hash) (\<lambda>_ _. True) y"
      proof (rule wp_and_then)
        fix v :: video and z :: "db world" assume z: "key_claimed w row k z \<and> vid_id v \<noteq> 0"
        have "wp (enqueue_after_create s v) (\<lambda>r z. key_claimed w row k z \<and> True) (\<lambda>_ _. True) z"
          by (rule claimed_step, use z in blast, rule wp_mono [OF shelf.wp_rest])
            (use z in \<open>simp_all add: key_claimed_def, (intro rel_rules; simp)+\<close>)
        then show "wp (bnd (enqueue_after_create s v) (\<lambda>_.
            bnd (mark_done row (vid_id v) (if vs_popularity s then v\<lparr>vid_popularity := PublishWeight\<rparr> else v)) (\<lambda>_. ret (v, True))))
            (published_as w (acc, key) ?hash) (\<lambda>_ _. True) z"
        proof (rule wp_and_then)
          fix a :: unit and z' :: "db world" assume "key_claimed w row k z' \<and> True"
          then have "wp (mark_done row (vid_id v) (if vs_popularity s then v\<lparr>vid_popularity := PublishWeight\<rparr> else v))
              (\<lambda>_ x. reached shelf_of shelf_ok shelf_step w x \<and> answered (acc, key) ?hash (vid_id v) (d_idem (tabs x))) (\<lambda>_ _. True) z'"
            using z k(2,3) wp_finish [of w row k z' "if vs_popularity s then v\<lparr>vid_popularity := PublishWeight\<rparr> else v" "vid_id v"]
            by (cases "vs_popularity s") simp_all
          then show "wp (bnd (mark_done row (vid_id v) (if vs_popularity s then v\<lparr>vid_popularity := PublishWeight\<rparr> else v)) (\<lambda>_. ret (v, True)))
              (published_as w (acc, key) ?hash) (\<lambda>_ _. True) z'"
            by (rule wp_and_then) (simp add: wp_basic)
        qed
      qed
    qed
  qed
qed

lemma grows_publish_tx [rel_rules]: "steps grows (publish_tx s acc username key req tags play cover)"
  unfolding publish_tx_def Let_def by (intro rel_rules; simp)

lemma goes_publish: "vs_audit s \<Longrightarrow> goes shelf_of shelf_ok shelf_step u (publish s acc username raw_key req) w"
proof -
  assume s: "vs_audit s"
  have tx: "goes shelf_of shelf_ok shelf_step u (transaction (publish_tx s acc username key req tags play cover)) x" for key tags play cover x
  proof (rule shelf.goes_transaction)
    assume "reached shelf_of shelf_ok shelf_step u x"
    then show "wp (publish_tx s acc username key req tags play cover) (\<lambda>_. reached shelf_of shelf_ok shelf_step (next_stmt x)) (\<lambda>_ _. True) (next_stmt x)"
      by (intro wp_mono [OF wp_publish_tx] s) (simp_all add: reached_def)
  qed (rule grows_publish_tx)
  have rest: "goes shelf_of shelf_ok shelf_step u (bnd (transaction (publish_tx s acc username key req tags play cover)) (\<lambda>(v, created).
      bnd (whenever created (invalidate_detail_cache s (vid_id v))) (\<lambda>_.
      ret (if created \<and> vs_popularity s then v\<lparr>vid_popularity := PublishWeight\<rparr> else v)))) x" for key tags play cover x
    by (rule shelf.goes_bnd [OF tx]) (intro shelf.goes_frame rel_rules)
  show ?thesis
    unfolding publish_def Let_def
  proof (rule shelf.goes_bnd)
    show "goes shelf_of shelf_ok shelf_step u (lift (normalize_idempotency_key raw_key)) w" by (intro shelf.goes_frame rel_rules)
    fix key and x :: "db world"
    show "goes shelf_of shelf_ok shelf_step u (bnd (checked_urls s (pq_play req) (pq_cover req)) (\<lambda>(play, cover).
        bnd (transaction (publish_tx s acc username key req (for_publish (pq_tags req) (pq_title req) (pq_description req)) play cover))
          (\<lambda>(v, created). bnd (whenever created (invalidate_detail_cache s (vid_id v))) (\<lambda>_.
          ret (if created \<and> vs_popularity s then v\<lparr>vid_popularity := PublishWeight\<rparr> else v))))) x"
      by (rule shelf.goes_bnd) (auto intro: shelf.goes_frame [OF reads_video_queries(5)] simp: rest)
  qed
qed

section \<open>The system\<close>

text \<open>A row without its counters, which likes, comments and popularity change.\<close>

definition core :: "video \<Rightarrow> video" where
  "core v = v\<lparr>vid_likes := 0, vid_comments := 0, vid_popularity := 0\<rparr>"

lemma core_adjust_video [simp]: "core (adjust_video a b c v) = core v"
  by (simp add: core_def adjust_video_def)

lemma core_fields: "vid_id (core v) = vid_id v" "vid_author (core v) = vid_author v" "vid_audit (core v) = vid_audit v"
  "phase_of (core v) = phase_of v"
  by (simp_all add: core_def phase_of_def IsDeleted_def IsDraft_def IsUnpublished_def EffectiveLifecycle_def)

lemma core_eq:
  assumes "core v = core v'"
  shows "vid_id v' = vid_id v" "vid_author v' = vid_author v" "vid_audit v' = vid_audit v" "phase_of v' = phase_of v"
  using core_fields [of v] core_fields [of v'] unfolding assms by simp_all

lemma same_cores:
  assumes "map core vs' = map core vs"
  shows "list_all2 (\<lambda>v v'. core v = core v') vs vs'"
proof -
  have "length vs' = length vs" using assms by (metis length_map)
  moreover have "core (vs ! i) = core (vs' ! i)" if "i < length vs" for i using assms that calculation by (metis nth_map)
  ultimately show ?thesis by (simp add: list_all2_conv_all_nth)
qed

lemma cores_ok:
  assumes "map core vs' = map core vs" "\<forall>t. q t \<le> q' t" "shelf_ok q (vs, rs, ks)"
  shows "shelf_ok q' (vs', rs, ks) \<and> shelf_step (vs, rs, ks) (vs', rs, ks)"
proof -
  have all: "list_all2 (\<lambda>v v'. vid_id v' = vid_id v \<and> vid_author v' = vid_author v \<and> vid_audit v' = vid_audit v \<and> phase_of v' = phase_of v) vs vs'"
    by (rule list_all2_mono [OF same_cores [OF assms(1)]]) (intro conjI core_eq)
  have ids: "map vid_id vs' = map vid_id vs" using all by (induction rule: list_all2_induct) simp_all
  have drafts: "length (filter (own_draft acc) vs') = length (filter (own_draft acc) vs)" for acc
    using all by (induction rule: list_all2_induct) (simp_all add: own_draft_phase)
  have behind: "\<exists>v \<in> set vs. vid_id v' = vid_id v \<and> vid_audit v' = vid_audit v" if "v' \<in> set vs'" for v'
    using all that by (induction rule: list_all2_induct) auto
  have ahead: "\<exists>v' \<in> set vs'. follows v v'" if "v \<in> set vs" for v
    using all that by (induction rule: list_all2_induct) (auto simp: follows_def)
  have "rows_ok q' vs'"
    using assms(2,3) ids behind by (simp add: shelf_ok.simps rows_ok_def) (metis order_trans)
  moreover have "judged rs v'" if "v' \<in> set vs'" for v'
    using behind [OF that] assms(3) unfolding shelf_ok.simps judged_def by metis
  moreover have "idem_ok q' ks" using assms(2,3) by (fastforce simp: shelf_ok.simps idem_ok_def intro: order_trans)
  ultimately show ?thesis
    using assms(3) drafts ahead by (simp add: shelf_ok.simps shelf_step.simps few_drafts_def)
qed

text \<open>Everything that writes videos, records and keys, in a deployment with the audit enabled. The rest of the
  program, which only moves the counters of videos, may do anything else at any time.\<close>

inductive video_step :: "db world \<Rightarrow> db world \<Rightarrow> bool" where
  saved: "video_step w (snd (save_draft s acc username req w))"
| published: "vs_audit s \<Longrightarrow> video_step w (snd (publish s acc username key preq w))"
| unpublished: "video_step w (snd (unpublish s acc i w))"
| relisted: "video_step w (snd (relist s acc i w))"
| deleted: "video_step w (snd (delete_video s acc i w))"
| audited: "video_step w (snd (handle_audit a ev w))"
| reviewed: "video_step w (snd (manual_review a operator i approve note w))"
| taken_down: "video_step w (snd (takedown s i operator note w))"
| admin_taken_down: "video_step w (snd (admin_takedown s i operator note w))"
| elsewhere: "map core (d_videos (tabs w')) = map core (d_videos (tabs w)) \<Longrightarrow> d_audit (tabs w') = d_audit (tabs w) \<Longrightarrow>
    d_idem (tabs w') = d_idem (tabs w) \<Longrightarrow> \<forall>t. seqs w t \<le> seqs w' t \<Longrightarrow> video_step w w'"

abbreviation video_steps :: "db world \<Rightarrow> db world \<Rightarrow> bool" where
  "video_steps \<equiv> video_step\<^sup>*\<^sup>*"

lemma frame_keys [rel_rules]:
  "steps (frame d_idem) (save_draft s acc username req)" "steps (frame d_idem) (unpublish s acc i)"
  "steps (frame d_idem) (relist s acc i)" "steps (frame d_idem) (delete_video s acc i)"
  "steps (frame d_idem) (moderate_video a i)" "steps (frame d_idem) (manual_review a op i approve note)"
  "steps (frame d_idem) (takedown_as s i op note md)"
  unfolding save_draft_def unpublish_def relist_def relist_tx_def delete_video_def moderate_video_def manual_review_def
    takedown_as_def takedown_tx_def apply_verdict_def apply_tx_def Let_def
  by (intro rel_rules; simp)+

lemma goes_handle_audit: "shelving ks u (handle_audit a ev) w"
proof -
  have "shelving ks u (bnd (result_of (moderate_video a i)) (\<lambda>r. case r of
      Inl e \<Rightarrow> if e = ErrTargetNotFound then ret () else throw e | Inr _ \<Rightarrow> ret ())) w" for i
    by (rule shelf.goes_bnd [OF shelf.goes_result_of [OF goes_moderate]]) (auto intro: shelf.goes_ret shelf.goes_throw split: sum.split)
  then show ?thesis
    unfolding handle_audit_def by (simp add: shelf.goes_ret shelf.goes_throw split: payload.split)
qed

lemma frame_handle_audit [rel_rules]: "steps (frame d_idem) (handle_audit a ev)"
  unfolding handle_audit_def by (simp split: payload.split) (intro conjI impI allI rel_rules)

lemma video_step_reached:
  assumes "video_step w w'" "shelf_ok (seqs w) (shelf_of (tabs w))"
  shows "reached shelf_of shelf_ok shelf_step w w'"
  using assms(1)
proof cases
  case (published s acc username key preq)
  show ?thesis unfolding published(1) by (rule shelf.goes_after [OF goes_publish [OF published(2)] assms(2)])
next
  case elsewhere
  then show ?thesis using cores_ok [OF elsewhere(1,4)] assms(2) by (simp add: reached_def)
qed (use assms(2) in \<open>simp_all only: takedown_def admin_takedown_def, (intro shelf.goes_after goes_shelf rel_rules
    goes_save_draft goes_unpublish goes_relist goes_delete_video goes_handle_audit goes_manual goes_takedown; assumption)+\<close>)

lemma video_steps_reached:
  assumes "video_steps w w'" "shelf_ok (seqs w) (shelf_of (tabs w))"
  shows "reached shelf_of shelf_ok shelf_step w w'"
  using assms(1)
proof (induction rule: rtranclp_induct)
  case base
  show ?case using assms(2) by (rule shelf.reached_refl)
next
  case (step x y)
  have "reached shelf_of shelf_ok shelf_step x y" by (rule video_step_reached [OF step(2)]) (use step(3) in \<open>simp add: reached_def\<close>)
  then show ?case by (rule shelf.reached_trans [OF step(3) refl])
qed

end
