(* ===== verification/Video_Properties.thy ===== *)
theory Video_Properties
  imports Video_Invariants
begin

text \<open>
  The properties of the video service and of the audit, over all sequences of their operations and over
  every behaviour of the clock, the random source, the driver and the moderator.
\<close>

definition fresh_shelf :: "db world \<Rightarrow> bool" where
  "fresh_shelf w \<longleftrightarrow> shelf_of (tabs w) = ([], [], [])"

lemma fresh_ok: "fresh_shelf w \<Longrightarrow> shelf_ok (seqs w) (shelf_of (tabs w))"
  by (simp add: fresh_shelf_def shelf_ok.simps rows_ok_def few_drafts_def idem_ok_def)

lemma reachable_ok: "fresh_shelf w0 \<Longrightarrow> video_steps w0 w \<Longrightarrow> shelf_ok (seqs w) (shelf_of (tabs w))"
  using video_steps_reached [of w0 w] fresh_ok by (simp add: reached_def)

section \<open>Visibility and the life cycle\<close>



text \<open>Draft limit: no author ever has more than twenty drafts.\<close>

lemma draft_limit:
  assumes "fresh_shelf w0" "video_steps w0 w"
  shows "length (filter (own_draft acc) (d_videos (tabs w))) \<le> 20"
  using reachable_ok [OF assms] by (simp add: shelf_ok.simps few_drafts_def maxDraftsPerAuthor_def)

section \<open>Publishing once\<close>

lemma find_key: "idem_ok q ks \<Longrightarrow> k \<in> set ks \<Longrightarrow> idem_scope k = (acc, key) \<Longrightarrow> find (key_scope acc key) ks = Some k"
proof -
  assume k: "idem_ok q ks" "k \<in> set ks" "idem_scope k = (acc, key)"
  have "find (key_scope acc key) ks \<noteq> None" using k(2,3) by (auto simp: find_None_iff key_scope_def idem_scope_def)
  then obtain x where x: "find (key_scope acc key) ks = Some x" by blast
  then have "x \<in> set ks" "idem_scope x = idem_scope k" using find_Some_in [OF x] k(3) by (auto simp: key_scope_def idem_scope_def)
  then have "x = k" using k(1,2) distinct_map_inj_eq [of idem_scope ks x k] by (simp add: idem_ok_def)
  with x show ?thesis by simp
qed

lemma wp_publish_again:
  assumes "shelf_ok (seqs w) (shelf_of (tabs w))"
    "answered (acc, key) (vs_hash s (pq_title req) (pq_description req) tags play cover) i (d_idem (tabs w))"
  shows "wp (publish_tx s acc username key req tags play cover) (\<lambda>(v, created) x. vid_id v = i \<and> \<not> created \<and> tabs x = tabs w \<and> calls x = calls w) (\<lambda>_ _. True) w"
proof -
  let ?hash = "vs_hash s (pq_title req) (pq_description req) tags play cover"
  obtain k v where k: "k \<in> set (d_idem (tabs w))" "idem_scope k = (acc, key)" "ik_hash k = ?hash"
    "ik_response k = Some v" "vid_id v = i" "i \<noteq> 0" using assms(2) by (auto simp: answered_def)
  have found: "find (key_scope acc key) (d_idem (tabs w)) = Some k"
    by (rule find_key [OF _ k(1,2), of "seqs w"]) (use assms(1) in \<open>simp add: shelf_ok.simps\<close>)
  moreover have "\<exists>k \<in> set (d_idem (tabs w)). key_scope acc key k"
    using k(1,2) by (auto simp: key_scope_def idem_scope_def)
  ultimately show ?thesis
    using k(3-6) by (simp add: publish_tx_def create_processing_def find_by_scope_def replay_published_def wp_rules Let_def)
qed

definition same_request :: "video_svc \<Rightarrow> video_svc \<Rightarrow> bool" where
  "same_request s s' \<longleftrightarrow> vs_url_path s' = vs_url_path s \<and> vs_hash s' = vs_hash s"

lemma wp_stat: "Q () w \<Longrightarrow> wp (stat_object s u e) Q (\<lambda>_ _. True) w"
  by (simp add: stat_object_def wp_basic split: option.split stat.split)

lemma wp_checked:
  "wp (checked_urls s a b) (\<lambda>p x. normalize_publish_urls (vs_url_path s) a b = Inr p \<and> x = w) (\<lambda>_ _. True) w"
  by (auto simp: checked_urls_def wp_bnd wp_basic intro!: wp_stat split: sum.split)

lemma wp_publish:
  assumes "shelf_ok (seqs w) (shelf_of (tabs w))" "vs_audit s"
  shows "wp (publish s acc username raw req) (\<lambda>v x. \<exists>key play cover. normalize_idempotency_key raw = Inr key
      \<and> normalize_publish_urls (vs_url_path s) (pq_play req) (pq_cover req) = Inr (play, cover)
      \<and> answered (acc, key) (vs_hash s (pq_title req) (pq_description req)
           (for_publish (pq_tags req) (pq_title req) (pq_description req)) play cover) (vid_id v) (d_idem (tabs x))) (\<lambda>_ _. True) w"
proof (cases "normalize_idempotency_key raw")
  case (Inr key)
  let ?tags = "for_publish (pq_tags req) (pq_title req) (pq_description req)"
  have "wp (bnd (transaction (publish_tx s acc username key req ?tags play cover)) (\<lambda>(v, created).
      bnd (whenever created (invalidate_detail_cache s (vid_id v))) (\<lambda>_.
      ret (if created \<and> vs_popularity s then v\<lparr>vid_popularity := PublishWeight\<rparr> else v))))
      (\<lambda>v x. answered (acc, key) (vs_hash s (pq_title req) (pq_description req) ?tags play cover) (vid_id v) (d_idem (tabs x))) (\<lambda>_ _. True) w"
    for play cover
  proof (rule wp_and_then)
    show "wp (transaction (publish_tx s acc username key req ?tags play cover))
        (\<lambda>p x. answered (acc, key) (vs_hash s (pq_title req) (pq_description req) ?tags play cover) (vid_id (fst p)) (d_idem (tabs x))) (\<lambda>_ _. True) w"
      by (rule wp_transactionI, rule wp_mono [OF wp_publish_tx]) (use assms in simp_all)
    fix p :: "video \<times> bool" and x :: "db world"
    obtain v created where p: "p = (v, created)" by (cases p)
    assume x: "answered (acc, key) (vs_hash s (pq_title req) (pq_description req) ?tags play cover) (vid_id (fst p)) (d_idem (tabs x))"
    show "wp (case p of (v, created) \<Rightarrow> bnd (whenever created (invalidate_detail_cache s (vid_id v))) (\<lambda>_.
        ret (if created \<and> vs_popularity s then v\<lparr>vid_popularity := PublishWeight\<rparr> else v)))
        (\<lambda>v x. answered (acc, key) (vs_hash s (pq_title req) (pq_description req) ?tags play cover) (vid_id v) (d_idem (tabs x))) (\<lambda>_ _. True) x"
      using x by (simp add: p invalidate_detail_cache_def wp_bnd wp_basic)
  qed
  note tx = this
  show ?thesis
    unfolding publish_def Let_def
  proof (rule wp_and_then)
    show "wp (lift (normalize_idempotency_key raw)) (\<lambda>k x. k = key \<and> x = w) (\<lambda>_ _. True) w" by (simp add: Inr wp_basic)
    fix k and x :: "db world" assume k: "k = key \<and> x = w"
    show "wp (bnd (checked_urls s (pq_play req) (pq_cover req)) (\<lambda>(play, cover).
        bnd (transaction (publish_tx s acc username k req ?tags play cover)) (\<lambda>(v, created).
        bnd (whenever created (invalidate_detail_cache s (vid_id v))) (\<lambda>_.
        ret (if created \<and> vs_popularity s then v\<lparr>vid_popularity := PublishWeight\<rparr> else v)))))
        (\<lambda>v x. \<exists>key play cover. normalize_idempotency_key raw = Inr key
           \<and> normalize_publish_urls (vs_url_path s) (pq_play req) (pq_cover req) = Inr (play, cover)
           \<and> answered (acc, key) (vs_hash s (pq_title req) (pq_description req) ?tags play cover) (vid_id v) (d_idem (tabs x)))
        (\<lambda>_ _. True) x"
      by (rule wp_and_then [OF wp_checked]) (use k Inr in \<open>auto intro!: wp_mono [OF tx]\<close>)
  qed
qed (simp add: publish_def wp_bnd wp_basic)

lemma wp_publish_replay:
  assumes "shelf_ok (seqs w) (shelf_of (tabs w))" "normalize_idempotency_key raw = Inr key"
    "normalize_publish_urls (vs_url_path s) (pq_play req) (pq_cover req) = Inr (play, cover)"
    "answered (acc, key) (vs_hash s (pq_title req) (pq_description req)
       (for_publish (pq_tags req) (pq_title req) (pq_description req)) play cover) i (d_idem (tabs w))"
  shows "wp (publish s acc username raw req) (\<lambda>v x. vid_id v = i \<and> tabs x = tabs w \<and> calls x = calls w) (\<lambda>_ _. True) w"
proof -
  let ?tags = "for_publish (pq_tags req) (pq_title req) (pq_description req)"
  let ?tx = "publish_tx s acc username key req ?tags play cover"
  have tx: "wp (transaction ?tx) (\<lambda>(v, created) x. vid_id v = i \<and> \<not> created \<and> tabs x = tabs w \<and> calls x = calls w) (\<lambda>_ _. True) w"
  proof -
    have "wp ?tx (\<lambda>(v, created) x. vid_id v = i \<and> \<not> created \<and> tabs x = tabs w \<and> calls x = calls w) (\<lambda>_ _. True) (next_stmt w)"
      by (rule wp_mono [OF wp_publish_again [where i = i]]) (use assms in auto)
    then show ?thesis by (intro wp_transactionI) (auto elim!: wp_mono)
  qed
  have "wp (bnd (transaction ?tx) (\<lambda>(v, created).
      bnd (whenever created (invalidate_detail_cache s (vid_id v))) (\<lambda>_.
      ret (if created \<and> vs_popularity s then v\<lparr>vid_popularity := PublishWeight\<rparr> else v))))
      (\<lambda>v x. vid_id v = i \<and> tabs x = tabs w \<and> calls x = calls w) (\<lambda>_ _. True) w"
    by (rule wp_and_then [OF tx]) (auto simp: wp_bnd wp_basic)
  note rest = this
  show ?thesis
    unfolding publish_def Let_def
  proof (rule wp_and_then)
    show "wp (lift (normalize_idempotency_key raw)) (\<lambda>k x. k = key \<and> x = w) (\<lambda>_ _. True) w" by (simp add: assms(2) wp_basic)
    fix k and x :: "db world" assume k: "k = key \<and> x = w"
    show "wp (bnd (checked_urls s (pq_play req) (pq_cover req)) (\<lambda>(play, cover).
        bnd (transaction (publish_tx s acc username k req ?tags play cover)) (\<lambda>(v, created).
        bnd (whenever created (invalidate_detail_cache s (vid_id v))) (\<lambda>_.
        ret (if created \<and> vs_popularity s then v\<lparr>vid_popularity := PublishWeight\<rparr> else v)))))
        (\<lambda>v x. vid_id v = i \<and> tabs x = tabs w \<and> calls x = calls w) (\<lambda>_ _. True) x"
      by (rule wp_and_then [OF wp_checked]) (use k assms(3) rest in auto)
  qed
qed


section \<open>Verdicts\<close>

definition announcement :: "nat \<Rightarrow> nat \<Rightarrow> instant \<Rightarrow> gostr \<Rightarrow> payload list" where
  "announcement vid author t reason = [VideoTimeline vid author t, PopularityChanged vid 2 reason, VideoEmbed vid]"

abbreviation outbox_payloads :: "db \<Rightarrow> payload list" where
  "outbox_payloads d \<equiv> map (\<lambda>m. ev_payload (ob_event m)) (d_outbox d)"

lemma wp_enqueue_event:
  "wp (enqueue_event ty p) (\<lambda>_ x. outbox_payloads (tabs x) = outbox_payloads (tabs w) @ [p]
     \<and> d_videos (tabs x) = d_videos (tabs w) \<and> d_audit (tabs x) = d_audit (tabs w)) (\<lambda>_ _. True) w"
  by (auto simp: enqueue_event_def new_envelope_def new_event_id_def enqueue_def new_message_def wp_rules Let_def split: option.split)

lemma wp_enqueue_public:
  "wp (enqueue_public vid author reason) (\<lambda>_ x. (\<exists>t. outbox_payloads (tabs x) = outbox_payloads (tabs w) @ announcement vid author t reason)
     \<and> d_videos (tabs x) = d_videos (tabs w) \<and> d_audit (tabs x) = d_audit (tabs w)) (\<lambda>_ _. True) w"
proof -
  have "wp (bnd (enqueue_event EventTypeVideoTimelinePush (VideoTimeline vid author t)) (\<lambda>_.
      bnd (enqueue_event EventTypePopularityChanged (PopularityChanged vid PublishWeight reason)) (\<lambda>_.
      enqueue_event EventTypeVideoEmbedRequested (VideoEmbed vid))))
    (\<lambda>_ x. outbox_payloads (tabs x) = outbox_payloads (tabs v) @ announcement vid author t reason
     \<and> d_videos (tabs x) = d_videos (tabs v) \<and> d_audit (tabs x) = d_audit (tabs v)) (\<lambda>_ _. True) v" for t v
    by (rule wp_and_then [OF wp_enqueue_event], rule wp_and_then [OF wp_enqueue_event], rule wp_mono [OF wp_enqueue_event])
      (simp_all add: announcement_def PublishWeight_def)
  note events = this
  show ?thesis
    unfolding enqueue_public_def
  proof (rule wp_and_then)
    show "wp read_now (\<lambda>_ x. tabs x = tabs w) (\<lambda>_ _. True) w" by (simp add: wp_basic)
  qed (rule wp_mono [OF events], auto)
qed

definition announced :: "audit_svc \<Rightarrow> audit_target \<Rightarrow> audit_status \<Rightarrow> payload list \<Rightarrow> bool" where
  "announced s t st ps \<longleftrightarrow> (if st = StatusApproved \<and> as_publisher s
     then \<exists>now. ps = announcement (tg_id t) (tg_author t) now (lit ''audit.approved'') else ps = [])"

definition verdict_written :: "audit_svc \<Rightarrow> audit_target \<Rightarrow> audit_status \<Rightarrow> nat \<Rightarrow> db \<Rightarrow> db \<Rightarrow> bool" where
  "verdict_written s t st operator d d' \<longleftrightarrow> d_videos d' = set_audit (tg_id t) st (d_videos d)
     \<and> (\<exists>r. d_audit d' = d_audit d @ [r] \<and> ar_target r = tg_id t \<and> ar_from r = tg_status t \<and> ar_to r = st \<and> ar_operator r = operator)
     \<and> (\<exists>ps. outbox_payloads d' = outbox_payloads d @ ps \<and> announced s t st ps)"

lemma wp_apply_tx:
  "wp (apply_tx s t st source md operator r) (\<lambda>_ x. verdict_written s t st operator (tabs w) (tabs x)) (\<lambda>_ _. True) w"
  unfolding apply_tx_def
proof (rule wp_and_then)
  show "wp (update_status (tg_id t) st) (\<lambda>_ x. tabs x = (tabs w)\<lparr>d_videos := set_audit (tg_id t) st (d_videos (tabs w))\<rparr>) (\<lambda>_ _. True) w"
    by (simp add: update_status_def wp_rules)
  fix a :: unit and x :: "db world" assume x: "tabs x = (tabs w)\<lparr>d_videos := set_audit (tg_id t) st (d_videos (tabs w))\<rparr>"
  let ?r = "verdict_record t st source md operator r"
  show "wp (bnd (append_record ?r) (\<lambda>_. if st \<noteq> StatusApproved \<or> \<not> as_publisher s then ret () else enqueue_approved (tg_id t) (tg_author t)))
      (\<lambda>_ x. verdict_written s t st operator (tabs w) (tabs x)) (\<lambda>_ _. True) x"
  proof (rule wp_and_then)
    show "wp (append_record ?r) (\<lambda>_ y. \<exists>i now. tabs y = (tabs x)\<lparr>d_audit := d_audit (tabs w) @ [?r\<lparr>ar_id := i, ar_created := now\<rparr>]\<rparr>) (\<lambda>_ _. True) x"
      using x by (auto simp: append_record_def wp_rules Let_def)
    fix b :: unit and y :: "db world"
    assume "\<exists>i now. tabs y = (tabs x)\<lparr>d_audit := d_audit (tabs w) @ [?r\<lparr>ar_id := i, ar_created := now\<rparr>]\<rparr>"
    then have y: "d_videos (tabs y) = set_audit (tg_id t) st (d_videos (tabs w))" "outbox_payloads (tabs y) = outbox_payloads (tabs w)"
      "\<exists>r. d_audit (tabs y) = d_audit (tabs w) @ [r] \<and> ar_target r = tg_id t \<and> ar_from r = tg_status t \<and> ar_to r = st \<and> ar_operator r = operator"
      using x by (auto simp: verdict_record_def)
    show "wp (if st \<noteq> StatusApproved \<or> \<not> as_publisher s then ret () else enqueue_approved (tg_id t) (tg_author t))
        (\<lambda>_ x. verdict_written s t st operator (tabs w) (tabs x)) (\<lambda>_ _. True) y"
    proof (cases "st = StatusApproved \<and> as_publisher s")
      case True
      have "wp (enqueue_public (tg_id t) (tg_author t) (lit ''audit.approved'')) (\<lambda>_ x. verdict_written s t st operator (tabs w) (tabs x)) (\<lambda>_ _. True) y"
        by (rule wp_mono [OF wp_enqueue_public]) (use y True in \<open>auto simp: verdict_written_def announced_def\<close>)
      with True show ?thesis by (simp add: enqueue_approved_def)
    next
      case False
      with y show ?thesis by (auto simp: wp_basic verdict_written_def announced_def)
    qed
  qed
qed

text \<open>C16 A verdict is one transaction: either nothing has changed, or the status, one record that names the
  reviewer, and, exactly for an approval, the three events that make the video public have all been written.\<close>

theorem verdict_is_atomic:
  "case apply_verdict s t st source md operator r w of
     (Inl _, w') \<Rightarrow> tabs w' = tabs w
   | (Inr _, w') \<Rightarrow> verdict_written s t st operator (tabs w) (tabs w')"
proof -
  have "wp (transaction (apply_tx s t st source md operator r)) (\<lambda>_ x. verdict_written s t st operator (tabs w) (tabs x))
      (\<lambda>_ x. tabs x = tabs w \<and> (\<forall>t. seqs w t \<le> seqs x t)) w"
  proof (rule wp_transaction_or)
    show "wp (apply_tx s t st source md operator r) (\<lambda>_ x. verdict_written s t st operator (tabs w) (tabs (next_stmt x))) (\<lambda>_ _. True) (next_stmt w)"
      using wp_apply_tx [of s t st source md operator r "next_stmt w"] by simp
    show "steps grows (apply_tx s t st source md operator r)" unfolding apply_tx_def by (intro rel_rules; simp)
  qed
  then show ?thesis by (auto simp: wp_def apply_verdict_def split: prod.splits sum.splits)
qed

text \<open>C18 Failing closed: when the machine turns a video that has no final verdict into an approved one, then the
  moderator passed both its text and its media without an error.\<close>

theorem machine_fails_closed:
  assumes "moderate_video s i w = (Inr StatusApproved, w')" "find (\<lambda>v. vid_id v = i) (d_videos (tabs w)) = Some v"
    "vid_audit v \<noteq> StatusApproved"
  shows "(\<exists>r. md_text (as_moderator s) (if vid_description v \<noteq> [] then vid_title v @ 10 # vid_description v else vid_title v) = Inr r
        \<and> rs_decision r = DecisionPass)
    \<and> (\<exists>r. md_media (as_moderator s) (vid_play_url v) (vid_cover_url v) = Inr r \<and> rs_decision r = DecisionPass)"
proof -
  let ?t = "to_audit_target v"
  have passed: "wp (moderate_video s i) (\<lambda>st _. st = StatusApproved \<longrightarrow> rs_decision (evaluate (as_moderator s) ?t) = DecisionPass) (\<lambda>_ _. True) w"
  proof -
    have st: "status_for d = StatusApproved \<longleftrightarrow> d = DecisionPass" for d by (cases d) simp_all
    have "wp (bnd (apply_verdict s ?t st src md operator r) (\<lambda>_. ret st)) (\<lambda>st' _. st' = st) (\<lambda>_ _. True) x" for st src md operator r x
      by (rule wp_and_then [where P = "\<lambda>_ _. True"]) (simp_all add: wp_basic)
    note verdict = this
    show ?thesis
      unfolding moderate_video_def
    proof (rule wp_and_then)
      show "wp (load_for_audit i) (\<lambda>r _. r = Some ?t) (\<lambda>_ _. True) w"
        by (simp add: load_for_audit_def video_by_id_def wp_rules assms(2))
      fix r and x :: "db world" assume "r = Some ?t"
      then show "wp (case r of
          None \<Rightarrow> throw ErrTargetNotFound
        | Some t \<Rightarrow> if tg_status t = StatusApproved \<or> tg_status t = StatusRejected then ret (tg_status t) else
            let result = evaluate (as_moderator s) t; next = status_for (rs_decision result) in
            bnd (apply_verdict s t next SourceMachine (md_name (as_moderator s)) 0 result) (\<lambda>_. ret next))
          (\<lambda>st _. st = StatusApproved \<longrightarrow> rs_decision (evaluate (as_moderator s) ?t) = DecisionPass) (\<lambda>_ _. True) x"
        using assms(3) by (auto simp: wp_basic Let_def to_audit_target_def [of v] st intro!: wp_mono [OF verdict [unfolded to_audit_target_def]])
    qed
  qed
  then have "rs_decision (evaluate (as_moderator s) ?t) = DecisionPass" using wp_ok [OF passed assms(1)] by blast
  then show ?thesis
    by (auto simp: evaluate_def Review_def to_audit_target_def Let_def split: sum.splits if_splits)
qed

section \<open>Examples\<close>

text \<open>Author 1 publishes a video, the machine approves it, and the author takes it off.\<close>

definition demo_service :: video_svc where
  "demo_service = \<lparr>vs_url_path = (\<lambda>_. None), vs_hash = (\<lambda>t d g p c. t @ d), vs_store = None, vs_popularity = False,
     vs_detail = False, vs_local = False, vs_publisher = False, vs_audit = True\<rparr>"

definition demo_auditor :: audit_svc where
  "demo_auditor = \<lparr>as_moderator = \<lparr>md_name = lit ''m'', md_text = (\<lambda>_. Inr \<lparr>rs_decision = DecisionPass, rs_label = [], rs_detail = []\<rparr>),
     md_media = (\<lambda>_ _. Inr \<lparr>rs_decision = DecisionPass, rs_label = [], rs_detail = []\<rparr>)\<rparr>, as_publisher = False, as_reviewers = [9]\<rparr>"

definition demo_request :: publish_request where
  "demo_request = \<lparr>pq_draft = 0, pq_title = lit ''t'', pq_description = [], pq_tags = [lit ''x''],
     pq_play = lit ''/static/videos/a'', pq_cover = []\<rparr>"

definition demo_event :: envelope where
  "demo_event = \<lparr>ev_id = lit ''e'', ev_type = EventTypeAuditRequested, ev_occurred = 0, ev_producer = [], ev_version = 1,
     ev_payload = AuditRequested 1 1\<rparr>"

definition shelf_start :: "db world" where "shelf_start = quiet_world 0 empty_db"
definition demo_published :: "db world" where
  "demo_published = snd (publish demo_service 1 (lit ''a'') (lit ''k'') demo_request shelf_start)"
definition demo_approved :: "db world" where "demo_approved = snd (handle_audit demo_auditor demo_event demo_published)"

definition demo_row :: video where
  "demo_row = \<lparr>vid_id = 1, vid_author = 1, vid_username = lit ''a'', vid_title = lit ''t'', vid_description = [], vid_tags = [lit ''x''],
     vid_play_url = lit ''/static/videos/a'', vid_cover_url = [], vid_likes = 0, vid_comments = 0, vid_popularity = 2,
     vid_audit = StatusPending, vid_lifecycle = LifecyclePublished, vid_deleted_at = None, vid_created = 0\<rparr>"

lemmas world_defs = rand_read_def bnd_def ret_def throw_def lift_def result_of_def read_now_def call_def query_def exec_def
  exec_count_def create_def next_stmt_def transaction_def quiet_world_def empty_db_def

lemma demo_urls: "normalize_publish_urls u (lit ''/static/videos/a'') [] = Inr (lit ''/static/videos/a'', [])"
  by (simp add: normalize_publish_urls_def normalize_managed_url_def has_prefix_def trim_prefix_def
      path_base_def trim_space_def is_space_def lit_def)

lemma demo_key: "normalize_idempotency_key (lit ''k'') = Inr (lit ''k'')"
  by (simp add: normalize_idempotency_key_def trim_space_def is_space_def lit_def maxIdempotencyKeyLength_def utf8_width_def byte_len_def)

lemma demo_tags: "for_publish [lit ''x''] (lit ''t'') [] = [lit ''x'']"
  by (simp add: for_publish_def normalize_def compact_def trim_space_def is_space_def lit_def Max_def maxRunes_def Let_def)

lemmas publish_defs = publish_def checked_urls_def stat_object_def demo_service_def demo_request_def demo_urls demo_key demo_tags
  publish_tx_def create_processing_def key_scope_def find_promotable_draft_def find_draft_by_play_url_def newest_def
  create_video_def as_published_def edit_video_def new_video_def initial_audit_status_def enqueue_after_create_def
  enqueue_event_def new_envelope_def new_event_id_def enqueue_def new_message_def mark_done_def update_where_def
  find_by_scope_def replay_published_def invalidate_detail_cache_def PublishWeight_def shelf_start_def demo_row_def world_defs Let_def

abbreviation demo_send :: "video op" where
  "demo_send \<equiv> publish demo_service 1 (lit ''a'') (lit ''k'') demo_request"

lemma demo_publish: "\<exists>w. demo_send shelf_start = (Inr demo_row, w) \<and> d_videos (tabs w) = [demo_row] \<and> d_audit (tabs w) = []
   \<and> faults w = (\<lambda>_. False)"
  by (simp add: publish_defs)

lemma demo_again: "\<exists>w w'. demo_send shelf_start = (Inr demo_row, w) \<and> demo_send w = (Inr demo_row, w')"
  by (simp add: publish_defs)

lemma demo_published: "d_videos (tabs demo_published) = [demo_row]" "d_audit (tabs demo_published) = []" "faults demo_published = (\<lambda>_. False)"
  using demo_publish by (auto simp: demo_published_def)

lemma demo_published_steps: "video_steps shelf_start demo_published"
  unfolding demo_published_def by (rule r_into_rtranclp, rule video_step.published) (simp add: demo_service_def)

lemma demo_approved_steps: "video_steps demo_published demo_approved"
  unfolding demo_approved_def by (rule r_into_rtranclp, rule video_step.audited)

lemma demo_fresh: "fresh_shelf shelf_start"
  by (simp add: fresh_shelf_def shelf_start_def world_defs)

lemmas audit_defs = moderate_video_def load_for_audit_def video_by_id_def to_audit_target_def
  evaluate_def demo_auditor_def apply_verdict_def apply_tx_def update_status_def append_record_def set_audit_def update_where_def
  demo_published demo_row_def bnd_def ret_def result_of_def read_now_def query_def exec_def create_def next_stmt_def transaction_def Let_def

lemma demo_approved: "d_videos (tabs demo_approved) = [demo_row\<lparr>vid_audit := StatusApproved\<rparr>]"
  by (simp add: demo_approved_def handle_audit_def demo_event_def audit_defs)



theorem draft_limit_witness: "length (filter (own_draft 1) (d_videos (tabs demo_published))) \<le> 20"
  by (rule draft_limit [OF demo_fresh demo_published_steps])


theorem machine_fails_closed_witness:
  "\<exists>r. md_text (as_moderator demo_auditor) (lit ''t'') = Inr r \<and> rs_decision r = DecisionPass"
proof -
  have "\<exists>w'. moderate_video demo_auditor 1 demo_published = (Inr StatusApproved, w')" by (simp add: audit_defs)
  then obtain w' where "moderate_video demo_auditor 1 demo_published = (Inr StatusApproved, w')" ..
  then show ?thesis
    using machine_fails_closed [of demo_auditor 1 demo_published w' demo_row] by (simp add: demo_published) (simp add: demo_row_def)
qed

end
