(* ===== verification/Likes.thy ===== *)
theory Likes
  imports Notification Outbox Tag Video_Store
begin

text \<open>
  Likes: the synchronous service (\<open>internal/like/service.go\<close>, \<open>repo.go\<close>) and the consumer of like
  events (\<open>internal/worker/like_worker.go\<close>), with what every consumer shares: the idempotency gate
  (\<open>internal/mq/processed_message.go\<close>) and the effects after a commit (\<open>internal/worker/common.go\<close>).
  The records \<open>like_svc\<close> and \<open>worker_env\<close> tell which collaborators of the structs are set.
\<close>

record like_svc =
  ls_publisher :: bool
  ls_popularity :: bool
  ls_detail :: bool
  ls_local :: bool
  ls_notify :: bool
  ls_interest :: bool
  ls_recorder :: bool

definition LikeWeight :: int where "LikeWeight = 3"
definition UnlikeWeight :: int where "UnlikeWeight = - 3"

section \<open>The service\<close>

definition like_row :: "nat \<Rightarrow> nat \<Rightarrow> video_like \<Rightarrow> bool" where
  "like_row vid acc l \<longleftrightarrow> vl_video l = vid \<and> vl_account l = acc"

definition find_like :: "nat \<Rightarrow> nat \<Rightarrow> video_like option op" where
  "find_like vid acc = query (\<lambda>d. find (like_row vid acc) (d_likes d))"

definition create_like :: "nat \<Rightarrow> nat \<Rightarrow> unit op" where
  "create_like vid acc = bnd read_now (\<lambda>now. bnd (create VideoLikes
     (\<lambda>_ d. \<exists>l \<in> set (d_likes d). like_row vid acc l)
     (\<lambda>i d. d\<lparr>d_likes := d_likes d @ [\<lparr>vl_id = i, vl_video = vid, vl_account = acc, vl_created = now\<rparr>]\<rparr>)) (\<lambda>_. ret ()))"

definition delete_like :: "nat \<Rightarrow> nat \<Rightarrow> nat op" where
  "delete_like vid acc = exec_count (\<lambda>d. length (filter (like_row vid acc) (d_likes d)))
     (\<lambda>d. d\<lparr>d_likes := filter (\<lambda>l. \<not> like_row vid acc l) (d_likes d)\<rparr>)"

definition popularity_event :: "nat \<Rightarrow> int \<Rightarrow> gostr \<Rightarrow> unit op" where
  "popularity_event vid delta reason =
     bnd (new_envelope EventTypePopularityChanged ProducerAPIServer (PopularityChanged vid delta reason)) enqueue"

definition like_tx :: "like_svc \<Rightarrow> nat \<Rightarrow> nat \<Rightarrow> nat \<Rightarrow> int \<Rightarrow> unit op" where
  "like_tx s acc vid author pop = bnd (find_like vid acc) (\<lambda>existing.
     fail_if (existing \<noteq> None) ErrAlreadyLiked (
     bnd (result_of (create_like vid acc)) (\<lambda>res. case res of
       Inl e \<Rightarrow> throw (if e = DbDuplicate then ErrAlreadyLiked else e)
     | Inr _ \<Rightarrow>
         bnd (adjust_counters vid 1 0 pop) (\<lambda>_.
         bnd (apply_like (ls_notify s) acc vid author) (\<lambda>_.
         whenever (ls_publisher s) (popularity_event vid LikeWeight EventTypeLikeCreated))))))"

definition unlike_tx :: "like_svc \<Rightarrow> nat \<Rightarrow> nat \<Rightarrow> nat \<Rightarrow> int \<Rightarrow> unit op" where
  "unlike_tx s acc vid author pop = bnd (delete_like vid acc) (\<lambda>n.
     fail_if (n = 0) ErrLikeNotFound (
     bnd (adjust_counters vid (-1) 0 pop) (\<lambda>_.
     bnd (retract_like (ls_notify s) acc vid author) (\<lambda>_.
     whenever (ls_publisher s) (popularity_event vid UnlikeWeight EventTypeLikeDeleted)))))"

definition invalidate_detail :: "bool \<Rightarrow> bool \<Rightarrow> bool \<Rightarrow> nat \<Rightarrow> unit op" where
  "invalidate_detail detail local publisher vid =
     bnd (whenever detail (call (DetailCacheDelete vid))) (\<lambda>_.
     bnd (whenever local (call (LocalDetailDelete vid))) (\<lambda>_.
     whenever publisher (call (PublishInvalidated vid))))"

definition record_popularity :: "like_svc \<Rightarrow> nat \<Rightarrow> int \<Rightarrow> unit op" where
  "record_popularity s vid weight = whenever (\<not> ls_publisher s \<and> ls_popularity s)
     (bnd read_now (\<lambda>now. call (PopularityRecord vid weight now)))"

definition record_interest :: "bool \<Rightarrow> nat \<Rightarrow> video \<Rightarrow> unit op" where
  "record_interest recorder acc v = whenever recorder (ignore (record_from_video acc (vid_tags v)))"

definition like_video :: "like_svc \<Rightarrow> nat \<Rightarrow> nat \<Rightarrow> unit op" where
  "like_video s acc vid = bnd (video_by_id vid) (\<lambda>r. case r of
      None \<Rightarrow> throw ErrVideoNotFound
    | Some v \<Rightarrow> fail_if (\<not> IsPubliclyListed v) ErrVideoNotFound (
        let pop = (if \<not> ls_publisher s \<and> \<not> ls_popularity s then LikeWeight else 0) in
        bnd (transaction (like_tx s acc vid (vid_author v) pop)) (\<lambda>_.
        bnd (record_popularity s vid LikeWeight) (\<lambda>_.
        bnd (invalidate_detail (ls_detail s) (ls_local s) (ls_publisher s) vid) (\<lambda>_.
        bnd (whenever (ls_interest s) (call (InvalidateUser acc))) (\<lambda>_.
        record_interest (ls_recorder s) acc v))))))"

definition unlike_video :: "like_svc \<Rightarrow> nat \<Rightarrow> nat \<Rightarrow> unit op" where
  "unlike_video s acc vid = bnd (video_by_id vid) (\<lambda>r. case r of
      None \<Rightarrow> throw ErrVideoNotFound
    | Some v \<Rightarrow>
        let pop = (if \<not> ls_publisher s \<and> \<not> ls_popularity s then UnlikeWeight else 0) in
        bnd (transaction (unlike_tx s acc vid (vid_author v) pop)) (\<lambda>_.
        bnd (record_popularity s vid UnlikeWeight) (\<lambda>_.
        bnd (invalidate_detail (ls_detail s) (ls_local s) (ls_publisher s) vid) (\<lambda>_.
        whenever (ls_interest s) (call (InvalidateUser acc))))))"

definition is_liked :: "nat \<Rightarrow> nat \<Rightarrow> bool op" where
  "is_liked acc vid = bnd (video_by_id vid) (\<lambda>r. case r of
      None \<Rightarrow> throw ErrVideoNotFound
    | Some v \<Rightarrow> bnd (find_like vid acc) (\<lambda>l. ret (l \<noteq> None)))"

definition list_liked_video_ids :: "nat \<Rightarrow> nat list \<Rightarrow> nat list op" where
  "list_liked_video_ids acc vids = (if vids = [] then ret [] else
     query (\<lambda>d. map vl_video (filter (\<lambda>l. vl_account l = acc \<and> vl_video l \<in> set vids) (d_likes d))))"

section \<open>Consumers\<close>

record worker_env =
  we_detail :: bool
  we_publisher :: bool
  we_notify :: bool
  we_recorder :: bool

definition mark_processed :: "gostr \<Rightarrow> envelope \<Rightarrow> unit op" where
  "mark_processed consumer ev = bnd (result_of (exec_unique
     (\<lambda>d. (consumer, ev_id ev) \<in> set (d_processed d))
     (\<lambda>d. d\<lparr>d_processed := d_processed d @ [(consumer, ev_id ev)]\<rparr>))) (\<lambda>r. case r of
       Inr _ \<Rightarrow> ret () | Inl e \<Rightarrow> throw (if e = DbDuplicate then ErrAlreadyProcessed else e))"

text \<open>The gate of every consumer: an event seen before ends the transaction without effect.\<close>

definition once :: "gostr \<Rightarrow> envelope \<Rightarrow> 'a \<Rightarrow> 'a op \<Rightarrow> 'a op" where
  "once consumer ev nothing m = bnd (result_of (mark_processed consumer ev)) (\<lambda>r. case r of
     Inr _ \<Rightarrow> m | Inl e \<Rightarrow> if e = ErrAlreadyProcessed then ret nothing else throw e)"

definition publish_popularity_changed :: "bool \<Rightarrow> nat \<Rightarrow> int \<Rightarrow> gostr \<Rightarrow> unit op" where
  "publish_popularity_changed publisher vid delta reason = whenever publisher
     (bnd (new_envelope EventTypePopularityChanged ProducerWorker (PopularityChanged vid delta reason)) (\<lambda>_.
      call (PublishPopularity vid delta)))"

definition like_worker :: gostr where "like_worker = lit ''like-worker''"

definition liked_tx :: "envelope \<Rightarrow> nat \<Rightarrow> nat \<Rightarrow> bool op" where
  "liked_tx ev acc vid = once like_worker ev False (
     bnd (result_of (create_like vid acc)) (\<lambda>res. case res of
       Inl e \<Rightarrow> if e = DbDuplicate then ret False else throw e
     | Inr _ \<Rightarrow> bnd (adjust_counters vid 1 0 0) (\<lambda>_. ret True)))"

definition unliked_tx :: "envelope \<Rightarrow> nat \<Rightarrow> nat \<Rightarrow> bool op" where
  "unliked_tx ev acc vid = once like_worker ev False (
     bnd (delete_like vid acc) (\<lambda>n. if n = 0 then ret False else
     bnd (adjust_counters vid (-1) 0 0) (\<lambda>_. ret True)))"

definition after_like :: "worker_env \<Rightarrow> nat \<Rightarrow> int \<Rightarrow> gostr \<Rightarrow> bool \<Rightarrow> unit op" where
  "after_like e vid delta reason emit = whenever emit
     (bnd (publish_popularity_changed (we_publisher e) vid delta reason) (\<lambda>_. invalidate_detail (we_detail e) False (we_publisher e) vid))"

definition handle_like_created :: "worker_env \<Rightarrow> envelope \<Rightarrow> unit op" where
  "handle_like_created e ev = (case ev_payload ev of
      LikePayload acc vid \<Rightarrow> fail_if (acc = 0 \<or> vid = 0) ErrOther
        (bnd (transaction (liked_tx ev acc vid)) (after_like e vid LikeWeight EventTypeLikeCreated))
    | _ \<Rightarrow> throw ErrOther)"

definition handle_like_deleted :: "worker_env \<Rightarrow> envelope \<Rightarrow> unit op" where
  "handle_like_deleted e ev = (case ev_payload ev of
      LikePayload acc vid \<Rightarrow> fail_if (acc = 0 \<or> vid = 0) ErrOther
        (bnd (transaction (unliked_tx ev acc vid)) (after_like e vid UnlikeWeight EventTypeLikeDeleted))
    | _ \<Rightarrow> throw ErrOther)"

definition handle_like :: "worker_env \<Rightarrow> envelope \<Rightarrow> unit op" where
  "handle_like e ev = (if ev_type ev = EventTypeLikeCreated then handle_like_created e ev
     else if ev_type ev = EventTypeLikeDeleted then handle_like_deleted e ev else throw ErrOther)"

end
