(* ===== verification/Mentions.thy ===== *)
theory Mentions
  imports Notification
begin

text \<open>
  Notices of comments (\<open>internal/notification/writer.go\<close>, \<open>mentions.go\<close>): who is told of a
  comment, a reply and a mention. The character classes \<open>\\p\{L\}\<close> and \<open>\\p\{N\}\<close> are the parameter
  \<open>letter\<close>, the lower-case table is \<open>lo\<close>. \<open>FindAllStringSubmatch\<close> is the scan \<open>mention_scan\<close>,
  which goes on after the last character of a match.
\<close>

section \<open>Mentions in a text\<close>

definition textClipRunes :: nat where "textClipRunes = 80"
definition maxMentions :: nat where "maxMentions = 10"

definition mention_name :: "(rune \<Rightarrow> bool) \<Rightarrow> gostr \<Rightarrow> gostr" where
  "mention_name letter s = take 64 (takeWhile (\<lambda>r. letter r \<or> r = 95 \<or> r = 45) s)"

fun mention_at :: "(rune \<Rightarrow> bool) \<Rightarrow> bool \<Rightarrow> gostr \<Rightarrow> gostr option" where
  "mention_at letter start [] = None"
| "mention_at letter start (c # cs) =
    (if start \<and> c = 64 \<and> mention_name letter cs \<noteq> [] then Some (mention_name letter cs)
     else if \<not> (letter c \<or> c = 95) \<and> cs \<noteq> [] \<and> hd cs = 64 \<and> mention_name letter (tl cs) \<noteq> []
       then Some (mention_name letter (tl cs)) else None)"

text \<open>The characters a match takes: the name, the at sign, and the character before it unless the match is
  at the start.\<close>

function mention_scan :: "(rune \<Rightarrow> bool) \<Rightarrow> bool \<Rightarrow> gostr \<Rightarrow> gostr list" where
  "mention_scan letter start [] = []"
| "mention_scan letter start (c # cs) = (case mention_at letter start (c # cs) of
     None \<Rightarrow> mention_scan letter False cs
   | Some name \<Rightarrow> name # mention_scan letter False
       (drop (length name) (if start \<and> c = 64 \<and> mention_name letter cs \<noteq> [] then cs else tl cs)))"
  by pat_completeness auto
termination by (relation "measure (\<lambda>(_, _, t). length t)") auto

fun mentions_loop :: "(rune \<Rightarrow> rune) \<Rightarrow> gostr list \<Rightarrow> gostr list \<Rightarrow> gostr list \<Rightarrow> gostr list" where
  "mentions_loop lo seen out [] = out"
| "mentions_loop lo seen out (m # ms) = (let name = trim_space m; key = to_lower lo name in
     if name = [] then mentions_loop lo seen out ms
     else if key \<in> set seen then mentions_loop lo seen out ms
     else if length (out @ [name]) \<ge> maxMentions then out @ [name]
     else mentions_loop lo (key # seen) (out @ [name]) ms)"

definition parse_mentions :: "(rune \<Rightarrow> rune) \<Rightarrow> (rune \<Rightarrow> bool) \<Rightarrow> gostr \<Rightarrow> gostr list" where
  "parse_mentions lo letter content = mentions_loop lo [] [] (mention_scan letter True content)"

definition clip_text :: "gostr \<Rightarrow> nat \<Rightarrow> gostr" where
  "clip_text raw n = (let s = trim_space raw in
     if s = [] \<or> n = 0 then [] else if length s \<le> n then s else take n s @ [8230])"

section \<open>Who is told of a comment\<close>

record comment_fanout =
  cf_comment :: nat
  cf_video :: nat
  cf_actor :: nat
  cf_author :: nat
  cf_parent :: nat
  cf_root :: nat
  cf_reply_to :: nat
  cf_content :: gostr

definition find_accounts_by_usernames :: "gostr list \<Rightarrow> account list op" where
  "find_accounts_by_usernames names = (if names = [] then ret [] else
     query (\<lambda>d. filter (\<lambda>a. acc_username a \<in> set names) (d_accounts d)))"

definition comment_notice ::
  "notif_kind \<Rightarrow> gostr \<Rightarrow> nat \<Rightarrow> comment_fanout \<Rightarrow> instant \<Rightarrow> notification" where
  "comment_notice kind dedup recipient f now = blank_notice\<lparr>nt_recipient := recipient, nt_kind := kind,
     nt_actor := cf_actor f, nt_actors := [cf_actor f], nt_count := 1, nt_video := cf_video f,
     nt_comment := cf_comment f, nt_root := (if cf_root f = 0 then cf_comment f else cf_root f),
     nt_text := clip_text (cf_content f) textClipRunes, nt_dedup := dedup, nt_created := now, nt_updated := now\<rparr>"

text \<open>The map from lower-cased names to accounts: of two rows with the same key the later one stays.\<close>

definition account_for :: "(rune \<Rightarrow> rune) \<Rightarrow> account list \<Rightarrow> gostr \<Rightarrow> account option" where
  "account_for lo rows name = find (\<lambda>a. to_lower lo (acc_username a) = to_lower lo name) (rev rows)"

definition mention_key :: "nat \<Rightarrow> nat \<Rightarrow> gostr" where
  "mention_key c u = lit ''mention:c:'' @ dec_nat c @ lit '':u:'' @ dec_nat u"

fun mention_notices ::
  "(rune \<Rightarrow> rune) \<Rightarrow> account list \<Rightarrow> comment_fanout \<Rightarrow> instant \<Rightarrow> nat list \<Rightarrow> gostr list \<Rightarrow> unit op" where
  "mention_notices lo rows f now already [] = ret ()"
| "mention_notices lo rows f now already (name # names) = (case account_for lo rows name of
     None \<Rightarrow> mention_notices lo rows f now already names
   | Some a \<Rightarrow> if acc_id a \<in> set already then mention_notices lo rows f now already names
       else bnd (create_once (comment_notice KindMention (mention_key (cf_comment f) (acc_id a)) (acc_id a) f now)) (\<lambda>_.
         mention_notices lo rows f now (acc_id a # already) names))"

text \<open>The author of the video is told of a comment, the author of the parent of a reply; the result are the
  accounts that mentions skip.\<close>

definition first_notice :: "comment_fanout \<Rightarrow> instant \<Rightarrow> nat list op" where
  "first_notice f now = (if cf_parent f = 0 then
      (if cf_author f \<noteq> 0 \<and> cf_author f \<noteq> cf_actor f
       then bnd (create_once (comment_notice KindComment (lit ''comment:c:'' @ dec_nat (cf_comment f)) (cf_author f) f now))
         (\<lambda>_. ret [cf_author f, cf_actor f])
       else ret [cf_actor f])
    else if cf_reply_to f \<noteq> 0 \<and> cf_reply_to f \<noteq> cf_actor f
      then bnd (create_once (comment_notice KindReply (lit ''reply:c:'' @ dec_nat (cf_comment f)) (cf_reply_to f) f now))
         (\<lambda>_. ret [cf_reply_to f, cf_actor f])
      else ret [cf_actor f])"

definition apply_comment :: "(rune \<Rightarrow> rune) \<Rightarrow> (rune \<Rightarrow> bool) \<Rightarrow> bool \<Rightarrow> comment_fanout \<Rightarrow> unit op" where
  "apply_comment lo letter on f = (if \<not> on \<or> cf_comment f = 0 \<or> cf_actor f = 0 then ret () else
     bnd read_now (\<lambda>now.
     bnd (first_notice f now) (\<lambda>already.
     let names = parse_mentions lo letter (cf_content f) in
     if names = [] then ret ()
     else bnd (find_accounts_by_usernames names) (\<lambda>rows. mention_notices lo rows f now already names))))"

section \<open>Frames\<close>

lemma frame_mention_notices [rel_rules]:
  assumes "\<And>d x. g (d\<lparr>d_notifs := x\<rparr>) = g d"
  shows "steps (frame g) (mention_notices lo rows f now already names)"
  by (induction names arbitrary: already) (auto intro!: rel_rules assms split: option.split)

lemma frame_apply_comment [rel_rules]:
  assumes "\<And>d x. g (d\<lparr>d_notifs := x\<rparr>) = g d"
  shows "steps (frame g) (apply_comment lo letter on f)"
  unfolding apply_comment_def first_notice_def find_accounts_by_usernames_def Let_def by (intro rel_rules assms)

section \<open>Properties\<close>

lemma mention_name_length: "length (mention_name letter s) \<le> 64"
  by (simp add: mention_name_def)

lemma mention_at_name: "mention_at letter start s = Some name \<Longrightarrow> name \<noteq> [] \<and> length name \<le> 64"
  by (cases s) (auto simp: mention_name_length split: if_splits)

lemma mention_scan_names: "name \<in> set (mention_scan letter start s) \<Longrightarrow> name \<noteq> [] \<and> length name \<le> 64"
proof (induction letter start s rule: mention_scan.induct)
  case (2 letter start c cs)
  show ?case
  proof (cases "mention_at letter start (c # cs)")
    case None
    have "name \<in> set (mention_scan letter False cs)"
      using "2.prems" unfolding mention_scan.simps None option.case .
    then show ?thesis by (rule "2.IH"(1) [OF None])
  next
    case (Some n)
    let ?rest = "drop (length n) (if start \<and> c = 64 \<and> mention_name letter cs \<noteq> [] then cs else tl cs)"
    have "name = n \<or> name \<in> set (mention_scan letter False ?rest)"
      using "2.prems" unfolding mention_scan.simps Some option.case set_simps by blast
    then show ?thesis using mention_at_name [OF Some] "2.IH"(2) [OF Some] by blast
  qed
qed simp

definition mentions_ok :: "(rune \<Rightarrow> rune) \<Rightarrow> gostr list \<Rightarrow> bool" where
  "mentions_ok lo out \<longleftrightarrow> length out \<le> maxMentions \<and> distinct (map (to_lower lo) out)
     \<and> (\<forall>m \<in> set out. m \<noteq> [] \<and> length m \<le> 64)"

lemma mentions_loop_shape:
  "mentions_ok lo out \<Longrightarrow> length out < maxMentions \<Longrightarrow> set seen = to_lower lo ` set out \<Longrightarrow>
   \<forall>m \<in> set ms. length m \<le> 64 \<Longrightarrow> mentions_ok lo (mentions_loop lo seen out ms)"
proof (induction ms arbitrary: seen out)
  case (Cons m ms)
  have len: "length (trim_space m) \<le> 64" using Cons.prems(4) length_trim_space [of m] by simp
  show ?case
  proof (cases "trim_space m = [] \<or> to_lower lo (trim_space m) \<in> set seen")
    case True
    then have "mentions_loop lo seen out (m # ms) = mentions_loop lo seen out ms" by (auto simp: Let_def)
    with Cons show ?thesis by simp
  next
    case False
    let ?out = "out @ [trim_space m]"
    have ok: "mentions_ok lo ?out"
      using False len Cons.prems(1,2,3) by (auto simp: mentions_ok_def)
    show ?thesis
    proof (cases "length ?out \<ge> maxMentions")
      case True
      then have "mentions_loop lo seen out (m # ms) = ?out" using False by (simp add: Let_def)
      with ok show ?thesis by simp
    next
      case small: False
      then have "mentions_loop lo seen out (m # ms) = mentions_loop lo (to_lower lo (trim_space m) # seen) ?out ms"
        using False by (simp add: Let_def)
      moreover have "mentions_ok lo (mentions_loop lo (to_lower lo (trim_space m) # seen) ?out ms)"
        using Cons.IH [OF ok] small Cons.prems(3,4) by simp
      ultimately show ?thesis by simp
    qed
  qed
qed simp

text \<open>A comment mentions at most ten accounts, each by a name of at most 64 characters and none twice
  up to case.\<close>

lemma mentions_bounded:
  "length (parse_mentions lo letter content) \<le> maxMentions
    \<and> distinct (map (to_lower lo) (parse_mentions lo letter content))
    \<and> (\<forall>m \<in> set (parse_mentions lo letter content). m \<noteq> [] \<and> length m \<le> 64)"
  using mentions_loop_shape [of lo "[]" "[]" "mention_scan letter True content"] mention_scan_names [of _ letter True content]
  by (simp add: parse_mentions_def mentions_ok_def maxMentions_def)

text \<open>The notices a program adds: one recipient each, none of those excluded.\<close>

definition tells :: "nat \<Rightarrow> nat set \<Rightarrow> db world \<Rightarrow> db world \<Rightarrow> bool" where
  "tells c excluded w w' \<longleftrightarrow> (\<exists>ns. d_notifs (tabs w') = d_notifs (tabs w) @ ns \<and> distinct (map nt_recipient ns)
     \<and> (\<forall>n \<in> set ns. nt_recipient n \<notin> excluded \<and> nt_comment n = c))"

lemma tells_none: "d_notifs (tabs w') = d_notifs (tabs w) \<Longrightarrow> tells c excluded w w'"
  by (simp add: tells_def)

lemma tells_one:
  assumes "d_notifs (tabs v) = d_notifs (tabs w) \<or> (\<exists>i. d_notifs (tabs v) = d_notifs (tabs w) @ [n\<lparr>nt_id := i\<rparr>])"
    and "nt_recipient n \<notin> excluded" "nt_comment n = c" "tells c (insert (nt_recipient n) excluded) v w'"
  shows "tells c excluded w w'"
proof -
  obtain ns where ns: "d_notifs (tabs w') = d_notifs (tabs v) @ ns" "distinct (map nt_recipient ns)"
    "\<forall>m \<in> set ns. nt_recipient m \<notin> insert (nt_recipient n) excluded \<and> nt_comment m = c"
    using assms(4) by (auto simp: tells_def)
  from assms(1) show ?thesis
  proof
    assume "\<exists>i. d_notifs (tabs v) = d_notifs (tabs w) @ [n\<lparr>nt_id := i\<rparr>]"
    then obtain i where "d_notifs (tabs v) = d_notifs (tabs w) @ [n\<lparr>nt_id := i\<rparr>]" ..
    with ns assms(2,3) show ?thesis
      unfolding tells_def by (intro exI [of _ "n\<lparr>nt_id := i\<rparr> # ns"]) auto
  qed (use ns in \<open>auto simp: tells_def\<close>)
qed

lemma wp_create_once:
  "wp (create_once n) (\<lambda>_ w'. d_notifs (tabs w') = d_notifs (tabs w)
     \<or> (\<exists>i. d_notifs (tabs w') = d_notifs (tabs w) @ [n\<lparr>nt_id := i\<rparr>])) (\<lambda>_ _. True) w"
  by (auto simp: create_once_def create_notice_def wp_rules Let_def)

lemma tells_cong: "tabs v = tabs w \<Longrightarrow> tells c excluded v = tells c excluded w"
  by (simp add: tells_def fun_eq_iff)

lemma wp_create_once_then:
  assumes "nt_recipient n = u" "nt_comment n = c" "u \<notin> excluded"
    and m: "\<And>v. wp m (\<lambda>_. tells c (insert u excluded) v) (\<lambda>_ _. True) v"
  shows "wp (bnd (create_once n) (\<lambda>_. m)) (\<lambda>_. tells c excluded w) (\<lambda>_ _. True) w"
  unfolding wp_bnd
proof (rule wp_mono [OF wp_create_once])
  fix v :: "db world"
  assume v: "d_notifs (tabs v) = d_notifs (tabs w) \<or> (\<exists>i. d_notifs (tabs v) = d_notifs (tabs w) @ [n\<lparr>nt_id := i\<rparr>])"
  show "wp m (\<lambda>_. tells c excluded w) (\<lambda>_ _. True) v"
    by (rule wp_mono [OF m]) (use tells_one [OF v] assms(1-3) in auto)
qed simp

lemma wp_mention_notices:
  "wp (mention_notices lo rows f now already names) (\<lambda>_. tells (cf_comment f) (set already) w) (\<lambda>_ _. True) w"
proof (induction names arbitrary: already w)
  case Nil
  show ?case by (simp add: wp_rules tells_none)
next
  case (Cons name names)
  show ?case
  proof (cases "account_for lo rows name")
    case None
    with Cons show ?thesis by simp
  next
    case (Some a)
    have "wp (bnd (create_once (comment_notice KindMention (mention_key (cf_comment f) (acc_id a)) (acc_id a) f now))
        (\<lambda>_. mention_notices lo rows f now (acc_id a # already) names)) (\<lambda>_. tells (cf_comment f) (set already) w) (\<lambda>_ _. True) w"
      if "acc_id a \<notin> set already"
      by (rule wp_create_once_then [where u = "acc_id a"])
        (use that Cons.IH [of "acc_id a # already"] in \<open>simp_all add: comment_notice_def\<close>)
    with Some Cons show ?thesis by simp
  qed
qed

lemma wp_mentions:
  "wp (let names = parse_mentions lo letter (cf_content f) in if names = [] then ret ()
     else bnd (find_accounts_by_usernames names) (\<lambda>rows. mention_notices lo rows f now already names))
     (\<lambda>_. tells (cf_comment f) (set already) w) (\<lambda>_ _. True) w"
proof -
  have "wp (mention_notices lo rows f now already names) (\<lambda>_. tells (cf_comment f) (set already) w) (\<lambda>_ _. True) (next_stmt w)"
    for rows names
    using wp_mention_notices [of lo rows f now already names "next_stmt w"] tells_cong [of "next_stmt w" w] by simp
  then show ?thesis by (simp add: find_accounts_by_usernames_def wp_rules Let_def tells_none)
qed

text \<open>A comment tells nobody twice and never its own author: whatever the comment says and whoever it
  replies to, the notices it adds have different recipients, none of them the commenter, and all of
  them point to the comment.\<close>

lemma comment_notices_once:
  assumes "apply_comment lo letter on f w = (Inr (), w')"
  shows "\<exists>ns. d_notifs (tabs w') = d_notifs (tabs w) @ ns \<and> distinct (map nt_recipient ns)
    \<and> (\<forall>n \<in> set ns. nt_recipient n \<noteq> cf_actor f \<and> nt_comment n = cf_comment f)"
proof -
  let ?m = "\<lambda>now already. let names = parse_mentions lo letter (cf_content f) in if names = [] then ret ()
      else bnd (find_accounts_by_usernames names) (\<lambda>rows. mention_notices lo rows f now already names)"
  have rest: "wp (?m now [cf_actor f]) (\<lambda>_. tells (cf_comment f) {cf_actor f} v) (\<lambda>_ _. True) v" for now and v :: "db world"
    using wp_mentions [of lo letter f now "[cf_actor f]" v] by simp
  have first: "wp (bnd (create_once (comment_notice k d u f now)) (\<lambda>_. ?m now [u, cf_actor f]))
      (\<lambda>_. tells (cf_comment f) {cf_actor f} v) (\<lambda>_ _. True) v" if "u \<noteq> cf_actor f" for k d u now and v :: "db world"
    by (rule wp_create_once_then [where u = u])
      (use that wp_mentions [of lo letter f now "[u, cf_actor f]"] in \<open>simp_all add: comment_notice_def\<close>)
  have bnd_ret: "bnd (ret x) k = k x" for x and k :: "nat list \<Rightarrow> unit op" by (simp add: fun_eq_iff bnd_def ret_def)
  have told: "wp (bnd (first_notice f now) (?m now)) (\<lambda>_. tells (cf_comment f) {cf_actor f} v) (\<lambda>_ _. True) v"
    for now and v :: "db world"
  proof (cases "cf_parent f = 0 \<and> cf_author f \<noteq> 0 \<and> cf_author f \<noteq> cf_actor f
      \<or> cf_parent f \<noteq> 0 \<and> cf_reply_to f \<noteq> 0 \<and> cf_reply_to f \<noteq> cf_actor f")
    case True
    then obtain k d u where u: "u \<noteq> cf_actor f"
      "first_notice f now = bnd (create_once (comment_notice k d u f now)) (\<lambda>_. ret [u, cf_actor f])"
      by (auto simp: first_notice_def)
    then show ?thesis using first [OF u(1), of k d now v] unfolding u(2) bnd_assoc bnd_ret by simp
  next
    case False
    then have "first_notice f now = ret [cf_actor f]" by (auto simp: first_notice_def)
    then show ?thesis using rest [of now v] by (simp only: bnd_ret)
  qed
  have "wp (apply_comment lo letter on f) (\<lambda>_. tells (cf_comment f) {cf_actor f} w) (\<lambda>_ _. True) w"
  proof (cases "\<not> on \<or> cf_comment f = 0 \<or> cf_actor f = 0")
    case False
    have "wp (bnd (first_notice f (clock w (ticks w))) (?m (clock w (ticks w))))
        (\<lambda>_. tells (cf_comment f) {cf_actor f} w) (\<lambda>_ _. True) (w\<lparr>ticks := Suc (ticks w)\<rparr>)"
      using told [of "clock w (ticks w)" "w\<lparr>ticks := Suc (ticks w)\<rparr>"] tells_cong [of "w\<lparr>ticks := Suc (ticks w)\<rparr>" w] by simp
    with False show ?thesis by (simp only: apply_comment_def if_False wp_bnd [where m = read_now] wp_basic)
  qed (simp add: apply_comment_def wp_basic tells_none)
  from wp_ok [OF this assms] show ?thesis by (auto simp: tells_def)
qed

section \<open>Example\<close>

text \<open>A comment on another's video that mentions its author and one more account.\<close>

definition demo_fanout :: comment_fanout where
  "demo_fanout = \<lparr>cf_comment = 5, cf_video = 1, cf_actor = 2, cf_author = 1, cf_parent = 0, cf_root = 0, cf_reply_to = 0,
     cf_content = lit ''hi @bob and @al''\<rparr>"

definition demo_accounts :: "db world" where
  "demo_accounts = quiet_world 0 (empty_db\<lparr>d_accounts :=
     [\<lparr>acc_id = 1, acc_username = lit ''al'', acc_followers = 0, acc_interests = []\<rparr>,
      \<lparr>acc_id = 3, acc_username = lit ''bob'', acc_followers = 0, acc_interests = []\<rparr>]\<rparr>)"

abbreviation demo_apply :: "unit op" where
  "demo_apply \<equiv> apply_comment (\<lambda>r. r) (\<lambda>r. 97 \<le> r \<and> r \<le> 122) True demo_fanout"

lemma demo_mentions: "parse_mentions (\<lambda>r. r) (\<lambda>r. 97 \<le> r \<and> r \<le> 122) (cf_content demo_fanout) = [lit ''bob'', lit ''al'']"
  by (simp add: demo_fanout_def parse_mentions_def mention_name_def to_lower_def trim_space_def is_space_def lit_def maxMentions_def)

theorem comment_notices_once_witness:
  "\<exists>w'. demo_apply demo_accounts = (Inr (), w') \<and> map nt_recipient (d_notifs (tabs w')) = [1, 3]
     \<and> distinct (map nt_recipient (d_notifs (tabs w')))"
proof -
  have lits: "lit ''al'' \<noteq> lit ''bob''" "lit ''bob'' \<noteq> lit ''al''" by (simp_all add: lit_def)
  have "\<exists>w'. demo_apply demo_accounts = (Inr (), w') \<and> map nt_recipient (d_notifs (tabs w')) = [1, 3]"
    unfolding apply_comment_def demo_mentions
    by (simp add: demo_fanout_def demo_accounts_def quiet_world_def empty_db_def first_notice_def create_once_def create_notice_def
        find_accounts_by_usernames_def account_for_def comment_notice_def blank_notice_def to_lower_def lits
        bnd_def ret_def read_now_def result_of_def query_def create_def next_stmt_def Let_def lit_def)
  then obtain w' where w': "demo_apply demo_accounts = (Inr (), w')" "map nt_recipient (d_notifs (tabs w')) = [1, 3]"
    by (elim exE conjE)
  obtain ns where "d_notifs (tabs w') = d_notifs (tabs demo_accounts) @ ns" "distinct (map nt_recipient ns)"
    using comment_notices_once [OF w'(1)] by (elim exE conjE)
  with w' show ?thesis by (simp add: demo_accounts_def quiet_world_def empty_db_def)
qed

end
