(* ===== verification/Comments.thy ===== *)
theory Comments
  imports Likes Mentions "HOL-Library.Product_Lexorder"
begin

text \<open>
  Comments: the tree a video's comments are listed as (\<open>internal/comment/entity.go\<close>), identifiers that
  a JavaScript client has rounded (\<open>id.go\<close>, \<open>repo.go\<close>), the service (\<open>service.go\<close>) and the
  consumer of comment events (\<open>internal/worker/comment_worker.go\<close>). With a publisher the service only
  sends an event and the consumer writes; \<open>cs_publisher\<close> is the broker, which tells whether it
  took the event. The JSON payload of \<open>comment.created\<close> is the row without its times.
\<close>

section \<open>The tree (entity.go)\<close>

datatype comment_item = CommentItem (ci_comment: comment) (ci_reply_count: nat) (ci_replies: "comment_item list")

definition new_comment_item :: "comment \<Rightarrow> comment_item" where
  "new_comment_item c = CommentItem c 0 []"

fun index_roots :: "nat \<Rightarrow> (nat \<Rightarrow> nat option) \<Rightarrow> comment list \<Rightarrow> nat \<Rightarrow> nat option" where
  "index_roots k m [] = m"
| "index_roots k m (r # rs) = index_roots (Suc k) (m(co_id r := Some k)) rs"

definition add_reply :: "comment \<Rightarrow> comment_item \<Rightarrow> comment_item" where
  "add_reply reply item = (let replies = ci_replies item @ [new_comment_item reply]
     in CommentItem (ci_comment item) (length replies) replies)"

fun attach_replies :: "(nat \<Rightarrow> nat option) \<Rightarrow> comment_item list \<Rightarrow> comment list \<Rightarrow> comment_item list" where
  "attach_replies idx items [] = items"
| "attach_replies idx items (r # rs) = (case idx (co_root r) of
      None \<Rightarrow> attach_replies idx items rs
    | Some k \<Rightarrow> attach_replies idx (items[k := add_reply r (items ! k)]) rs)"

definition build_comment_items :: "comment list \<Rightarrow> comment list \<Rightarrow> comment_item list" where
  "build_comment_items roots replies =
     attach_replies (index_roots 0 (\<lambda>_. None) roots) (map new_comment_item roots) replies"

section \<open>Identifiers (id.go)\<close>

definition maxJSSafeInteger :: nat where "maxJSSafeInteger = 9007199254740991"
definition commentIDLookupWindowJS :: nat where "commentIDLookupWindowJS = 1024"
definition maxUint64 :: nat where "maxUint64 = 18446744073709551615"

definition next_comment_id :: "nat op" where
  "next_comment_id = bnd read_now (\<lambda>now. raise_seq GeneratedComments (nat (now div 1000)))"

definition comment_id_lookup_range :: "nat \<Rightarrow> nat \<times> nat" where
  "comment_id_lookup_range i =
    (if i > commentIDLookupWindowJS then i - commentIDLookupWindowJS else 0,
     if i > maxUint64 - commentIDLookupWindowJS then maxUint64 else i + commentIDLookupWindowJS)"

definition uint64_distance :: "nat \<Rightarrow> nat \<Rightarrow> nat" where
  "uint64_distance a b = (if a > b then a - b else b - a)"

section \<open>Queries (repo.go)\<close>

definition comment_order :: "comment \<Rightarrow> int \<times> nat" where
  "comment_order c = (co_created c, co_id c)"

definition find_root_comments :: "nat \<Rightarrow> comment list op" where
  "find_root_comments vid = query (\<lambda>d. sort_key comment_order
     (filter (\<lambda>c. co_video c = vid \<and> co_root c = 0) (d_comments d)))"

definition find_replies :: "nat \<Rightarrow> nat list \<Rightarrow> comment list op" where
  "find_replies vid roots = (if roots = [] then ret [] else query (\<lambda>d. sort_key comment_order
     (filter (\<lambda>c. co_video c = vid \<and> co_root c \<in> set roots) (d_comments d))))"

definition find_comment :: "nat \<Rightarrow> comment option op" where
  "find_comment i = query (\<lambda>d. find (\<lambda>c. co_id c = i) (d_comments d))"

fun best_loop :: "nat \<Rightarrow> comment \<Rightarrow> nat \<Rightarrow> comment list \<Rightarrow> comment" where
  "best_loop i best best_distance [] = best"
| "best_loop i best best_distance (c # cs) = (let distance = uint64_distance (co_id c) i in
     if distance < best_distance then best_loop i c distance cs else best_loop i best best_distance cs)"

text \<open>\<open>base\<close> is the condition of the query the search starts from.\<close>

definition find_by_resolvable_id :: "(comment \<Rightarrow> bool) \<Rightarrow> nat \<Rightarrow> comment option op" where
  "find_by_resolvable_id base i =
     bnd (query (\<lambda>d. find (\<lambda>c. base c \<and> co_id c = i) (d_comments d))) (\<lambda>r. case r of
       Some c \<Rightarrow> ret (Some c)
     | None \<Rightarrow> if i \<le> maxJSSafeInteger then ret None else
         let (lower, upper) = comment_id_lookup_range i in
         bnd (query (\<lambda>d. sort_key co_id (filter (\<lambda>c. base c \<and> lower \<le> co_id c \<and> co_id c \<le> upper) (d_comments d)))) (\<lambda>cs.
         case cs of [] \<Rightarrow> ret None
         | c # rest \<Rightarrow> ret (Some (best_loop i c (uint64_distance (co_id c) i) rest))))"

definition under_comment :: "nat \<Rightarrow> comment \<Rightarrow> bool" where
  "under_comment i c \<longleftrightarrow> co_id c = i \<or> co_root c = i"

definition delete_by_id_or_root_id :: "nat \<Rightarrow> nat op" where
  "delete_by_id_or_root_id i = exec_count (\<lambda>d. length (filter (under_comment i) (d_comments d)))
     (\<lambda>d. d\<lparr>d_comments := filter (\<lambda>c. \<not> under_comment i c) (d_comments d)\<rparr>)"

section \<open>The service (service.go)\<close>

record comment_svc =
  cs_publisher :: "(envelope \<Rightarrow> bool) option"
  cs_popularity :: bool
  cs_detail :: bool
  cs_notify :: bool
  cs_recorder :: bool

definition CommentPublishWeight :: int where "CommentPublishWeight = 5"
definition CommentDeleteWeight :: int where "CommentDeleteWeight = - 5"

definition list_all_comments :: "nat \<Rightarrow> comment_item list op" where
  "list_all_comments vid = bnd (video_by_id vid) (\<lambda>v. fail_if (v = None) ErrVideoNotFound (
     bnd (find_root_comments vid) (\<lambda>roots. if roots = [] then ret [] else
     bnd (find_replies vid (map co_id roots)) (\<lambda>replies. ret (build_comment_items roots replies)))))"

definition fanout_of :: "comment \<Rightarrow> nat \<Rightarrow> comment_fanout" where
  "fanout_of c author = \<lparr>cf_comment = co_id c, cf_video = co_video c, cf_actor = co_author c, cf_author = author,
     cf_parent = co_parent c, cf_root = co_root c, cf_reply_to = co_reply_to c, cf_content = co_content c\<rparr>"

definition create_comment :: "comment \<Rightarrow> comment op" where
  "create_comment c = bnd read_now (\<lambda>now. let row = (\<lambda>i. c\<lparr>co_id := i, co_created := now, co_updated := now\<rparr>) in
     bnd (create VideoComments (\<lambda>i d. \<exists>x \<in> set (d_comments d). co_id x = i)
       (\<lambda>i d. d\<lparr>d_comments := d_comments d @ [row i]\<rparr>)) (\<lambda>i. ret (row i)))"

definition record_comment_interest :: "bool \<Rightarrow> nat \<Rightarrow> nat \<Rightarrow> unit op" where
  "record_comment_interest recorder acc vid = (if \<not> recorder \<or> acc = 0 \<or> vid = 0 then ret () else
     bnd (result_of (video_by_id vid)) (\<lambda>r. case r of
       Inr (Some v) \<Rightarrow> ignore (record_from_video acc (vid_tags v)) | _ \<Rightarrow> ret ()))"

definition publish_comment_tx :: "(rune \<Rightarrow> rune) \<Rightarrow> (rune \<Rightarrow> bool) \<Rightarrow> comment_svc \<Rightarrow> comment \<Rightarrow> nat \<Rightarrow> int \<Rightarrow> comment op" where
  "publish_comment_tx lo letter s c author pop = bnd (create_comment c) (\<lambda>row.
     bnd (apply_comment lo letter (cs_notify s) (fanout_of row author)) (\<lambda>_.
     bnd (adjust_counters (co_video c) 0 1 pop) (\<lambda>_. ret row)))"

definition publish_sync :: "(rune \<Rightarrow> rune) \<Rightarrow> (rune \<Rightarrow> bool) \<Rightarrow> comment_svc \<Rightarrow> comment \<Rightarrow> nat \<Rightarrow> comment op" where
  "publish_sync lo letter s c author = (let pop = (if cs_popularity s then 0 else CommentPublishWeight) in
     bnd (transaction (publish_comment_tx lo letter s c author pop)) (\<lambda>row.
     bnd (whenever (cs_popularity s) (bnd read_now (\<lambda>now. call (PopularityRecord (co_video c) CommentPublishWeight now)))) (\<lambda>_.
     bnd (invalidate_detail (cs_detail s) False (cs_publisher s \<noteq> None) (co_video c)) (\<lambda>_.
     bnd (record_comment_interest (cs_recorder s) (co_author c) (co_video c)) (\<lambda>_.
     ret row)))))"

text \<open>\<open>Publish\<close> with the broker's answer: the event that is sent, or the broker's error.\<close>

definition send_event :: "(envelope \<Rightarrow> bool) \<Rightarrow> gostr \<Rightarrow> payload \<Rightarrow> ext_call \<Rightarrow> unit op" where
  "send_event accepts ty p sent = bnd (new_envelope ty ProducerAPIServer p) (\<lambda>ev.
     if accepts ev then call sent else throw ErrPublish)"

definition reply_to :: "comment \<Rightarrow> comment \<Rightarrow> comment" where
  "reply_to parent c = c\<lparr>co_parent := co_id parent, co_reply_to := co_author parent, co_reply_name := co_username parent,
     co_root := (if co_root parent = 0 then co_id parent else co_root parent)\<rparr>"

definition find_parent :: "nat \<Rightarrow> nat \<Rightarrow> comment op" where
  "find_parent vid parent = bnd (find_comment parent) (\<lambda>exact.
     bnd (case exact of Some p \<Rightarrow> ret (Some p) | None \<Rightarrow> find_by_resolvable_id (\<lambda>c. co_video c = vid) parent) (\<lambda>found.
     case found of None \<Rightarrow> throw ErrInvalidParentComment
     | Some p \<Rightarrow> fail_if (co_video p \<noteq> vid) ErrParentCommentMismatch (ret p)))"

definition publish_comment :: "(rune \<Rightarrow> rune) \<Rightarrow> (rune \<Rightarrow> bool) \<Rightarrow> comment_svc \<Rightarrow> nat \<Rightarrow> gostr \<Rightarrow> nat \<Rightarrow> nat \<Rightarrow> gostr \<Rightarrow> comment op" where
  "publish_comment lo letter s acc username vid parent content = bnd (video_by_id vid) (\<lambda>r. case r of
      None \<Rightarrow> throw ErrVideoNotFound
    | Some v \<Rightarrow> fail_if (\<not> IsPubliclyListed v) ErrVideoNotFound (
        let base = \<lparr>co_id = 0, co_video = vid, co_root = 0, co_parent = 0, co_author = acc, co_username = username,
          co_reply_to = 0, co_reply_name = [], co_content = content, co_created = 0, co_updated = 0\<rparr> in
        bnd (if parent > 0 then bnd (find_parent vid parent) (\<lambda>p. ret (reply_to p base)) else ret base) (\<lambda>c.
        case cs_publisher s of
          None \<Rightarrow> publish_sync lo letter s c (vid_author v)
        | Some accepts \<Rightarrow> bnd next_comment_id (\<lambda>i. bnd read_now (\<lambda>now.
            let sent = c\<lparr>co_id := i, co_created := now, co_updated := now\<rparr> in
            bnd (send_event accepts EventTypeCommentCreated (CommentCreated (c\<lparr>co_id := i\<rparr>)) (PublishComment i)) (\<lambda>_.
            ret sent))))))"

definition delete_tx :: "comment_svc \<Rightarrow> nat \<Rightarrow> nat \<Rightarrow> nat op" where
  "delete_tx s i vid = bnd (delete_by_id_or_root_id i) (\<lambda>n. fail_if (n = 0) ErrCommentNotFound (
     bnd (hide_by_comment (cs_notify s) i) (\<lambda>_.
     bnd (adjust_counters vid 0 (- int n) (if cs_popularity s then 0 else CommentDeleteWeight * int n)) (\<lambda>_. ret n))))"

fun record_times :: "nat \<Rightarrow> nat \<Rightarrow> int \<Rightarrow> unit op" where
  "record_times 0 vid weight = ret ()"
| "record_times (Suc k) vid weight = bnd (bnd read_now (\<lambda>now. call (PopularityRecord vid weight now)))
     (\<lambda>_. record_times k vid weight)"

definition delete_sync :: "comment_svc \<Rightarrow> nat \<Rightarrow> nat \<Rightarrow> unit op" where
  "delete_sync s i vid = bnd (transaction (delete_tx s i vid)) (\<lambda>n.
     bnd (whenever (cs_popularity s) (record_times n vid CommentDeleteWeight)) (\<lambda>_.
     invalidate_detail (cs_detail s) False (cs_publisher s \<noteq> None) vid))"

definition delete_comment :: "comment_svc \<Rightarrow> nat \<Rightarrow> nat \<Rightarrow> unit op" where
  "delete_comment s acc i = bnd (find_comment i) (\<lambda>exact.
     bnd (case exact of Some c \<Rightarrow> ret (Some c) | None \<Rightarrow> find_by_resolvable_id (\<lambda>_. True) i) (\<lambda>found. case found of
       None \<Rightarrow> throw ErrCommentNotFound
     | Some c \<Rightarrow> bnd (video_by_id (co_video c)) (\<lambda>r. case r of
         None \<Rightarrow> throw ErrVideoNotFound
       | Some v \<Rightarrow> fail_if (co_author c \<noteq> acc \<and> vid_author v \<noteq> acc) ErrCommentForbidden (
           case cs_publisher s of
             None \<Rightarrow> delete_sync s (co_id c) (co_video c)
           | Some accepts \<Rightarrow> send_event accepts EventTypeCommentDeleted (CommentDeleted (co_id c) (co_video c) acc)
               (PublishCommentDeleted (co_id c) (co_video c))))))"

section \<open>The consumer (comment worker)\<close>

definition comment_worker :: gostr where "comment_worker = lit ''comment-worker''"

definition insert_comment :: "comment \<Rightarrow> unit op" where
  "insert_comment c = bnd read_now (\<lambda>now. create_at VideoComments (co_id c) (\<lambda>d. \<exists>x \<in> set (d_comments d). co_id x = co_id c)
     (\<lambda>d. d\<lparr>d_comments := d_comments d @ [c\<lparr>co_created := now, co_updated := now\<rparr>]\<rparr>))"

definition comment_created_tx :: "(rune \<Rightarrow> rune) \<Rightarrow> (rune \<Rightarrow> bool) \<Rightarrow> worker_env \<Rightarrow> envelope \<Rightarrow> comment \<Rightarrow> bool op" where
  "comment_created_tx lo letter e ev c = once comment_worker ev False (
     bnd (result_of (insert_comment c)) (\<lambda>res. case res of
       Inl err \<Rightarrow> if err = DbDuplicate then ret False else throw err
     | Inr _ \<Rightarrow> bnd (adjust_counters (co_video c) 0 1 0) (\<lambda>_. bnd (video_by_id (co_video c)) (\<lambda>v.
         bnd (apply_comment lo letter (we_notify e) (fanout_of c (case v of None \<Rightarrow> 0 | Some x \<Rightarrow> vid_author x))) (\<lambda>_.
         ret True)))))"

definition handle_comment_created :: "(rune \<Rightarrow> rune) \<Rightarrow> (rune \<Rightarrow> bool) \<Rightarrow> worker_env \<Rightarrow> envelope \<Rightarrow> unit op" where
  "handle_comment_created lo letter e ev = (case ev_payload ev of
      CommentCreated c \<Rightarrow> fail_if (co_id c = 0 \<or> co_video c = 0 \<or> co_author c = 0) ErrOther (
        bnd (transaction (comment_created_tx lo letter e ev c)) (\<lambda>emit. whenever emit (
          bnd (publish_popularity_changed (we_publisher e) (co_video c) CommentPublishWeight EventTypeCommentCreated) (\<lambda>_.
          bnd (invalidate_detail (we_detail e) False (we_publisher e) (co_video c)) (\<lambda>_.
          record_comment_interest (we_recorder e) (co_author c) (co_video c))))))
    | _ \<Rightarrow> throw ErrOther)"

definition comment_deleted_tx :: "worker_env \<Rightarrow> envelope \<Rightarrow> nat \<Rightarrow> nat \<Rightarrow> nat op" where
  "comment_deleted_tx e ev i vid = once comment_worker ev 0 (
     bnd (delete_by_id_or_root_id i) (\<lambda>n. if n = 0 then ret 0 else
     bnd (hide_by_comment (we_notify e) i) (\<lambda>_. bnd (adjust_counters vid 0 (- int n) 0) (\<lambda>_. ret n))))"

definition handle_comment_deleted :: "worker_env \<Rightarrow> envelope \<Rightarrow> unit op" where
  "handle_comment_deleted e ev = (case ev_payload ev of
      CommentDeleted i vid operator \<Rightarrow> fail_if (i = 0 \<or> vid = 0) ErrOther (
        bnd (transaction (comment_deleted_tx e ev i vid)) (\<lambda>n. whenever (0 < n) (
          bnd (publish_popularity_changed (we_publisher e) vid (CommentDeleteWeight * int n) EventTypeCommentDeleted) (\<lambda>_.
          invalidate_detail (we_detail e) False (we_publisher e) vid))))
    | _ \<Rightarrow> throw ErrOther)"

definition handle_comment :: "(rune \<Rightarrow> rune) \<Rightarrow> (rune \<Rightarrow> bool) \<Rightarrow> worker_env \<Rightarrow> envelope \<Rightarrow> unit op" where
  "handle_comment lo letter e ev = (if ev_type ev = EventTypeCommentCreated then handle_comment_created lo letter e ev
     else if ev_type ev = EventTypeCommentDeleted then handle_comment_deleted e ev else throw ErrOther)"

end
