(* ===== verification/Engagement.thy ===== *)
theory Engagement
  imports Comments Progress
begin

text \<open>
  The counters of a video agree with the rows they count. \<open>counter\<close> is the contract between a table
  whose rows belong to videos and the column that counts them; likes and comments are its two
  instances, both adjusted by \<open>AdjustCounters\<close>.
\<close>

section \<open>Counting rows\<close>

definition tally :: "('r \<Rightarrow> nat) \<Rightarrow> 'r list \<Rightarrow> nat \<Rightarrow> int" where
  "tally key rows i = int (length (filter (\<lambda>r. key r = i) rows))"

lemma tally_simps [simp]: "tally key [] i = 0" "tally key (rows @ [r]) i = tally key rows i + (if key r = i then 1 else 0)"
  "0 \<le> tally key rows i"
  by (simp_all add: tally_def)

lemma tally_remove:
  "\<forall>r \<in> set rows. P r \<longrightarrow> key r = i \<Longrightarrow>
   tally key (filter (\<lambda>r. \<not> P r) rows) j = tally key rows j - (if i = j then int (length (filter P rows)) else 0)"
  by (induction rows) (auto simp: tally_def)

lemma length_filter_imp: "(\<And>x. x \<in> set xs \<Longrightarrow> P x \<Longrightarrow> Q x) \<Longrightarrow> length (filter P xs) \<le> length (filter Q xs)"
proof (induction xs)
  case (Cons x xs)
  then have "length (filter P xs) \<le> length (filter Q xs)" by simp
  with Cons.prems [of x] show ?case by auto
qed simp

lemma tally_zero: "\<forall>r \<in> set rows. key r \<noteq> i \<Longrightarrow> tally key rows i = 0"
  by (auto simp: tally_def filter_empty_conv)

lemma tally_add_clamped: "0 \<le> x + delta \<Longrightarrow> add_clamped x delta = x + delta"
  by (simp add: add_clamped_def)

locale counter =
  fixes key :: "'r \<Rightarrow> nat" and get :: "video \<Rightarrow> int" and adj :: "int \<Rightarrow> int \<Rightarrow> video \<Rightarrow> video"
  assumes adj_get: "0 \<le> get v \<Longrightarrow> get (adj delta pop v) = add_clamped (get v) delta"
    and adj_id: "vid_id (adj delta pop v) = vid_id v"
begin

definition counted :: "'r list \<Rightarrow> video list \<Rightarrow> bool" where
  "counted rows vs \<longleftrightarrow> (\<forall>v \<in> set vs. get v = tally key rows (vid_id v))"

lemma counted_get: "counted rows vs \<Longrightarrow> v \<in> set vs \<Longrightarrow> get v = tally key rows (vid_id v)"
  by (simp add: counted_def)

lemma counted_add:
  "counted rows vs \<Longrightarrow> counted (rows @ [r]) (update_where (\<lambda>v. vid_id v = key r) (adj 1 pop) vs)"
  by (auto simp: counted_def set_update_where adj_get adj_id tally_add_clamped)

lemma counted_remove:
  assumes "counted rows vs" "\<forall>r \<in> set rows. P r \<longrightarrow> key r = i"
  shows "counted (filter (\<lambda>r. \<not> P r) rows) (update_where (\<lambda>v. vid_id v = i) (adj (- int (length (filter P rows))) pop) vs)"
proof -
  have "int (length (filter P rows)) \<le> tally key rows i"
    unfolding tally_def using assms(2) by (intro of_nat_mono length_filter_imp) blast
  then have "get (adj (- int (length (filter P rows))) pop v) = tally key rows i - int (length (filter P rows))"
    if "v \<in> set vs" "vid_id v = i" for v
    using counted_get [OF assms(1) that(1)] that(2) by (simp add: adj_get tally_add_clamped)
  note hit = this
  show ?thesis
    unfolding counted_def tally_remove [OF assms(2)]
  proof
    fix u assume "u \<in> set (update_where (\<lambda>v. vid_id v = i) (adj (- int (length (filter P rows))) pop) vs)"
    then obtain v where v: "v \<in> set vs" "u = (if vid_id v = i then adj (- int (length (filter P rows))) pop v else v)"
      unfolding set_update_where by blast
    show "get u = tally key rows (vid_id u) - (if i = vid_id u then int (length (filter P rows)) else 0)"
    proof (cases "vid_id v = i")
      case True
      with v(2) hit [OF v(1) True] show ?thesis by (simp add: adj_id)
    next
      case False
      with v(2) counted_get [OF assms(1) v(1)] show ?thesis by (simp add: adj_id)
    qed
  qed
qed

lemma counted_cong:
  "map (\<lambda>v. (vid_id v, get v)) vs' = map (\<lambda>v. (vid_id v, get v)) vs \<Longrightarrow> counted rows vs' = counted rows vs"
proof -
  assume "map (\<lambda>v. (vid_id v, get v)) vs' = map (\<lambda>v. (vid_id v, get v)) vs"
  then have "(\<lambda>v. (vid_id v, get v)) ` set vs' = (\<lambda>v. (vid_id v, get v)) ` set vs" by (metis set_map)
  then have "(\<forall>p \<in> (\<lambda>v. (vid_id v, get v)) ` set vs'. snd p = tally key rows (fst p))
      = (\<forall>p \<in> (\<lambda>v. (vid_id v, get v)) ` set vs. snd p = tally key rows (fst p))" by simp
  then show ?thesis by (simp add: counted_def)
qed

lemma counted_new:
  "counted rows vs \<Longrightarrow> get v = 0 \<Longrightarrow> \<forall>r \<in> set rows. key r \<noteq> vid_id v \<Longrightarrow> counted rows (vs @ [v])"
  by (simp add: counted_def tally_zero)

end

lemma adjust_video_sel [simp]:
  "vid_id (adjust_video a b c v) = vid_id v"
  "vid_likes (adjust_video 0 b c v) = vid_likes v" "vid_comments (adjust_video a 0 c v) = vid_comments v"
  by (simp_all add: adjust_video_def)

lemma adjust_video_counters:
  "0 \<le> vid_likes v \<Longrightarrow> vid_likes (adjust_video a b c v) = add_clamped (vid_likes v) a"
  "0 \<le> vid_comments v \<Longrightarrow> vid_comments (adjust_video a b c v) = add_clamped (vid_comments v) b"
  by (simp_all add: adjust_video_def add_clamped_def)

interpretation likes: counter vl_video vid_likes "\<lambda>delta. adjust_video delta 0"
  by unfold_locales (simp_all add: adjust_video_counters)

interpretation comments: counter co_video vid_comments "adjust_video 0"
  by unfold_locales (simp_all add: adjust_video_counters)

section \<open>The invariant\<close>

type_synonym talk = "video_like list \<times> comment list \<times> video list"

abbreviation talk_of :: "db \<Rightarrow> talk" where
  "talk_of d \<equiv> (d_likes d, d_comments d, d_videos d)"

definition like_pair :: "video_like \<Rightarrow> nat \<times> nat" where
  "like_pair l = (vl_video l, vl_account l)"

definition thread_of :: "comment \<Rightarrow> nat" where
  "thread_of c = (if co_root c = 0 then co_id c else co_root c)"

text \<open>A thread stays at one video, and what a reply names as its root is not a reply itself.\<close>

definition threads_ok :: "comment list \<Rightarrow> bool" where
  "threads_ok cs \<longleftrightarrow> (\<forall>x \<in> set cs. \<forall>y \<in> set cs. thread_of x = thread_of y \<longrightarrow> co_video x = co_video y)
     \<and> (\<forall>x \<in> set cs. \<forall>y \<in> set cs. co_root x = co_id y \<longrightarrow> co_root y = 0)"

text \<open>A comment that joins the table agrees with the threads that are there.\<close>

definition fits :: "comment list \<Rightarrow> comment \<Rightarrow> bool" where
  "fits cs c \<longleftrightarrow> (\<forall>x \<in> set cs. thread_of x = thread_of c \<longrightarrow> co_video x = co_video c)
     \<and> (\<forall>x \<in> set cs. co_root x = co_id c \<longrightarrow> co_root c = 0)
     \<and> (\<forall>y \<in> set cs. co_root c = co_id y \<longrightarrow> co_root y = 0) \<and> co_root c \<noteq> co_id c"

lemma threads_ok_filter: "threads_ok cs \<Longrightarrow> threads_ok (filter P cs)"
  unfolding threads_ok_def set_filter by blast

lemma threads_ok_snoc:
  assumes "threads_ok cs" "fits cs c"
  shows "threads_ok (cs @ [c])"
proof -
  have "co_video x = co_video y" if xy: "x \<in> set (cs @ [c])" "y \<in> set (cs @ [c])" "thread_of x = thread_of y" for x y
  proof -
    consider "x \<in> set cs" "y \<in> set cs" | "x = c" "y \<in> set cs" | "x \<in> set cs" "y = c" | "x = c" "y = c" using xy(1,2) by force
    then show ?thesis using assms xy(3) unfolding threads_ok_def fits_def by cases metis+
  qed
  moreover have "co_root y = 0" if xy: "x \<in> set (cs @ [c])" "y \<in> set (cs @ [c])" "co_root x = co_id y" for x y
  proof -
    consider "x \<in> set cs" "y \<in> set cs" | "x = c" "y \<in> set cs" | "x \<in> set cs" "y = c" | "x = c" "y = c" using xy(1,2) by force
    then show ?thesis using assms xy(3) unfolding threads_ok_def fits_def by cases metis+
  qed
  ultimately show ?thesis unfolding threads_ok_def by blast
qed

definition videos_ok :: "(table \<Rightarrow> nat) \<Rightarrow> video list \<Rightarrow> bool" where
  "videos_ok q vs \<longleftrightarrow> distinct (map vid_id vs) \<and> (\<forall>v \<in> set vs. vid_id v \<le> q Videos)"

definition likes_ok :: "video_like list \<Rightarrow> video list \<Rightarrow> bool" where
  "likes_ok ls vs \<longleftrightarrow> distinct (map like_pair ls) \<and> likes.counted ls vs \<and> vl_video ` set ls \<subseteq> vid_id ` set vs"

definition comments_ok :: "(table \<Rightarrow> nat) \<Rightarrow> comment list \<Rightarrow> video list \<Rightarrow> bool" where
  "comments_ok q cs vs \<longleftrightarrow> distinct (map co_id cs) \<and> comments.counted cs vs \<and> co_video ` set cs \<subseteq> vid_id ` set vs
     \<and> (\<forall>c \<in> set cs. 0 < co_id c \<and> co_id c \<le> q VideoComments \<and> co_root c \<le> q VideoComments) \<and> threads_ok cs"

fun talk_ok :: "(table \<Rightarrow> nat) \<Rightarrow> talk \<Rightarrow> bool" where
  "talk_ok q (ls, cs, vs) \<longleftrightarrow> videos_ok q vs \<and> likes_ok ls vs \<and> comments_ok q cs vs"

fun talk_step :: "talk \<Rightarrow> talk \<Rightarrow> bool" where
  "talk_step (ls, cs, vs) (ls', cs', vs') \<longleftrightarrow> vid_id ` set vs \<subseteq> vid_id ` set vs'"

lemma talk_ok_mono: "talk_ok q t \<Longrightarrow> \<forall>s. q s \<le> q' s \<Longrightarrow> talk_ok q' t"
  by (cases t) (fastforce simp: videos_ok_def comments_ok_def intro: order_trans)

interpretation talk: table_inv talk_of talk_ok talk_step
proof
  show "talk_ok q x \<Longrightarrow> \<forall>t. q t \<le> q' t \<Longrightarrow> talk_ok q' x" for q q' x by (rule talk_ok_mono)
  show "talk_step x x" for x by (cases x) simp
  show "talk_step x y \<Longrightarrow> talk_step y z \<Longrightarrow> talk_step x z" for x y z by (cases x; cases y; cases z) auto
qed

abbreviation keeps_talk :: "db world \<Rightarrow> db world \<Rightarrow> bool" where
  "keeps_talk \<equiv> keeps talk_of talk_ok talk_step"

abbreviation talking :: "db world \<Rightarrow> bool" where
  "talking w \<equiv> talk_ok (seqs w) (talk_of (tabs w))"

lemmas talk_rules = talk.kept.steps_env talk.kept.steps_bnd talk.kept.steps_result_of talk.kept.steps_ignore
  talk.kept.steps_if talk.kept.steps_option talk.kept.steps_sum talk.kept.steps_prod

section \<open>One change of the tables\<close>

lemma image_update_videos [simp]: "vid_id ` set (update_where p (adjust_video a b c) vs) = vid_id ` set vs"
  "map vid_id (update_where p (adjust_video a b c) vs) = map vid_id vs"
proof -
  show "map vid_id (update_where p (adjust_video a b c) vs) = map vid_id vs" by (rule map_update_where) simp
  then show "vid_id ` set (update_where p (adjust_video a b c) vs) = vid_id ` set vs" by (metis set_map)
qed

lemma counted_other:
  "comments.counted cs (update_where p (adjust_video a 0 c) vs) = comments.counted cs vs"
  "likes.counted ls (update_where p (adjust_video 0 b c) vs) = likes.counted ls vs"
  by (rule comments.counted_cong likes.counted_cong, rule map_update_where, simp)+

lemma videos_ok_adjust [simp]: "videos_ok q (update_where p (adjust_video a b c) vs) = videos_ok q vs"
proof -
  have "videos_ok q us \<longleftrightarrow> distinct (map vid_id us) \<and> (\<forall>i \<in> vid_id ` set us. i \<le> q Videos)" for us
    by (simp add: videos_ok_def)
  then show ?thesis by (simp only: image_update_videos)
qed

lemma talk_ok_like:
  assumes "talk_ok q (ls, cs, vs)" "like_pair l \<notin> like_pair ` set ls" "vl_video l \<in> vid_id ` set vs"
  shows "talk_ok q (ls @ [l], cs, update_where (\<lambda>v. vid_id v = vl_video l) (adjust_video 1 0 pop) vs)"
  using assms likes.counted_add [of ls vs l pop]
  by (auto simp: likes_ok_def comments_ok_def counted_other)

lemma talk_ok_unlike:
  assumes "talk_ok q (ls, cs, vs)" "length (filter (like_row vid acc) ls) \<noteq> 0"
  shows "talk_ok q (filter (\<lambda>l. \<not> like_row vid acc l) ls, cs, update_where (\<lambda>v. vid_id v = vid) (adjust_video (- 1) 0 pop) vs)"
proof -
  have "distinct (map like_pair ls)" using assms(1) by (simp add: likes_ok_def)
  then have "length (filter (like_row vid acc) ls) \<le> 1"
    by (induction ls) (auto simp: like_row_def like_pair_def filter_empty_conv image_iff)
  with assms(2) have one: "length (filter (like_row vid acc) ls) = 1" by linarith
  have "distinct (map like_pair (filter (\<lambda>l. \<not> like_row vid acc l) ls))"
    using assms(1) by (simp add: likes_ok_def distinct_map_filter)
  then show ?thesis
    using assms(1) likes.counted_remove [of ls vs "like_row vid acc" vid pop] one
    by (auto simp: likes_ok_def comments_ok_def counted_other like_row_def)
qed

lemma talk_ok_comment:
  assumes "talk_ok q (ls, cs, vs)" "\<forall>s. q s \<le> q' s" "co_video c \<in> vid_id ` set vs"
    "\<forall>x \<in> set cs. co_id x \<noteq> co_id c" "0 < co_id c" "co_id c \<le> q' VideoComments" "co_root c \<le> q' VideoComments"
    "fits cs c"
  shows "talk_ok q' (ls, cs @ [c], update_where (\<lambda>v. vid_id v = co_video c) (adjust_video 0 1 pop) vs)"
proof -
  have ok: "videos_ok q' vs" "likes_ok ls vs" "comments_ok q' cs vs"
    using talk_ok_mono [OF assms(1,2)] by simp_all
  have "distinct (map co_id (cs @ [c]))" using ok(3) assms(4) by (auto simp: comments_ok_def)
  moreover have "threads_ok (cs @ [c])" using ok(3) assms(8) by (simp add: comments_ok_def threads_ok_snoc)
  moreover have "comments.counted (cs @ [c]) (update_where (\<lambda>v. vid_id v = co_video c) (adjust_video 0 1 pop) vs)"
    using ok(3) by (intro comments.counted_add) (simp add: comments_ok_def)
  ultimately show ?thesis
    using ok assms(3,5,6,7) by (simp add: likes_ok_def comments_ok_def counted_other)
qed

lemma talk_ok_uncomment:
  assumes "talk_ok q (ls, cs, vs)" "\<forall>c \<in> set cs. under_comment i c \<longrightarrow> co_video c = vid"
  shows "talk_ok q (ls, filter (\<lambda>c. \<not> under_comment i c) cs,
    update_where (\<lambda>v. vid_id v = vid) (adjust_video 0 (- int (length (filter (under_comment i) cs))) pop) vs)"
proof -
  have "distinct (map co_id (filter (\<lambda>c. \<not> under_comment i c) cs))" "threads_ok (filter (\<lambda>c. \<not> under_comment i c) cs)"
    using assms(1) by (simp_all add: comments_ok_def distinct_map_filter threads_ok_filter)
  then show ?thesis
    using assms comments.counted_remove [OF _ assms(2), of vs pop]
    by (auto simp: likes_ok_def comments_ok_def counted_other)
qed

declare talk_ok.simps [simp del] talk_step.simps [simp del]

lemma talk_step_refl [simp]: "talk_step t t"
  by (rule talk.refl)

section \<open>Likes\<close>

abbreviation advances :: "db world \<Rightarrow> db world \<Rightarrow> bool" where
  "advances \<equiv> reached talk_of talk_ok talk_step"

lemmas advances_def = reached_def [of talk_of talk_ok talk_step]
lemmas advances_refl = talk.reached_refl
lemmas advances_env = talk.reached_env

lemma wp_add_like:
  assumes "advances u w" "vid \<in> vid_id ` set (d_videos (tabs w))"
  shows "wp (result_of (create_like vid acc)) (\<lambda>res v. case res of Inl _ \<Rightarrow> advances u v
    | Inr _ \<Rightarrow> wp (adjust_counters vid 1 0 pop) (\<lambda>_. advances u) (\<lambda>_ _. True) v) (\<lambda>_ _. True) w"
proof -
  let ?l = "\<lambda>i now. \<lparr>vl_id = i, vl_video = vid, vl_account = acc, vl_created = now\<rparr>"
  have w: "talking w" "talk_step (talk_of (tabs u)) (talk_of (tabs w))" using assms(1) by (simp_all add: advances_def)
  have "talk_ok ((seqs w)(VideoLikes := i)) (d_likes (tabs w) @ [?l i now], d_comments (tabs w),
      update_where (\<lambda>v. vid_id v = vid) (adjust_video 1 0 pop) (d_videos (tabs w)))"
    if "\<forall>l \<in> set (d_likes (tabs w)). \<not> like_row vid acc l" "seqs w VideoLikes \<le> i" for i now
  proof -
    have "talk_ok ((seqs w)(VideoLikes := i)) (talk_of (tabs w))" using that(2) by (intro talk_ok_mono [OF w(1)]) simp
    moreover have "like_pair (?l i now) \<notin> like_pair ` set (d_likes (tabs w))"
      using that(1) by (auto simp: like_pair_def like_row_def)
    ultimately show ?thesis using talk_ok_like [of _ _ _ _ "?l i now" pop] assms(2) by simp
  qed
  moreover have "talk_ok ((seqs w)(VideoLikes := Suc (seqs w VideoLikes))) (talk_of (tabs w))"
    by (rule talk_ok_mono [OF w(1)]) simp
  ultimately show ?thesis
    using w by (simp add: create_like_def adjust_counters_def wp_rules Let_def advances_def talk_step.simps)
qed

lemma wp_remove_like:
  assumes "advances u w"
  shows "wp (delete_like vid acc) (\<lambda>n v. if n = 0 then advances u v
    else wp (adjust_counters vid (- 1) 0 pop) (\<lambda>_. advances u) (\<lambda>_ _. True) v) (\<lambda>_ _. True) w"
proof -
  have w: "talking w" "talk_step (talk_of (tabs u)) (talk_of (tabs w))" using assms by (simp_all add: advances_def)
  have "d_likes (tabs w) = filter (\<lambda>l. \<not> like_row vid acc l) (d_likes (tabs w))"
    if "filter (like_row vid acc) (d_likes (tabs w)) = []"
    using that by (metis filter_True filter_empty_conv)
  then show ?thesis
    using talk_ok_unlike [OF w(1), of vid acc pop] w
    by (auto simp: delete_like_def adjust_counters_def wp_rules advances_def talk_step.simps)
qed

lemma frame_popularity_event [rel_rules]:
  "(\<And>d x. g (d\<lparr>d_outbox := x\<rparr>) = g d) \<Longrightarrow> steps (frame g) (popularity_event vid delta reason)"
  unfolding popularity_event_def by (intro rel_rules) simp_all

lemma frame_after [rel_rules]:
  "steps (frame g) (invalidate_detail a b c vid)" "steps (frame g) (publish_popularity_changed p vid delta reason)"
  "steps (frame g) (record_popularity s vid weight)" "steps (frame g) (after_like e vid delta reason emit)"
  unfolding invalidate_detail_def publish_popularity_changed_def record_popularity_def after_like_def
  by (intro rel_rules)+

lemma frame_record_interest [rel_rules]:
  "(\<And>d x. g (d\<lparr>d_accounts := x\<rparr>) = g d) \<Longrightarrow> steps (frame g) (record_interest r acc v)"
  unfolding record_interest_def by (intro rel_rules)

lemma frame_like_queries [rel_rules]: "steps (frame g) (find_like vid acc)"
  unfolding find_like_def by (intro rel_rules)

lemma frame_mark_processed [rel_rules]:
  "(\<And>d x. g (d\<lparr>d_processed := x\<rparr>) = g d) \<Longrightarrow> steps (frame g) (mark_processed c ev)"
  unfolding mark_processed_def by (intro rel_rules) simp_all

lemma grows_like_rows [rel_rules]: "steps grows (create_like vid acc)" "steps grows (delete_like vid acc)"
  unfolding create_like_def delete_like_def by (intro rel_rules; simp)+

lemma wp_mark_processed: "advances u w \<Longrightarrow> wp (result_of (mark_processed c ev)) (\<lambda>_. advances u) (\<lambda>_ _. True) w"
  by (rule talk.wp_rest) (intro rel_rules; simp)

lemma wp_once:
  assumes "advances u w" "\<And>v. advances u v \<Longrightarrow> wp m (\<lambda>_. advances u) (\<lambda>_ _. True) v"
  shows "wp (once c ev nothing m) (\<lambda>_. advances u) (\<lambda>_ _. True) w"
  unfolding once_def
  by (rule wp_and_then [OF wp_mark_processed [OF assms(1)]]) (use assms(2) in \<open>auto simp: wp_basic split: sum.split\<close>)

lemma wp_adjust_then:
  assumes "wp (adjust_counters vid a b pop) (\<lambda>_. advances u) (\<lambda>_ _. True) w" "steps (frame talk_of) m"
  shows "wp (bnd (adjust_counters vid a b pop) (\<lambda>_. m)) (\<lambda>_. advances u) (\<lambda>_ _. True) w"
  by (rule wp_and_then [OF assms(1)]) (rule talk.wp_rest [OF assms(2)])

lemma wp_like_tx:
  assumes "talking w" "vid \<in> vid_id ` set (d_videos (tabs w))"
  shows "wp (like_tx s acc vid author pop) (\<lambda>_. advances w) (\<lambda>_ _. True) w"
  unfolding like_tx_def
proof (rule wp_and_then)
  show "wp (find_like vid acc) (\<lambda>_ v. advances w v \<and> d_videos (tabs v) = d_videos (tabs w)) (\<lambda>_ _. True) w"
    using advances_env [OF advances_refl [OF assms(1)]] by (simp add: find_like_def wp_rules)
  fix existing and v :: "db world" assume v: "advances w v \<and> d_videos (tabs v) = d_videos (tabs w)"
  let ?rest = "bnd (apply_like (ls_notify s) acc vid author) (\<lambda>_. whenever (ls_publisher s) (popularity_event vid LikeWeight EventTypeLikeCreated))"
  have rest: "steps (frame talk_of) ?rest" by (intro rel_rules) simp_all
  have "wp (bnd (result_of (create_like vid acc)) (\<lambda>res. case res of
        Inl e \<Rightarrow> throw (if e = DbDuplicate then ErrAlreadyLiked else e)
      | Inr _ \<Rightarrow> bnd (adjust_counters vid 1 0 pop) (\<lambda>_. ?rest))) (\<lambda>_. advances w) (\<lambda>_ _. True) v"
  proof (rule wp_and_then [OF wp_add_like [of w v vid acc pop]])
    fix res :: "err + unit" and x :: "db world"
    assume x: "case res of Inl _ \<Rightarrow> advances w x | Inr _ \<Rightarrow> wp (adjust_counters vid 1 0 pop) (\<lambda>_. advances w) (\<lambda>_ _. True) x"
    show "wp (case res of Inl e \<Rightarrow> throw (if e = DbDuplicate then ErrAlreadyLiked else e)
      | Inr _ \<Rightarrow> bnd (adjust_counters vid 1 0 pop) (\<lambda>_. ?rest)) (\<lambda>_. advances w) (\<lambda>_ _. True) x"
    proof (cases res)
      case (Inr _)
      show ?thesis unfolding Inr sum.case by (rule wp_adjust_then [OF _ rest]) (use x Inr in simp)
    qed (simp add: wp_basic)
  qed (use v assms(2) in simp_all)
  then show "wp (fail_if (existing \<noteq> None) ErrAlreadyLiked (bnd (result_of (create_like vid acc)) (\<lambda>res. case res of
        Inl e \<Rightarrow> throw (if e = DbDuplicate then ErrAlreadyLiked else e)
      | Inr _ \<Rightarrow> bnd (adjust_counters vid 1 0 pop) (\<lambda>_. ?rest)))) (\<lambda>_. advances w) (\<lambda>_ _. True) v"
    by (simp add: wp_basic)
qed

lemma wp_unlike_tx:
  assumes "talking w"
  shows "wp (unlike_tx s acc vid author pop) (\<lambda>_. advances w) (\<lambda>_ _. True) w"
  unfolding unlike_tx_def
proof (rule wp_and_then [OF wp_remove_like [OF advances_refl [OF assms], of vid acc pop]])
  let ?rest = "bnd (retract_like (ls_notify s) acc vid author) (\<lambda>_. whenever (ls_publisher s) (popularity_event vid UnlikeWeight EventTypeLikeDeleted))"
  have rest: "steps (frame talk_of) ?rest" by (intro rel_rules) simp_all
  fix n :: nat and v assume "if n = 0 then advances w v else wp (adjust_counters vid (- 1) 0 pop) (\<lambda>_. advances w) (\<lambda>_ _. True) v"
  then show "wp (fail_if (n = 0) ErrLikeNotFound (bnd (adjust_counters vid (- 1) 0 pop) (\<lambda>_. ?rest)))
      (\<lambda>_. advances w) (\<lambda>_ _. True) v"
    by (cases "n = 0") (simp_all only: if_True if_False refl wp_basic wp_adjust_then [OF _ rest])
qed

lemma wp_liked_tx:
  assumes "talking w" "vid \<in> vid_id ` set (d_videos (tabs w))"
  shows "wp (liked_tx ev acc vid) (\<lambda>_. advances w) (\<lambda>_ _. True) w"
  unfolding liked_tx_def
proof (rule wp_once [OF advances_refl [OF assms(1)]])
  fix v :: "db world" assume v: "advances w v"
  then have "vid \<in> vid_id ` set (d_videos (tabs v))" using assms(2) by (auto simp: advances_def talk_step.simps)
  then show "wp (bnd (result_of (create_like vid acc)) (\<lambda>res. case res of
        Inl e \<Rightarrow> if e = DbDuplicate then ret False else throw e
      | Inr _ \<Rightarrow> bnd (adjust_counters vid 1 0 0) (\<lambda>_. ret True))) (\<lambda>_. advances w) (\<lambda>_ _. True) v"
    by (intro wp_and_then [OF wp_add_like [OF v, of vid acc 0]])
      (auto simp: wp_basic split: sum.splits intro!: wp_adjust_then framed.steps_env)
qed

lemma wp_unliked_tx:
  assumes "talking w"
  shows "wp (unliked_tx ev acc vid) (\<lambda>_. advances w) (\<lambda>_ _. True) w"
  unfolding unliked_tx_def
proof (rule wp_once [OF advances_refl [OF assms]])
  fix v :: "db world" assume v: "advances w v"
  show "wp (bnd (delete_like vid acc) (\<lambda>n. if n = 0 then ret False else bnd (adjust_counters vid (- 1) 0 0) (\<lambda>_. ret True)))
      (\<lambda>_. advances w) (\<lambda>_ _. True) v"
    by (rule wp_and_then [OF wp_remove_like [OF v, of vid acc 0]])
      (auto simp: wp_basic split: if_splits intro!: wp_adjust_then framed.steps_env)
qed

section \<open>Comments\<close>

text \<open>A state in which only the adjustment of the counters is missing.\<close>

definition ready :: "db world \<Rightarrow> nat \<Rightarrow> int \<Rightarrow> int \<Rightarrow> int \<Rightarrow> db world \<Rightarrow> bool" where
  "ready u vid a b pop w \<longleftrightarrow> talk_step (talk_of (tabs u)) (talk_of (tabs w))
     \<and> talk_ok (seqs w) (d_likes (tabs w), d_comments (tabs w), update_where (\<lambda>v. vid_id v = vid) (adjust_video a b pop) (d_videos (tabs w)))"

lemma wp_ready: "ready u vid a b pop w \<Longrightarrow> b \<noteq> 0 \<Longrightarrow> wp (adjust_counters vid a b pop) (\<lambda>_. advances u) (\<lambda>_ _. True) w"
  by (simp add: adjust_counters_def wp_rules advances_def ready_def talk_step.simps)

lemma wp_ready_frame:
  assumes "steps (frame talk_of) m" "ready u vid a b pop w"
  shows "wp m (\<lambda>_. ready u vid a b pop) (\<lambda>_ _. True) w"
proof (rule wpI)
  fix x w' assume m: "m w = (Inr x, w')"
  have "talk_of (tabs w') = talk_of (tabs w)" "\<forall>t. seqs w t \<le> seqs w' t"
    using stepsD [OF assms(1) m] steps_seqsD [OF assms(1) m] by simp_all
  then show "ready u vid a b pop w'" using assms(2) talk_ok_mono by (auto simp: ready_def)
qed simp

lemma fits_fresh:
  assumes "comments_ok q cs vs" "q VideoComments < co_id c" "co_root c = 0"
  shows "fits cs c"
  using assms unfolding comments_ok_def fits_def thread_of_def by (auto split: if_splits)

lemma fits_reply:
  assumes "comments_ok q cs vs" "q VideoComments < co_id c" "p \<in> set cs" "co_root c = thread_of p" "co_video c = co_video p"
  shows "fits cs c"
proof -
  have b: "\<forall>x \<in> set cs. 0 < co_id x \<and> co_id x \<le> q VideoComments \<and> co_root x \<le> q VideoComments" "threads_ok cs"
    using assms(1) by (simp_all add: comments_ok_def)
  have r: "0 < thread_of p" "thread_of p \<le> q VideoComments" using b(1) assms(3) by (auto simp: thread_of_def)
  then have t: "thread_of c = thread_of p" using assms(4) by (simp add: thread_of_def [of c])
  have "co_video x = co_video c" if "x \<in> set cs" "thread_of x = thread_of c" for x
    using b(2) assms(3,5) that t unfolding threads_ok_def by metis
  moreover have "co_root x \<noteq> co_id c" if "x \<in> set cs" for x using b(1) that assms(2) by fastforce
  moreover have "co_root y = 0" if "y \<in> set cs" "co_root c = co_id y" for y
  proof (cases "co_root p = 0")
    case True
    then have "co_id y = co_id p" using that(2) assms(4) by (simp add: thread_of_def)
    then have "y = p" using assms(1,3) that(1) distinct_map_inj_eq [of co_id cs] by (auto simp: comments_ok_def)
    with True show ?thesis by simp
  next
    case False
    then have "co_root p = co_id y" using that(2) assms(4) by (simp add: thread_of_def)
    then show ?thesis using b(2) assms(3) that(1) unfolding threads_ok_def by blast
  qed
  moreover have "co_root c \<noteq> co_id c" using assms(2,4) r by simp
  ultimately show ?thesis unfolding fits_def by blast
qed

text \<open>What \<open>Publish\<close> has made sure of before it writes.\<close>

definition anchored :: "db \<Rightarrow> comment \<Rightarrow> bool" where
  "anchored d c \<longleftrightarrow> co_video c \<in> vid_id ` set (d_videos d)
     \<and> (co_root c = 0 \<or> (\<exists>p \<in> set (d_comments d). co_root c = thread_of p \<and> co_video c = co_video p))"

lemma wp_create_comment:
  assumes "talking w" "anchored (tabs w) c"
  shows "wp (create_comment c) (\<lambda>_. ready w (co_video c) 0 1 pop) (\<lambda>_ _. True) w"
proof -
  let ?i = "Suc (seqs w VideoComments)" and ?cs = "d_comments (tabs w)"
  have c: "comments_ok (seqs w) ?cs (d_videos (tabs w))" using assms(1) by (simp add: talk_ok.simps)
  have "talk_ok ((seqs w)(VideoComments := ?i)) (d_likes (tabs w), ?cs @ [row], update_where (\<lambda>v. vid_id v = co_video c)
      (adjust_video 0 1 pop) (d_videos (tabs w)))" if "row = c\<lparr>co_id := ?i, co_created := t, co_updated := t\<rparr>" for row t
  proof -
    have bound: "\<forall>x \<in> set ?cs. co_id x \<le> seqs w VideoComments" using c by (simp add: comments_ok_def)
    have sel: "co_id row = ?i" "co_root row = co_root c" "co_video row = co_video c" using that by simp_all
    have "fits ?cs row"
      using fits_fresh [OF c, of row] fits_reply [OF c, of row] assms(2) unfolding anchored_def sel by auto
    moreover have "co_root c \<le> ?i"
      using assms(2) c unfolding anchored_def comments_ok_def thread_of_def by (auto intro: le_SucI)
    ultimately show ?thesis
      using talk_ok_comment [OF assms(1), of "(seqs w)(VideoComments := ?i)" row pop] assms(2) bound
      by (fastforce simp: sel anchored_def)
  qed
  then show ?thesis
    by (simp add: create_comment_def wp_rules Let_def ready_def talk_step.simps)
qed

lemma wp_publish_comment_tx:
  assumes "talking w" "anchored (tabs w) c"
  shows "wp (publish_comment_tx lo letter s c author pop) (\<lambda>_. advances w) (\<lambda>_ _. True) w"
  unfolding publish_comment_tx_def
proof (rule wp_and_then [OF wp_create_comment [OF assms, of pop]])
  fix row v assume v: "ready w (co_video c) 0 1 pop v"
  have "wp (apply_comment lo letter (cs_notify s) (fanout_of row author)) (\<lambda>_. ready w (co_video c) 0 1 pop) (\<lambda>_ _. True) v"
    by (rule wp_ready_frame [OF _ v]) (intro rel_rules; simp)
  then show "wp (bnd (apply_comment lo letter (cs_notify s) (fanout_of row author)) (\<lambda>_.
      bnd (adjust_counters (co_video c) 0 1 pop) (\<lambda>_. ret row))) (\<lambda>_. advances w) (\<lambda>_ _. True) v"
    by (rule wp_and_then) (auto intro!: wp_adjust_then wp_ready framed.steps_env)
qed

lemma wp_delete_rows:
  assumes "advances u w" "\<forall>c \<in> set (d_comments (tabs w)). under_comment i c \<longrightarrow> co_video c = vid"
  shows "wp (delete_by_id_or_root_id i) (\<lambda>n v. if n = 0 then advances u v else ready u vid 0 (- int n) (pop n) v) (\<lambda>_ _. True) w"
proof -
  have w: "talking w" "talk_step (talk_of (tabs u)) (talk_of (tabs w))" using assms(1) by (simp_all add: advances_def)
  have "filter (\<lambda>c. \<not> under_comment i c) (d_comments (tabs w)) = d_comments (tabs w)"
    if "filter (under_comment i) (d_comments (tabs w)) = []"
    using that by (metis filter_True filter_empty_conv)
  then show ?thesis
    using talk_ok_uncomment [OF w(1) assms(2)] w
    by (auto simp: delete_by_id_or_root_id_def wp_rules advances_def ready_def talk_step.simps)
qed

lemma wp_ready_then:
  assumes "ready u vid 0 b pop w" "b \<noteq> 0" "steps (frame talk_of) m"
  shows "wp (bnd m (\<lambda>_. bnd (adjust_counters vid 0 b pop) (\<lambda>_. ret x))) (\<lambda>_. advances u) (\<lambda>_ _. True) w"
  by (rule wp_and_then [OF wp_ready_frame [OF assms(3,1)]]) (auto intro!: wp_adjust_then wp_ready assms(2) framed.steps_env)

lemma wp_delete_tx:
  assumes "talking w" "\<forall>c \<in> set (d_comments (tabs w)). under_comment i c \<longrightarrow> co_video c = vid"
  shows "wp (delete_tx s i vid) (\<lambda>_. advances w) (\<lambda>_ _. True) w"
  unfolding delete_tx_def
proof (rule wp_and_then [OF wp_delete_rows [OF advances_refl [OF assms(1)] assms(2),
      of "\<lambda>n. if cs_popularity s then 0 else CommentDeleteWeight * int n"]])
  fix n v assume "if n = 0 then advances w v else ready w vid 0 (- int n) (if cs_popularity s then 0 else CommentDeleteWeight * int n) v"
  then show "wp (fail_if (n = 0) ErrCommentNotFound (bnd (hide_by_comment (cs_notify s) i) (\<lambda>_.
      bnd (adjust_counters vid 0 (- int n) (if cs_popularity s then 0 else CommentDeleteWeight * int n)) (\<lambda>_. ret n))))
      (\<lambda>_. advances w) (\<lambda>_ _. True) v"
    by (cases "n = 0") (auto simp: wp_basic intro!: wp_ready_then rel_rules)
qed

lemma wp_comment_created_tx:
  assumes "talking w" "co_video c \<in> vid_id ` set (d_videos (tabs w))" "fits (d_comments (tabs w)) c"
    "0 < co_id c" "co_root c \<le> seqs w VideoComments"
  shows "wp (comment_created_tx lo letter e ev c) (\<lambda>_. advances w) (\<lambda>_ _. True) w"
  unfolding comment_created_tx_def once_def
proof (rule wp_and_then)
  have "steps (frame (\<lambda>d. (talk_of d))) (mark_processed comment_worker ev)" by (intro rel_rules) simp
  then show "wp (result_of (mark_processed comment_worker ev)) (\<lambda>_ v. advances w v \<and> talk_of (tabs v) = talk_of (tabs w)
      \<and> (\<forall>t. seqs w t \<le> seqs v t)) (\<lambda>_ _. True) w"
    using advances_env [OF advances_refl [OF assms(1)]]
    by (auto simp: wp_def result_of_def steps_def frame_def dest!: spec [where x = w] split: prod.split sum.split)
  fix r :: "err + unit" and v :: "db world"
  assume v: "advances w v \<and> talk_of (tabs v) = talk_of (tabs w) \<and> (\<forall>t. seqs w t \<le> seqs v t)"
  let ?rest = "bnd (video_by_id (co_video c)) (\<lambda>x. bnd (apply_comment lo letter (we_notify e)
      (fanout_of c (case x of None \<Rightarrow> 0 | Some y \<Rightarrow> vid_author y))) (\<lambda>_. ret True))"
  have rest: "steps (frame talk_of) ?rest" by (intro rel_rules) simp_all
  have tv: "talk_ok (seqs v) (d_likes (tabs v), d_comments (tabs v), d_videos (tabs v))"
    using conjunct1 [OF v] unfolding advances_def by (rule conjunct1)
  have insert: "wp (result_of (insert_comment c)) (\<lambda>res x. case res of Inl _ \<Rightarrow> advances w x
      | Inr _ \<Rightarrow> wp (adjust_counters (co_video c) 0 1 0) (\<lambda>_. advances w) (\<lambda>_ _. True) x) (\<lambda>_ _. True) v"
  proof -
    let ?q = "(seqs v)(VideoComments := max (seqs v VideoComments) (co_id c))"
    have "talk_ok ?q (d_likes (tabs v), d_comments (tabs v) @ [row], update_where (\<lambda>v. vid_id v = co_video row)
        (adjust_video 0 1 0) (d_videos (tabs v)))"
      if "\<forall>x \<in> set (d_comments (tabs v)). co_id x \<noteq> co_id c" "row = c\<lparr>co_created := t, co_updated := t\<rparr>" for row t
    proof (rule talk_ok_comment [OF tv])
      show "fits (d_comments (tabs v)) row" using assms(3) v that(2) by (simp add: fits_def thread_of_def)
      have "co_root c \<le> seqs v VideoComments" using assms(5) v le_trans by blast
      then show "co_root row \<le> ?q VideoComments" using that(2) by simp
      show "co_video row \<in> vid_id ` set (d_videos (tabs v))" using assms(2) v that(2) by simp
    qed (use that assms(4) in simp_all)
    then show ?thesis
      using v tv by (simp add: insert_comment_def adjust_counters_def wp_rules Let_def advances_def talk_step.simps)
  qed
  show "wp (case r of Inl err \<Rightarrow> if err = ErrAlreadyProcessed then ret False else throw err
      | Inr _ \<Rightarrow> bnd (result_of (insert_comment c)) (\<lambda>res. case res of Inl err \<Rightarrow> if err = DbDuplicate then ret False else throw err
         | Inr _ \<Rightarrow> bnd (adjust_counters (co_video c) 0 1 0) (\<lambda>_. ?rest))) (\<lambda>_. advances w) (\<lambda>_ _. True) v"
  proof (cases r)
    case (Inl err)
    with v show ?thesis by (simp add: wp_basic)
  next
    case (Inr _)
    show ?thesis
      unfolding Inr sum.case
    proof (rule wp_and_then [OF insert])
      fix res :: "err + unit" and x :: "db world"
      assume x: "case res of Inl _ \<Rightarrow> advances w x | Inr _ \<Rightarrow> wp (adjust_counters (co_video c) 0 1 0) (\<lambda>_. advances w) (\<lambda>_ _. True) x"
      show "wp (case res of Inl err \<Rightarrow> if err = DbDuplicate then ret False else throw err
         | Inr _ \<Rightarrow> bnd (adjust_counters (co_video c) 0 1 0) (\<lambda>_. ?rest)) (\<lambda>_. advances w) (\<lambda>_ _. True) x"
      proof (cases res)
        case (Inr _)
        show ?thesis unfolding Inr sum.case by (rule wp_adjust_then [OF _ rest]) (use x Inr in simp)
      qed (use x in \<open>simp add: wp_basic\<close>)
    qed
  qed
qed

lemma wp_comment_deleted_tx:
  assumes "talking w" "\<forall>c \<in> set (d_comments (tabs w)). under_comment i c \<longrightarrow> co_video c = vid"
  shows "wp (comment_deleted_tx e ev i vid) (\<lambda>_. advances w) (\<lambda>_ _. True) w"
  unfolding comment_deleted_tx_def once_def
proof (rule wp_and_then)
  have "steps (frame talk_of) (mark_processed comment_worker ev)" by (intro rel_rules) simp
  then show "wp (result_of (mark_processed comment_worker ev)) (\<lambda>_ v. advances w v \<and> d_comments (tabs v) = d_comments (tabs w))
      (\<lambda>_ _. True) w"
    using advances_env [OF advances_refl [OF assms(1)]]
    by (auto simp: wp_def result_of_def steps_def frame_def dest!: spec [where x = w] split: prod.split sum.split)
  fix r :: "err + unit" and v :: "db world"
  assume v: "advances w v \<and> d_comments (tabs v) = d_comments (tabs w)"
  have rows: "wp (delete_by_id_or_root_id i) (\<lambda>n u. if n = 0 then advances w u else ready w vid 0 (- int n) 0 u) (\<lambda>_ _. True) v"
    using wp_delete_rows [of w v i vid "\<lambda>_. 0"] v assms(2) by simp
  have "wp (bnd (delete_by_id_or_root_id i) (\<lambda>n. if n = 0 then ret 0 else bnd (hide_by_comment (we_notify e) i) (\<lambda>_.
      bnd (adjust_counters vid 0 (- int n) 0) (\<lambda>_. ret n)))) (\<lambda>_. advances w) (\<lambda>_ _. True) v"
  proof (rule wp_and_then [OF rows])
    fix n u assume "if n = 0 then advances w u else ready w vid 0 (- int n) 0 u"
    then show "wp (if n = 0 then ret 0 else bnd (hide_by_comment (we_notify e) i) (\<lambda>_.
        bnd (adjust_counters vid 0 (- int n) 0) (\<lambda>_. ret n))) (\<lambda>_. advances w) (\<lambda>_ _. True) u"
      by (cases "n = 0") (auto simp: wp_basic intro!: wp_ready_then rel_rules)
  qed
  with v show "wp (case r of Inl err \<Rightarrow> if err = ErrAlreadyProcessed then ret 0 else throw err
      | Inr _ \<Rightarrow> bnd (delete_by_id_or_root_id i) (\<lambda>n. if n = 0 then ret 0 else bnd (hide_by_comment (we_notify e) i) (\<lambda>_.
      bnd (adjust_counters vid 0 (- int n) 0) (\<lambda>_. ret n)))) (\<lambda>_. advances w) (\<lambda>_ _. True) v"
    by (cases r) (simp_all add: wp_basic)
qed

section \<open>Whole operations\<close>

abbreviation going :: "db world \<Rightarrow> 'a op \<Rightarrow> db world \<Rightarrow> bool" where
  "going \<equiv> goes talk_of talk_ok talk_step"


text \<open>A row that a query has found is in the table the continuation starts from.\<close>

lemma goes_video:
  assumes "\<And>r v. tabs v = tabs w \<Longrightarrow> r = None \<or> (\<exists>x \<in> set (d_videos (tabs w)). r = Some x \<and> vid_id x = vid) \<Longrightarrow> going u (f r) v"
  shows "going u (bnd (video_by_id vid) f) w"
proof (rule talk.goes_reads [OF _ _ assms])
  let ?r = "find (\<lambda>v. vid_id v = vid) (d_videos (tabs w))"
  have "?r = None \<or> (\<exists>x \<in> set (d_videos (tabs w)). ?r = Some x \<and> vid_id x = vid)"
    by (cases ?r) (auto simp: find_Some_iff)
  then show "wp (video_by_id vid) (\<lambda>r _. r = None \<or> (\<exists>x \<in> set (d_videos (tabs w)). r = Some x \<and> vid_id x = vid)) (\<lambda>_ _. True) w"
    by (simp add: video_by_id_def wp_rules)
qed (rule frame_video_by_id)

lemma grows_like_txs [rel_rules]: "steps grows (like_tx s acc vid author pop)" "steps grows (unlike_tx s acc vid author pop)"
  "steps grows (liked_tx ev acc vid)" "steps grows (unliked_tx ev acc vid)"
  unfolding like_tx_def unlike_tx_def liked_tx_def unliked_tx_def once_def by (intro rel_rules; simp)+

lemma goes_like: "going u (like_video s acc vid) w"
  unfolding like_video_def
proof (rule goes_video)
  fix r and v :: "db world" assume v: "tabs v = tabs w" "r = None \<or> (\<exists>x \<in> set (d_videos (tabs w)). r = Some x \<and> vid_id x = vid)"
  show "going u (case r of None \<Rightarrow> throw ErrVideoNotFound
    | Some v \<Rightarrow> fail_if (\<not> IsPubliclyListed v) ErrVideoNotFound (
        let pop = (if \<not> ls_publisher s \<and> \<not> ls_popularity s then LikeWeight else 0) in
        bnd (transaction (like_tx s acc vid (vid_author v) pop)) (\<lambda>_.
        bnd (record_popularity s vid LikeWeight) (\<lambda>_.
        bnd (invalidate_detail (ls_detail s) (ls_local s) (ls_publisher s) vid) (\<lambda>_.
        bnd (whenever (ls_interest s) (call (InvalidateUser acc))) (\<lambda>_.
        record_interest (ls_recorder s) acc v)))))) v"
  proof (cases r)
    case (Some x)
    then have "vid \<in> vid_id ` set (d_videos (tabs v))" using v by auto
    then have "going u (transaction (like_tx s acc vid (vid_author x) pop)) v" for pop
      by (intro talk.goes_transaction wp_like_tx rel_rules) (simp_all add: advances_def)
    then have "going u (bnd (transaction (like_tx s acc vid (vid_author x) pop)) (\<lambda>_.
        bnd (record_popularity s vid LikeWeight) (\<lambda>_.
        bnd (invalidate_detail (ls_detail s) (ls_local s) (ls_publisher s) vid) (\<lambda>_.
        bnd (whenever (ls_interest s) (call (InvalidateUser acc))) (\<lambda>_.
        record_interest (ls_recorder s) acc x))))) v" for pop
      by (rule talk.goes_bnd) (intro talk.goes_frame rel_rules; simp)
    then show ?thesis by (simp only: Some option.case Let_def talk.goes_throw split: if_split) simp
  qed (simp add: talk.goes_throw)
qed

lemma goes_unlike: "going u (unlike_video s acc vid) w"
  unfolding unlike_video_def
proof (rule goes_video)
  fix r and v :: "db world"
  have "going u (transaction (unlike_tx s acc vid author pop)) v" for author pop
    by (intro talk.goes_transaction wp_unlike_tx rel_rules) (simp_all add: advances_def)
  then have "going u (bnd (transaction (unlike_tx s acc vid author pop)) (\<lambda>_.
      bnd (record_popularity s vid UnlikeWeight) (\<lambda>_.
      bnd (invalidate_detail (ls_detail s) (ls_local s) (ls_publisher s) vid) (\<lambda>_.
      whenever (ls_interest s) (call (InvalidateUser acc)))))) v" for author pop
    by (rule talk.goes_bnd) (intro talk.goes_frame rel_rules)
  then show "going u (case r of None \<Rightarrow> throw ErrVideoNotFound
    | Some v \<Rightarrow> let pop = (if \<not> ls_publisher s \<and> \<not> ls_popularity s then UnlikeWeight else 0) in
        bnd (transaction (unlike_tx s acc vid (vid_author v) pop)) (\<lambda>_.
        bnd (record_popularity s vid UnlikeWeight) (\<lambda>_.
        bnd (invalidate_detail (ls_detail s) (ls_local s) (ls_publisher s) vid) (\<lambda>_.
        whenever (ls_interest s) (call (InvalidateUser acc)))))) v"
    by (cases r) (simp_all only: option.case Let_def talk.goes_throw)
qed

text \<open>An event names a video there is, a new comment agrees with the threads, and a deletion names
  the video of the comments it removes.\<close>

definition truthful :: "db world \<Rightarrow> envelope \<Rightarrow> bool" where
  "truthful w ev \<longleftrightarrow> (case ev_payload ev of
     LikePayload acc vid \<Rightarrow> vid \<in> vid_id ` set (d_videos (tabs w))
   | CommentCreated c \<Rightarrow> co_video c \<in> vid_id ` set (d_videos (tabs w)) \<and> fits (d_comments (tabs w)) c
       \<and> co_root c \<le> seqs w VideoComments
   | CommentDeleted i vid operator \<Rightarrow> \<forall>c \<in> set (d_comments (tabs w)). under_comment i c \<longrightarrow> co_video c = vid
   | _ \<Rightarrow> True)"

lemma goes_handle_like: "truthful w ev \<Longrightarrow> going u (handle_like e ev) w"
proof -
  assume t: "truthful w ev"
  have "going u (handle_like_created e ev) w"
  proof (cases "ev_payload ev")
    case (LikePayload acc vid)
    then have "vid \<in> vid_id ` set (d_videos (tabs (next_stmt w)))" using t by (simp add: truthful_def)
    then have "going u (transaction (liked_tx ev acc vid)) w"
      by (intro talk.goes_transaction wp_liked_tx rel_rules) (simp_all add: advances_def)
    then have "going u (bnd (transaction (liked_tx ev acc vid)) (after_like e vid LikeWeight EventTypeLikeCreated)) w"
      by (rule talk.goes_bnd) (intro talk.goes_frame rel_rules)
    then show ?thesis by (simp add: handle_like_created_def LikePayload talk.goes_throw)
  qed (simp_all add: handle_like_created_def talk.goes_throw)
  moreover have "going u (handle_like_deleted e ev) w"
  proof (cases "ev_payload ev")
    case (LikePayload acc vid)
    have "going u (transaction (unliked_tx ev acc vid)) w"
      by (intro talk.goes_transaction wp_unliked_tx rel_rules) (simp_all add: advances_def)
    then have "going u (bnd (transaction (unliked_tx ev acc vid)) (after_like e vid UnlikeWeight EventTypeLikeDeleted)) w"
      by (rule talk.goes_bnd) (intro talk.goes_frame rel_rules)
    then show ?thesis by (simp add: handle_like_deleted_def LikePayload talk.goes_throw)
  qed (simp_all add: handle_like_deleted_def talk.goes_throw)
  ultimately show ?thesis by (simp add: handle_like_def talk.goes_throw)
qed

text \<open>What the searches for a comment answer is in the table.\<close>

lemma best_loop_in: "best_loop i b d cs \<in> set (b # cs)"
  by (induction cs arbitrary: b d) (auto simp: Let_def)

lemma reads_comment_queries [rel_rules]:
  "steps (frame g) (find_comment i)" "steps (frame g) (find_by_resolvable_id base i)" "steps (frame g) (find_parent vid i)"
  unfolding find_comment_def find_by_resolvable_id_def find_parent_def comment_id_lookup_range_def prod.case
  by (intro rel_rules; auto intro!: rel_rules split: list.split)+

lemma wp_find_resolvable:
  "wp (find_by_resolvable_id base i) (\<lambda>r v. \<forall>c. r = Some c \<longrightarrow> c \<in> set (d_comments (tabs w)) \<and> base c) (\<lambda>_ _. True) w"
proof (cases "find (\<lambda>c. base c \<and> co_id c = i) (d_comments (tabs w))")
  case (Some c)
  then show ?thesis using find_Some_in [OF Some] by (simp add: find_by_resolvable_id_def wp_rules)
next
  case None
  obtain lo hi where range: "comment_id_lookup_range i = (lo, hi)" by (cases "comment_id_lookup_range i")
  let ?cs = "sort_key co_id (filter (\<lambda>c. base c \<and> lo \<le> co_id c \<and> co_id c \<le> hi) (d_comments (tabs w)))"
  show ?thesis
  proof (cases ?cs)
    case Nil
    then show ?thesis by (simp add: find_by_resolvable_id_def wp_rules None range)
  next
    case (Cons c rest)
    have "best_loop i c (uint64_distance (co_id c) i) rest \<in> set ?cs" unfolding Cons by (rule best_loop_in)
    then have "best_loop i c (uint64_distance (co_id c) i) rest \<in> set (d_comments (tabs w))"
      "base (best_loop i c (uint64_distance (co_id c) i) rest)" unfolding set_sort set_filter by blast+
    then show ?thesis by (simp add: find_by_resolvable_id_def wp_rules None range Cons)
  qed
qed

lemma wp_search:
  "wp (bnd (find_comment i) (\<lambda>exact. case exact of Some c \<Rightarrow> ret (Some c) | None \<Rightarrow> find_by_resolvable_id base i))
    (\<lambda>r _. \<forall>c. r = Some c \<longrightarrow> c \<in> set (d_comments (tabs w))) (\<lambda>_ _. True) w"
proof (rule wp_and_then)
  let ?r = "find (\<lambda>c. co_id c = i) (d_comments (tabs w))"
  show "wp (find_comment i) (\<lambda>exact v. tabs v = tabs w \<and> exact = ?r) (\<lambda>_ _. True) w"
    by (simp add: find_comment_def wp_rules)
  fix exact and v :: "db world" assume v: "tabs v = tabs w \<and> exact = ?r"
  show "wp (case exact of Some c \<Rightarrow> ret (Some c) | None \<Rightarrow> find_by_resolvable_id base i)
      (\<lambda>r _. \<forall>c. r = Some c \<longrightarrow> c \<in> set (d_comments (tabs w))) (\<lambda>_ _. True) v"
  proof (cases exact)
    case None
    show ?thesis unfolding None option.case by (rule wp_mono [OF wp_find_resolvable [of base i v]]) (simp_all add: v)
  next
    case (Some c)
    then show ?thesis using v find_Some_in [of _ "d_comments (tabs w)" c] by (simp add: wp_basic)
  qed
qed

lemma wp_find_parent:
  "wp (find_parent vid i) (\<lambda>p _. p \<in> set (d_comments (tabs w)) \<and> co_video p = vid) (\<lambda>_ _. True) w"
  unfolding find_parent_def bnd_assoc [symmetric]
  by (rule wp_and_then [OF wp_search]) (auto simp: wp_basic split: option.split)

lemma grows_comment_rows [rel_rules]:
  "steps grows (create_comment c)" "steps grows (delete_by_id_or_root_id i)" "steps grows (insert_comment c)"
  unfolding create_comment_def delete_by_id_or_root_id_def insert_comment_def Let_def by (intro rel_rules; simp)+

lemma grows_comment_txs [rel_rules]:
  "steps grows (publish_comment_tx lo letter s c author pop)" "steps grows (delete_tx s i vid)"
  "steps grows (comment_created_tx lo letter e ev c)" "steps grows (comment_deleted_tx e ev i vid)"
  unfolding publish_comment_tx_def delete_tx_def comment_created_tx_def comment_deleted_tx_def once_def by (intro rel_rules; simp)+

lemma frame_record_times [rel_rules]: "steps (frame g) (record_times n vid weight)"
proof (induction n)
  case 0
  show ?case unfolding record_times.simps by (intro rel_rules)
next
  case (Suc n)
  show ?case unfolding record_times.simps by (intro rel_rules Suc.IH)
qed

lemma frame_comment_interest [rel_rules]:
  "(\<And>d x. g (d\<lparr>d_accounts := x\<rparr>) = g d) \<Longrightarrow> steps (frame g) (record_comment_interest r acc vid)"
  unfolding record_comment_interest_def by (intro rel_rules)

lemma frame_send [rel_rules]: "steps (frame g) (send_event accepts ty p sent)" "steps (frame g) next_comment_id"
  unfolding send_event_def next_comment_id_def by (intro rel_rules)+

lemma anchored_reply:
  "p \<in> set (d_comments d) \<Longrightarrow> co_video p = co_video c \<Longrightarrow> co_video c \<in> vid_id ` set (d_videos d) \<Longrightarrow> anchored d (reply_to p c)"
  by (auto simp: anchored_def reply_to_def thread_of_def intro!: bexI [of _ p])

lemma goes_publish_sync: "anchored (tabs w) c \<Longrightarrow> going u (publish_sync lo letter s c author) w"
proof -
  assume c: "anchored (tabs w) c"
  have "going u (transaction (publish_comment_tx lo letter s c author pop)) w" for pop
    by (intro talk.goes_transaction wp_publish_comment_tx rel_rules) (simp_all add: advances_def c)
  then show ?thesis
    unfolding publish_sync_def Let_def by (rule talk.goes_bnd) (intro talk.goes_frame rel_rules; simp)
qed

lemma goes_publish_comment: "going u (publish_comment lo letter s acc username vid parent content) w"
  unfolding publish_comment_def
proof (rule goes_video)
  let ?base = "\<lparr>co_id = 0, co_video = vid, co_root = 0, co_parent = 0, co_author = acc, co_username = username,
    co_reply_to = 0, co_reply_name = [], co_content = content, co_created = 0, co_updated = 0\<rparr>"
  let ?pick = "if parent > 0 then bnd (find_parent vid parent) (\<lambda>p. ret (reply_to p ?base)) else ret ?base"
  let ?go = "\<lambda>v c. case cs_publisher s of
      None \<Rightarrow> publish_sync lo letter s c (vid_author v)
    | Some accepts \<Rightarrow> bnd next_comment_id (\<lambda>i. bnd read_now (\<lambda>now.
        let sent = c\<lparr>co_id := i, co_created := now, co_updated := now\<rparr> in
        bnd (send_event accepts EventTypeCommentCreated (CommentCreated (c\<lparr>co_id := i\<rparr>)) (PublishComment i)) (\<lambda>_.
        ret sent)))"
  fix r and v :: "db world" assume v: "tabs v = tabs w" "r = None \<or> (\<exists>x \<in> set (d_videos (tabs w)). r = Some x \<and> vid_id x = vid)"
  have "going u (bnd ?pick (?go x)) v" if x: "x \<in> set (d_videos (tabs w))" "vid_id x = vid" for x
  proof (rule talk.goes_reads)
    show "steps (frame (\<lambda>d. d)) ?pick" by (intro rel_rules)
    have vid: "vid \<in> vid_id ` set (d_videos (tabs v))" using x v(1) by auto
    show "wp ?pick (\<lambda>c _. anchored (tabs v) c) (\<lambda>_ _. True) v"
    proof (cases "parent > 0")
      case True
      have "wp (bnd (find_parent vid parent) (\<lambda>p. ret (reply_to p ?base))) (\<lambda>c _. anchored (tabs v) c) (\<lambda>_ _. True) v"
        by (rule wp_and_then [OF wp_find_parent])
          (use vid in \<open>simp add: wp_basic anchored_reply\<close>)
      with True show ?thesis by simp
    next
      case False
      with vid show ?thesis by (simp add: wp_basic anchored_def)
    qed
    fix c and y :: "db world" assume "tabs y = tabs v" "anchored (tabs v) c"
    then have "going u (publish_sync lo letter s c (vid_author x)) y" by (simp add: goes_publish_sync)
    moreover have "going u (bnd next_comment_id (\<lambda>i. bnd read_now (\<lambda>now.
        let sent = c\<lparr>co_id := i, co_created := now, co_updated := now\<rparr> in
        bnd (send_event accepts EventTypeCommentCreated (CommentCreated (c\<lparr>co_id := i\<rparr>)) (PublishComment i)) (\<lambda>_.
        ret sent)))) y" for accepts unfolding Let_def by (intro talk.goes_frame rel_rules)
    ultimately show "going u (?go x c) y" by (cases "cs_publisher s") simp_all
  qed
  then show "going u (case r of None \<Rightarrow> throw ErrVideoNotFound
    | Some v \<Rightarrow> fail_if (\<not> IsPubliclyListed v) ErrVideoNotFound (let base = ?base in bnd
        (if parent > 0 then bnd (find_parent vid parent) (\<lambda>p. ret (reply_to p base)) else ret base) (?go v))) v"
    using v(2) by (auto simp: talk.goes_throw Let_def)
qed

text \<open>A comment and what hangs below it belong to one video.\<close>

lemma under_one_video:
  assumes "comments_ok q cs vs" "c \<in> set cs"
  shows "\<forall>x \<in> set cs. under_comment (co_id c) x \<longrightarrow> co_video x = co_video c"
proof (intro ballI impI)
  fix x assume x: "x \<in> set cs" "under_comment (co_id c) x"
  have t: "threads_ok cs" "0 < co_id c" using assms by (auto simp: comments_ok_def)
  show "co_video x = co_video c"
  proof (cases "co_id x = co_id c")
    case True
    then have "x = c" using assms x(1) distinct_map_inj_eq [of co_id cs] by (auto simp: comments_ok_def)
    then show ?thesis by simp
  next
    case False
    then have root: "co_root x = co_id c" using x(2) by (simp add: under_comment_def)
    then have "co_root c = 0" using t(1) x(1) assms(2) unfolding threads_ok_def by blast
    with root t(2) have "thread_of x = thread_of c" by (simp add: thread_of_def)
    then show ?thesis using t(1) x(1) assms(2) unfolding threads_ok_def by blast
  qed
qed

lemma goes_delete_sync: "c \<in> set (d_comments (tabs w)) \<Longrightarrow> going u (delete_sync s (co_id c) (co_video c)) w"
proof -
  assume c: "c \<in> set (d_comments (tabs w))"
  have "going u (transaction (delete_tx s (co_id c) (co_video c))) w"
  proof (rule talk.goes_transaction)
    assume w: "advances u w"
    then have "comments_ok (seqs w) (d_comments (tabs w)) (d_videos (tabs w))" by (simp add: advances_def talk_ok.simps)
    then show "wp (delete_tx s (co_id c) (co_video c)) (\<lambda>_. advances (next_stmt w)) (\<lambda>_ _. True) (next_stmt w)"
      using w under_one_video [OF _ c] by (intro wp_delete_tx) (simp_all add: advances_def)
  qed (intro rel_rules)
  then show ?thesis
    unfolding delete_sync_def by (rule talk.goes_bnd) (intro talk.goes_frame rel_rules)
qed

lemma goes_delete_comment: "going u (delete_comment s acc i) w"
  unfolding delete_comment_def bnd_assoc [symmetric]
proof (rule talk.goes_reads [OF _ wp_search])
  show "steps (frame (\<lambda>d. d)) (bnd (find_comment i) (\<lambda>exact. case exact of Some c \<Rightarrow> ret (Some c)
      | None \<Rightarrow> find_by_resolvable_id (\<lambda>_. True) i))" by (intro rel_rules)
  fix found and v :: "db world"
  assume v: "tabs v = tabs w" "\<forall>c. found = Some c \<longrightarrow> c \<in> set (d_comments (tabs w))"
  have "going u (bnd (video_by_id (co_video c)) (\<lambda>r. case r of
         None \<Rightarrow> throw ErrVideoNotFound
       | Some v \<Rightarrow> fail_if (co_author c \<noteq> acc \<and> vid_author v \<noteq> acc) ErrCommentForbidden (
           case cs_publisher s of
             None \<Rightarrow> delete_sync s (co_id c) (co_video c)
           | Some accepts \<Rightarrow> send_event accepts EventTypeCommentDeleted (CommentDeleted (co_id c) (co_video c) acc)
               (PublishCommentDeleted (co_id c) (co_video c))))) v" if c: "found = Some c" for c
  proof (rule goes_video)
    fix r and y :: "db world" assume "tabs y = tabs v"
    then have "going u (delete_sync s (co_id c) (co_video c)) y" using v c by (simp add: goes_delete_sync)
    moreover have "going u (send_event accepts EventTypeCommentDeleted (CommentDeleted (co_id c) (co_video c) acc)
        (PublishCommentDeleted (co_id c) (co_video c))) y" for accepts by (intro talk.goes_frame rel_rules)
    ultimately show "going u (case r of
         None \<Rightarrow> throw ErrVideoNotFound
       | Some v \<Rightarrow> fail_if (co_author c \<noteq> acc \<and> vid_author v \<noteq> acc) ErrCommentForbidden (
           case cs_publisher s of
             None \<Rightarrow> delete_sync s (co_id c) (co_video c)
           | Some accepts \<Rightarrow> send_event accepts EventTypeCommentDeleted (CommentDeleted (co_id c) (co_video c) acc)
               (PublishCommentDeleted (co_id c) (co_video c)))) y"
      by (simp add: talk.goes_throw split: option.split)
  qed
  then show "going u (case found of
       None \<Rightarrow> throw ErrCommentNotFound
     | Some c \<Rightarrow> bnd (video_by_id (co_video c)) (\<lambda>r. case r of
         None \<Rightarrow> throw ErrVideoNotFound
       | Some v \<Rightarrow> fail_if (co_author c \<noteq> acc \<and> vid_author v \<noteq> acc) ErrCommentForbidden (
           case cs_publisher s of
             None \<Rightarrow> delete_sync s (co_id c) (co_video c)
           | Some accepts \<Rightarrow> send_event accepts EventTypeCommentDeleted (CommentDeleted (co_id c) (co_video c) acc)
               (PublishCommentDeleted (co_id c) (co_video c))))) v"
    by (cases found) (simp_all add: talk.goes_throw)
qed

lemma goes_handle_comment: "truthful w ev \<Longrightarrow> going u (handle_comment lo letter e ev) w"
proof -
  assume t: "truthful w ev"
  have "going u (handle_comment_created lo letter e ev) w"
  proof (cases "ev_payload ev")
    case (CommentCreated c)
    have "going u (bnd (transaction (comment_created_tx lo letter e ev c)) (\<lambda>emit. whenever emit (
          bnd (publish_popularity_changed (we_publisher e) (co_video c) CommentPublishWeight EventTypeCommentCreated) (\<lambda>_.
          bnd (invalidate_detail (we_detail e) False (we_publisher e) (co_video c)) (\<lambda>_.
          record_comment_interest (we_recorder e) (co_author c) (co_video c)))))) w" if c: "co_id c \<noteq> 0"
    proof (rule talk.goes_bnd)
      show "going u (transaction (comment_created_tx lo letter e ev c)) w"
        using t c CommentCreated
        by (intro talk.goes_transaction wp_comment_created_tx rel_rules) (simp_all add: advances_def truthful_def)
    qed (intro talk.goes_frame rel_rules; simp)
    then show ?thesis by (simp add: handle_comment_created_def CommentCreated talk.goes_throw)
  qed (simp_all add: handle_comment_created_def talk.goes_throw)
  moreover have "going u (handle_comment_deleted e ev) w"
  proof (cases "ev_payload ev")
    case (CommentDeleted i vid operator)
    have "going u (transaction (comment_deleted_tx e ev i vid)) w"
      using t CommentDeleted
      by (intro talk.goes_transaction wp_comment_deleted_tx rel_rules) (simp_all add: advances_def truthful_def)
    then have "going u (bnd (transaction (comment_deleted_tx e ev i vid)) (\<lambda>n. whenever (0 < n) (
          bnd (publish_popularity_changed (we_publisher e) vid (CommentDeleteWeight * int n) EventTypeCommentDeleted) (\<lambda>_.
          invalidate_detail (we_detail e) False (we_publisher e) vid)))) w"
      by (rule talk.goes_bnd) (intro talk.goes_frame rel_rules)
    then show ?thesis by (simp add: handle_comment_deleted_def CommentDeleted talk.goes_throw)
  qed (simp_all add: handle_comment_deleted_def talk.goes_throw)
  ultimately show ?thesis by (simp add: handle_comment_def talk.goes_throw)
qed

end
