(* ===== verification/Engagement_Properties.thy ===== *)
theory Engagement_Properties
  imports Engagement
begin

text \<open>
  What holds of likes and comments: the tree of comments is the reference one, identifiers that a
  client has rounded are resolved to the nearest comment, a like can be taken back, and an event
  that is delivered twice changes nothing the second time.
\<close>

section \<open>The tree of comments\<close>

definition replies_to :: "comment list \<Rightarrow> comment \<Rightarrow> comment list" where
  "replies_to replies root = filter (\<lambda>c. co_root c = co_id root) replies"

definition comment_tree :: "comment list \<Rightarrow> comment list \<Rightarrow> comment_item list" where
  "comment_tree roots replies = map (\<lambda>root. CommentItem root (length (replies_to replies root))
     (map new_comment_item (replies_to replies root))) roots"

lemma index_roots:
  "distinct (map co_id rs) \<Longrightarrow> \<forall>r \<in> set rs. m (co_id r) = None \<Longrightarrow>
   index_roots k m rs i = Some j \<longleftrightarrow> m i = Some j \<or> (\<exists>n < length rs. j = k + n \<and> co_id (rs ! n) = i)"
proof (induction k m rs rule: index_roots.induct)
  case (2 k m r rs)
  define m' where "m' = m(co_id r \<mapsto> k)"
  have m': "m' x = (if x = co_id r then Some k else m x)" for x by (simp add: m'_def)
  have "\<forall>x \<in> set rs. m' (co_id x) = None" using "2.prems" by (auto simp: m' image_iff)
  with "2.prems"(1) have ih: "index_roots (Suc k) m' rs i = Some j \<longleftrightarrow>
      m' i = Some j \<or> (\<exists>n < length rs. j = Suc k + n \<and> co_id (rs ! n) = i)"
    by (intro "2.IH" [folded m'_def]) simp_all
  show ?case
    unfolding index_roots.simps m'_def [symmetric] ih using "2.prems"(2) by (auto simp: m' less_Suc_eq_0_disj)
qed simp

lemma index_roots_nth:
  "distinct (map co_id rs) \<Longrightarrow> index_roots 0 (\<lambda>_. None) rs i = Some k \<longleftrightarrow> k < length rs \<and> co_id (rs ! k) = i"
  by (subst index_roots) auto

lemma attach_replies_snoc:
  "attach_replies idx items (rs @ [r]) = (let items' = attach_replies idx items rs in
     case idx (co_root r) of None \<Rightarrow> items' | Some k \<Rightarrow> items'[k := add_reply r (items' ! k)])"
  by (induction idx items rs rule: attach_replies.induct) (auto simp: Let_def split: option.split)

lemma replies_to_snoc: "replies_to (rs @ [r]) x = replies_to rs x @ (if co_root r = co_id x then [r] else [])"
  by (simp add: replies_to_def)

lemma comment_tree_snoc:
  assumes "distinct (map co_id roots)"
  shows "comment_tree roots (rs @ [r]) = (case index_roots 0 (\<lambda>_. None) roots (co_root r) of
      None \<Rightarrow> comment_tree roots rs
    | Some k \<Rightarrow> (comment_tree roots rs)[k := add_reply r (comment_tree roots rs ! k)])"
proof (cases "index_roots 0 (\<lambda>_. None) roots (co_root r)")
  case None
  then have "co_root r \<noteq> co_id x" if "x \<in> set roots" for x
    using that index_roots_nth [OF assms, of "co_root r"] by (metis in_set_conv_nth option.distinct(1))
  then show ?thesis using None by (simp add: comment_tree_def replies_to_snoc)
next
  case (Some k)
  then have k: "k < length roots" "co_id (roots ! k) = co_root r" using index_roots_nth [OF assms] by auto
  have other: "co_root r \<noteq> co_id (roots ! j)" if "j < length roots" "j \<noteq> k" for j
    using assms that k nth_eq_iff_index_eq [of "map co_id roots" j k] by simp
  show ?thesis unfolding Some option.case
  proof (rule nth_equalityI)
    fix j assume j: "j < length (comment_tree roots (rs @ [r]))"
    show "comment_tree roots (rs @ [r]) ! j = (comment_tree roots rs)[k := add_reply r (comment_tree roots rs ! k)] ! j"
      using j k other [of j] by (cases "j = k") (auto simp: comment_tree_def replies_to_snoc add_reply_def Let_def)
  qed (simp add: comment_tree_def)
qed

lemma build_is_tree:
  assumes "distinct (map co_id roots)"
  shows "build_comment_items roots replies = comment_tree roots replies"
proof (induction replies rule: rev_induct)
  case Nil
  show ?case by (simp add: build_comment_items_def comment_tree_def replies_to_def new_comment_item_def)
next
  case (snoc r rs)
  then show ?case
    unfolding build_comment_items_def attach_replies_snoc Let_def comment_tree_snoc [OF assms]
    by (simp split: option.split)
qed

section \<open>Identifiers a client has rounded\<close>

lemma best_loop_least:
  "x \<in> set (b # cs) \<Longrightarrow> uint64_distance (co_id (best_loop i b (uint64_distance (co_id b) i) cs)) i \<le> uint64_distance (co_id x) i"
proof (induction cs arbitrary: b x)
  case (Cons c cs)
  show ?case
  proof (cases "uint64_distance (co_id c) i < uint64_distance (co_id b) i")
    case True
    then show ?thesis using Cons.IH [of c c] Cons.IH [of x c] Cons.prems by (auto simp: Let_def)
  next
    case False
    then show ?thesis using Cons.IH [of b b] Cons.IH [of x b] Cons.prems by (auto simp: Let_def)
  qed
qed simp

lemma lookup_range:
  assumes "comment_id_lookup_range i = (lower, upper)" "k \<le> maxUint64"
  shows "lower \<le> k \<and> k \<le> upper \<longleftrightarrow> uint64_distance k i \<le> commentIDLookupWindowJS"
  using assms by (auto simp: comment_id_lookup_range_def uint64_distance_def maxUint64_def commentIDLookupWindowJS_def split: if_splits)

definition window :: "nat \<Rightarrow> nat" where
  "window i = (if i \<le> maxJSSafeInteger then 0 else commentIDLookupWindowJS)"

lemma wp_nearest:
  assumes "\<forall>c \<in> set (d_comments (tabs w)). co_id c \<le> maxUint64"
  shows "wp (find_by_resolvable_id base i) (\<lambda>r _. case r of
      Some c \<Rightarrow> c \<in> set (d_comments (tabs w)) \<and> base c \<and> uint64_distance (co_id c) i \<le> window i
        \<and> (\<forall>x \<in> set (d_comments (tabs w)). base x \<longrightarrow> uint64_distance (co_id c) i \<le> uint64_distance (co_id x) i)
    | None \<Rightarrow> \<forall>x \<in> set (d_comments (tabs w)). base x \<longrightarrow> window i < uint64_distance (co_id x) i) (\<lambda>_ _. True) w"
proof (cases "find (\<lambda>c. base c \<and> co_id c = i) (d_comments (tabs w))")
  case (Some c)
  then show ?thesis
    using find_Some_in [OF Some] by (simp add: find_by_resolvable_id_def wp_rules uint64_distance_def)
next
  case None
  then have far: "\<forall>x \<in> set (d_comments (tabs w)). base x \<longrightarrow> 0 < uint64_distance (co_id x) i"
    by (auto simp: find_None_iff uint64_distance_def)
  obtain lower upper where range: "comment_id_lookup_range i = (lower, upper)" by (cases "comment_id_lookup_range i")
  let ?cs = "sort_key co_id (filter (\<lambda>c. base c \<and> lower \<le> co_id c \<and> co_id c \<le> upper) (d_comments (tabs w)))"
  have cs: "x \<in> set ?cs \<longleftrightarrow> x \<in> set (d_comments (tabs w)) \<and> base x \<and> uint64_distance (co_id x) i \<le> commentIDLookupWindowJS" for x
    using assms lookup_range [OF range, of "co_id x"] by auto
  show ?thesis
  proof (cases ?cs)
    case Nil
    then have "\<forall>x \<in> set (d_comments (tabs w)). base x \<longrightarrow> commentIDLookupWindowJS < uint64_distance (co_id x) i"
      using cs by (metis empty_iff list.set(1) not_le)
    then show ?thesis using far Nil by (simp add: find_by_resolvable_id_def wp_rules None range window_def)
  next
    case (Cons c rest)
    let ?b = "best_loop i c (uint64_distance (co_id c) i) rest"
    have "?b \<in> set ?cs" unfolding Cons by (rule best_loop_in)
    then have b: "?b \<in> set (d_comments (tabs w))" "base ?b" "uint64_distance (co_id ?b) i \<le> commentIDLookupWindowJS"
      by (simp_all only: cs)
    have "uint64_distance (co_id ?b) i \<le> uint64_distance (co_id x) i" if "x \<in> set (d_comments (tabs w))" "base x" for x
    proof (cases "x \<in> set ?cs")
      case True
      then show ?thesis unfolding Cons by (rule best_loop_least)
    next
      case False
      then show ?thesis using that b(3) unfolding cs by simp
    qed
    then show ?thesis using b far by (simp add: find_by_resolvable_id_def wp_rules None range Cons window_def)
  qed
qed

text \<open>C25 Nearest comment: a search that succeeds answers the comment of the searched set whose identifier is
  nearest to the one asked for, never further than the window; a search that answers no comment leaves
  none within the window. The window is 0 up to \<open>Number.MAX_SAFE_INTEGER\<close>, where a client's
  identifiers are exact, and 1024 above it.\<close>

theorem nearest_comment:
  assumes "find_by_resolvable_id base i w = (Inr r, w')" "\<forall>c \<in> set (d_comments (tabs w)). co_id c \<le> maxUint64"
  shows "case r of
      Some c \<Rightarrow> c \<in> set (d_comments (tabs w)) \<and> base c \<and> uint64_distance (co_id c) i \<le> window i
        \<and> (\<forall>x \<in> set (d_comments (tabs w)). base x \<longrightarrow> uint64_distance (co_id c) i \<le> uint64_distance (co_id x) i)
    | None \<Rightarrow> \<forall>x \<in> set (d_comments (tabs w)). base x \<longrightarrow> window i < uint64_distance (co_id x) i"
  by (rule wp_ok [OF wp_nearest [OF assms(2)] assms(1)])

section \<open>Listing\<close>

definition listing :: "db \<Rightarrow> nat \<Rightarrow> comment_item list" where
  "listing d vid = map (\<lambda>root. let replies = sort_key comment_order
       (filter (\<lambda>c. co_video c = vid \<and> co_root c = co_id root) (d_comments d))
     in CommentItem root (length replies) (map new_comment_item replies))
     (sort_key comment_order (filter (\<lambda>c. co_video c = vid \<and> co_root c = 0) (d_comments d)))"

lemma comment_tree_listing:
  "comment_tree (sort_key comment_order (filter (\<lambda>c. co_video c = vid \<and> co_root c = 0) cs))
     (sort_key comment_order (filter (\<lambda>c. co_video c = vid
        \<and> co_root c \<in> co_id ` set (sort_key comment_order (filter (\<lambda>c. co_video c = vid \<and> co_root c = 0) cs))) cs))
   = listing d vid" if "cs = d_comments d"
proof -
  let ?roots = "sort_key comment_order (filter (\<lambda>c. co_video c = vid \<and> co_root c = 0) cs)"
  have "replies_to (sort_key comment_order (filter (\<lambda>c. co_video c = vid \<and> co_root c \<in> co_id ` set ?roots) cs)) root
      = sort_key comment_order (filter (\<lambda>c. co_video c = vid \<and> co_root c = co_id root) cs)" if "root \<in> set ?roots" for root
    unfolding replies_to_def filter_sort filter_filter
    by (rule arg_cong [of _ _ "sort_key comment_order"], rule filter_cong) (use that in auto)
  then show ?thesis
    unfolding comment_tree_def listing_def that [symmetric] by (simp add: Let_def)
qed

lemma wp_listing:
  assumes "distinct (map co_id (d_comments (tabs w)))"
  shows "wp (list_all_comments vid) (\<lambda>items _. items = listing (tabs w) vid) (\<lambda>_ _. True) w"
proof -
  let ?roots = "sort_key comment_order (filter (\<lambda>c. co_video c = vid \<and> co_root c = 0) (d_comments (tabs w)))"
  have "inj_on co_id (set ?roots)" using assms by (auto simp: distinct_map inj_on_def)
  then have unique: "distinct (map co_id ?roots)" using assms by (simp add: distinct_map)
  have "build_comment_items ?roots (sort_key comment_order (filter (\<lambda>c. co_video c = vid
        \<and> co_root c \<in> co_id ` set ?roots) (d_comments (tabs w)))) = listing (tabs w) vid"
    unfolding build_is_tree [OF unique] by (rule comment_tree_listing) simp
  then show ?thesis
    by (auto simp: list_all_comments_def video_by_id_def find_root_comments_def find_replies_def wp_rules listing_def)
qed

text \<open>C19 Comment listing: what the service answers is every root comment of the video in the order of time,
  each with its replies in the order of time and their number, whatever the order of the rows.\<close>

theorem comment_listing:
  assumes "list_all_comments vid w = (Inr items, w')" "distinct (map co_id (d_comments (tabs w)))"
  shows "items = listing (tabs w) vid"
  by (rule wp_ok [OF wp_listing [OF assms(2)] assms(1)])

section \<open>Taking a like back\<close>

lemma wp_then_frame:
  fixes w :: "'s world"
  assumes "wp m (\<lambda>_ v. P (g (tabs v))) (\<lambda>_ _. True) w" "\<And>x. steps (frame g) (f x)"
  shows "wp (bnd m f) (\<lambda>_ v. P (g (tabs v))) (\<lambda>_ _. True) w"
proof (rule wp_and_then [OF assms(1)])
  fix x and v :: "'s world" assume "P (g (tabs v))"
  then show "wp (f x) (\<lambda>_ v. P (g (tabs v))) (\<lambda>_ _. True) v"
    using stepsD [OF assms(2)] by (intro wpI) auto
qed

abbreviation like_rows :: "db \<Rightarrow> video_like list \<times> video list" where
  "like_rows d \<equiv> (d_likes d, d_videos d)"

definition one_more_like :: "nat \<Rightarrow> nat \<Rightarrow> db \<Rightarrow> video_like list \<times> video list \<Rightarrow> bool" where
  "one_more_like vid acc d x \<longleftrightarrow> (\<forall>l \<in> set (d_likes d). \<not> like_row vid acc l)
     \<and> (\<exists>l pop. like_row vid acc l \<and> x = (d_likes d @ [l], update_where (\<lambda>v. vid_id v = vid) (adjust_video 1 0 pop) (d_videos d)))"

definition one_less_like :: "nat \<Rightarrow> nat \<Rightarrow> db \<Rightarrow> video_like list \<times> video list \<Rightarrow> bool" where
  "one_less_like vid acc d x \<longleftrightarrow> (\<exists>pop. x = (filter (\<lambda>l. \<not> like_row vid acc l) (d_likes d),
     update_where (\<lambda>v. vid_id v = vid) (adjust_video (- 1) 0 pop) (d_videos d)))"

lemma one_more_likeI:
  "\<forall>l \<in> set (d_likes d). \<not> like_row vid acc l \<Longrightarrow> like_row vid acc l \<Longrightarrow>
   one_more_like vid acc d (d_likes d @ [l], update_where (\<lambda>v. vid_id v = vid) (adjust_video 1 0 pop) (d_videos d))"
  unfolding one_more_like_def by blast

lemma wp_like_tx_rows: "wp (like_tx s acc vid author pop) (\<lambda>_ v. one_more_like vid acc (tabs w) (like_rows (tabs v))) (\<lambda>_ _. True) w"
proof -
  define rest where "rest = bnd (apply_like (ls_notify s) acc vid author) (\<lambda>_.
    whenever (ls_publisher s) (popularity_event vid LikeWeight EventTypeLikeCreated))"
  have "steps (frame like_rows) rest" unfolding rest_def by (intro rel_rules) simp_all
  then have rest: "wp rest (\<lambda>_ v. one_more_like vid acc (tabs w) (like_rows (tabs v))) (\<lambda>_ _. True) v"
    if "one_more_like vid acc (tabs w) (like_rows (tabs v))" for v
    using that stepsD [of like_rows rest v] by (intro wpI) auto
  show ?thesis
    unfolding like_tx_def rest_def [symmetric]
    by (auto simp: find_like_def create_like_def adjust_counters_def wp_rules Let_def
        find_None_iff intro!: rest one_more_likeI) (simp add: like_row_def)
qed

lemma wp_unlike_tx_rows: "wp (unlike_tx s acc vid author pop) (\<lambda>_ v. one_less_like vid acc (tabs w) (like_rows (tabs v))) (\<lambda>_ _. True) w"
proof -
  define rest where "rest = bnd (retract_like (ls_notify s) acc vid author) (\<lambda>_.
    whenever (ls_publisher s) (popularity_event vid UnlikeWeight EventTypeLikeDeleted))"
  have "steps (frame like_rows) rest" unfolding rest_def by (intro rel_rules) simp_all
  then have rest: "wp rest (\<lambda>_ v. one_less_like vid acc (tabs w) (like_rows (tabs v))) (\<lambda>_ _. True) v"
    if "one_less_like vid acc (tabs w) (like_rows (tabs v))" for v
    using that stepsD [of like_rows rest v] by (intro wpI) auto
  have less: "one_less_like vid acc d (filter (\<lambda>l. \<not> like_row vid acc l) (d_likes d),
     update_where (\<lambda>v. vid_id v = vid) (adjust_video (- 1) 0 pop) (d_videos d))" for d
    unfolding one_less_like_def by blast
  show ?thesis
    unfolding unlike_tx_def rest_def [symmetric]
    by (auto simp: delete_like_def adjust_counters_def wp_rules intro!: rest less)
qed

lemma wp_like_rows:
  assumes "\<And>u. tabs u = tabs w \<Longrightarrow> wp m (\<lambda>_ v. P (like_rows (tabs v))) (\<lambda>_ _. True) u" "\<And>x. steps (frame like_rows) (f x)"
  shows "wp (bnd (transaction m) f) (\<lambda>_ v. P (like_rows (tabs v))) (\<lambda>_ _. True) w"
  by (intro wp_then_frame [where g = like_rows] assms(2) wp_transactionI) (simp_all add: assms(1))

lemma wp_like_video_rows:
  "wp (like_video s acc vid) (\<lambda>_ v. one_more_like vid acc (tabs w) (like_rows (tabs v))) (\<lambda>_ _. True) w"
  unfolding like_video_def
proof (rule wp_and_then)
  show "wp (video_by_id vid) (\<lambda>_ v. tabs v = tabs w) (\<lambda>_ _. True) w" by (simp add: video_by_id_def wp_rules)
  fix r and u :: "db world" assume u: "tabs u = tabs w"
  have "wp (bnd (transaction (like_tx s acc vid (vid_author x) pop)) (\<lambda>_.
        bnd (record_popularity s vid LikeWeight) (\<lambda>_.
        bnd (invalidate_detail (ls_detail s) (ls_local s) (ls_publisher s) vid) (\<lambda>_.
        bnd (whenever (ls_interest s) (call (InvalidateUser acc))) (\<lambda>_.
        record_interest (ls_recorder s) acc x)))))
      (\<lambda>_ v. one_more_like vid acc (tabs w) (like_rows (tabs v))) (\<lambda>_ _. True) u" for x pop
  proof (rule wp_like_rows)
    fix y :: "db world" assume "tabs y = tabs u"
    then show "wp (like_tx s acc vid (vid_author x) pop) (\<lambda>_ v. one_more_like vid acc (tabs w) (like_rows (tabs v))) (\<lambda>_ _. True) y"
      using wp_like_tx_rows [of s acc vid _ pop y] u by simp
  qed (intro rel_rules; simp)
  then show "wp (case r of None \<Rightarrow> throw ErrVideoNotFound
    | Some v \<Rightarrow> fail_if (\<not> IsPubliclyListed v) ErrVideoNotFound (
        let pop = (if \<not> ls_publisher s \<and> \<not> ls_popularity s then LikeWeight else 0) in
        bnd (transaction (like_tx s acc vid (vid_author v) pop)) (\<lambda>_.
        bnd (record_popularity s vid LikeWeight) (\<lambda>_.
        bnd (invalidate_detail (ls_detail s) (ls_local s) (ls_publisher s) vid) (\<lambda>_.
        bnd (whenever (ls_interest s) (call (InvalidateUser acc))) (\<lambda>_.
        record_interest (ls_recorder s) acc v))))))
      (\<lambda>_ v. one_more_like vid acc (tabs w) (like_rows (tabs v))) (\<lambda>_ _. True) u"
    by (cases r) (simp_all only: option.case Let_def wp_basic wp_if split: if_split, simp_all)
qed

lemma wp_unlike_video_rows:
  "wp (unlike_video s acc vid) (\<lambda>_ v. one_less_like vid acc (tabs w) (like_rows (tabs v))) (\<lambda>_ _. True) w"
  unfolding unlike_video_def
proof (rule wp_and_then)
  show "wp (video_by_id vid) (\<lambda>_ v. tabs v = tabs w) (\<lambda>_ _. True) w" by (simp add: video_by_id_def wp_rules)
  fix r and u :: "db world" assume u: "tabs u = tabs w"
  have "wp (bnd (transaction (unlike_tx s acc vid (vid_author x) pop)) (\<lambda>_.
        bnd (record_popularity s vid UnlikeWeight) (\<lambda>_.
        bnd (invalidate_detail (ls_detail s) (ls_local s) (ls_publisher s) vid) (\<lambda>_.
        whenever (ls_interest s) (call (InvalidateUser acc))))))
      (\<lambda>_ v. one_less_like vid acc (tabs w) (like_rows (tabs v))) (\<lambda>_ _. True) u" for x pop
  proof (rule wp_like_rows)
    fix y :: "db world" assume "tabs y = tabs u"
    then show "wp (unlike_tx s acc vid (vid_author x) pop) (\<lambda>_ v. one_less_like vid acc (tabs w) (like_rows (tabs v))) (\<lambda>_ _. True) y"
      using wp_unlike_tx_rows [of s acc vid _ pop y] u by simp
  qed (intro rel_rules)
  then show "wp (case r of None \<Rightarrow> throw ErrVideoNotFound
    | Some v \<Rightarrow> let pop = (if \<not> ls_publisher s \<and> \<not> ls_popularity s then UnlikeWeight else 0) in
        bnd (transaction (unlike_tx s acc vid (vid_author v) pop)) (\<lambda>_.
        bnd (record_popularity s vid UnlikeWeight) (\<lambda>_.
        bnd (invalidate_detail (ls_detail s) (ls_local s) (ls_publisher s) vid) (\<lambda>_.
        whenever (ls_interest s) (call (InvalidateUser acc))))))
      (\<lambda>_ v. one_less_like vid acc (tabs w) (like_rows (tabs v))) (\<lambda>_ _. True) u"
    by (cases r) (simp_all only: option.case Let_def wp_basic)
qed

lemma adjust_back:
  assumes "0 \<le> vid_likes v"
  shows "vid_likes (adjust_video (- 1) 0 b (adjust_video 1 0 a v)) = vid_likes v"
  using assms by (simp add: adjust_video_def add_clamped_def)

text \<open>C21 Taking a like back: an account that likes a video and then takes the like back leaves the table of likes
  and every video's count of likes as they were.\<close>

theorem unlike_undoes_like:
  assumes "like_video s acc vid w = (Inr (), v)" "unlike_video s' acc vid v = (Inr (), u)" "\<forall>x \<in> set (d_videos (tabs w)). 0 \<le> vid_likes x"
  shows "d_likes (tabs u) = d_likes (tabs w) \<and> map vid_likes (d_videos (tabs u)) = map vid_likes (d_videos (tabs w))"
proof -
  have more: "one_more_like vid acc (tabs w) (like_rows (tabs v))" by (rule wp_ok [OF wp_like_video_rows assms(1)])
  have less: "one_less_like vid acc (tabs v) (like_rows (tabs u))" by (rule wp_ok [OF wp_unlike_video_rows assms(2)])
  from more obtain l a where l: "\<forall>x \<in> set (d_likes (tabs w)). \<not> like_row vid acc x" "like_row vid acc l"
    "d_likes (tabs v) = d_likes (tabs w) @ [l]"
    "d_videos (tabs v) = update_where (\<lambda>x. vid_id x = vid) (adjust_video 1 0 a) (d_videos (tabs w))"
    unfolding one_more_like_def by blast
  from less obtain b where b: "d_likes (tabs u) = filter (\<lambda>l. \<not> like_row vid acc l) (d_likes (tabs v))"
    "d_videos (tabs u) = update_where (\<lambda>x. vid_id x = vid) (adjust_video (- 1) 0 b) (d_videos (tabs v))"
    unfolding one_less_like_def by blast
  have "d_likes (tabs u) = d_likes (tabs w)" using l(1,2) unfolding b(1) l(3) by (simp add: filter_True)
  moreover have "map vid_likes (d_videos (tabs u)) = map vid_likes (d_videos (tabs w))"
    unfolding b(2) l(4) update_where_def using assms(3) by (simp add: adjust_back)
  ultimately show ?thesis by simp
qed

section \<open>Events that are delivered twice\<close>

abbreviation seen :: "gostr \<Rightarrow> envelope \<Rightarrow> db world \<Rightarrow> bool" where
  "seen consumer ev w \<equiv> (consumer, ev_id ev) \<in> set (d_processed (tabs w))"

abbreviation idle :: "db world \<Rightarrow> db world \<Rightarrow> bool" where
  "idle w v \<equiv> tabs v = tabs w \<and> calls v = calls w"

lemma frame_rows [rel_rules]:
  "(\<And>d x. g (d\<lparr>d_likes := x\<rparr>) = g d) \<Longrightarrow> steps (frame g) (create_like vid acc)"
  "(\<And>d x. g (d\<lparr>d_likes := x\<rparr>) = g d) \<Longrightarrow> steps (frame g) (delete_like vid acc)"
  "(\<And>d x. g (d\<lparr>d_comments := x\<rparr>) = g d) \<Longrightarrow> steps (frame g) (insert_comment c)"
  "(\<And>d x. g (d\<lparr>d_comments := x\<rparr>) = g d) \<Longrightarrow> steps (frame g) (delete_by_id_or_root_id i)"
  unfolding create_like_def delete_like_def insert_comment_def delete_by_id_or_root_id_def by (intro rel_rules; simp)+

lemma once_again: "seen c ev w \<Longrightarrow> wp (once c ev nothing m) (\<lambda>x v. x = nothing \<and> idle w v) (\<lambda>_. idle w) w"
  by (simp add: once_def mark_processed_def wp_rules)

lemma wp_transaction_idle:
  "wp m (\<lambda>x v. P x \<and> idle w v) (\<lambda>_. idle w) (next_stmt w) \<Longrightarrow> wp (transaction m) (\<lambda>x v. P x \<and> idle w v) (\<lambda>_. idle w) w"
  by (auto simp: wp_transaction elim!: wp_mono)

lemma once_marks:
  assumes "steps (frame d_processed) m"
  shows "wp (once c ev nothing m) (\<lambda>_ v. seen c ev v) (\<lambda>_ _. True) w"
  unfolding once_def
proof (rule wp_and_then)
  show "wp (result_of (mark_processed c ev)) (\<lambda>r v. r = Inr () \<or> r = Inl ErrAlreadyProcessed \<longrightarrow> seen c ev v) (\<lambda>_ _. True) w"
    by (simp add: mark_processed_def wp_rules)
  fix r :: "err + unit" and v :: "db world" assume v: "r = Inr () \<or> r = Inl ErrAlreadyProcessed \<longrightarrow> seen c ev v"
  have "wp m (\<lambda>_ u. seen c ev u) (\<lambda>_ _. True) v" if "seen c ev v"
    using that stepsD [OF assms] by (intro wpI) auto
  with v show "wp (case r of Inr _ \<Rightarrow> m | Inl e \<Rightarrow> if e = ErrAlreadyProcessed then ret nothing else throw e)
      (\<lambda>_ u. seen c ev u) (\<lambda>_ _. True) v"
    by (cases r) (simp_all add: wp_basic)
qed

lemma txs_again:
  "seen like_worker ev w \<Longrightarrow> wp (liked_tx ev acc vid) (\<lambda>x v. \<not> x \<and> idle w v) (\<lambda>_. idle w) w"
  "seen like_worker ev w \<Longrightarrow> wp (unliked_tx ev acc vid) (\<lambda>x v. \<not> x \<and> idle w v) (\<lambda>_. idle w) w"
  "seen comment_worker ev w \<Longrightarrow> wp (comment_created_tx lo letter e ev c) (\<lambda>x v. \<not> x \<and> idle w v) (\<lambda>_. idle w) w"
  "seen comment_worker ev w \<Longrightarrow> wp (comment_deleted_tx e ev i vid) (\<lambda>x v. x = 0 \<and> idle w v) (\<lambda>_. idle w) w"
  unfolding liked_tx_def unliked_tx_def comment_created_tx_def comment_deleted_tx_def
  by (rule wp_mono [OF once_again]; simp)+

lemma txs_mark:
  "wp (liked_tx ev acc vid) (\<lambda>_ v. seen like_worker ev v) (\<lambda>_ _. True) w"
  "wp (unliked_tx ev acc vid) (\<lambda>_ v. seen like_worker ev v) (\<lambda>_ _. True) w"
  "wp (comment_created_tx lo letter e ev c) (\<lambda>_ v. seen comment_worker ev v) (\<lambda>_ _. True) w"
  "wp (comment_deleted_tx e ev i vid) (\<lambda>_ v. seen comment_worker ev v) (\<lambda>_ _. True) w"
  unfolding liked_tx_def unliked_tx_def comment_created_tx_def comment_deleted_tx_def
  by (rule once_marks; intro rel_rules; simp)+

lemma again_then:
  assumes "wp m (\<lambda>x v. P x \<and> idle w v) (\<lambda>_. idle w) (next_stmt w)" "\<And>x. P x \<Longrightarrow> f x = ret ()"
  shows "wp (bnd (transaction m) f) (\<lambda>_. idle w) (\<lambda>_. idle w) w"
  unfolding wp_bnd by (rule wp_mono [OF wp_transaction_idle [OF assms(1)]]) (auto simp: assms(2) wp_basic)

lemma handle_like_again: "seen like_worker ev w \<Longrightarrow> wp (handle_like e ev) (\<lambda>_. idle w) (\<lambda>_. idle w) w"
proof -
  assume s: "seen like_worker ev w"
  have "wp (bnd (transaction (liked_tx ev acc vid)) (after_like e vid a b)) (\<lambda>_. idle w) (\<lambda>_. idle w) w"
    "wp (bnd (transaction (unliked_tx ev acc vid)) (after_like e vid a b)) (\<lambda>_. idle w) (\<lambda>_. idle w) w" for acc vid a b
    using txs_again(1,2) [of ev "next_stmt w" acc vid] s by (auto intro!: again_then [where P = Not] simp: after_like_def)
  then show ?thesis
    by (simp add: handle_like_def handle_like_created_def handle_like_deleted_def wp_basic split: payload.split)
qed

lemma handle_comment_again: "seen comment_worker ev w \<Longrightarrow> wp (handle_comment lo letter e ev) (\<lambda>_. idle w) (\<lambda>_. idle w) w"
proof -
  assume s: "seen comment_worker ev w"
  have "wp (bnd (transaction (comment_created_tx lo letter e ev c)) (\<lambda>emit. whenever emit m)) (\<lambda>_. idle w) (\<lambda>_. idle w) w" for c m
    using txs_again(3) [of ev "next_stmt w" lo letter e c] s by (auto intro!: again_then [where P = Not])
  moreover have "wp (bnd (transaction (comment_deleted_tx e ev i vid)) (\<lambda>n. whenever (0 < n) (f n))) (\<lambda>_. idle w) (\<lambda>_. idle w) w" for i vid f
    using txs_again(4) [of ev "next_stmt w" e i vid] s by (auto intro!: again_then [where P = "\<lambda>n. n = 0"])
  ultimately show ?thesis
    by (simp add: handle_comment_def handle_comment_created_def handle_comment_deleted_def wp_basic split: payload.split)
qed

lemma marks_then:
  assumes "\<And>u. wp m (\<lambda>_ v. seen c ev v) (\<lambda>_ _. True) u" "\<And>x. steps (frame d_processed) (f x)"
  shows "wp (bnd (transaction m) f) (\<lambda>_ v. seen c ev v) (\<lambda>_ _. True) w"
proof (rule wp_then_frame [where g = d_processed and P = "\<lambda>p. (c, ev_id ev) \<in> set p"])
  show "wp (transaction m) (\<lambda>_ v. seen c ev v) (\<lambda>_ _. True) w" by (intro wp_transactionI) (simp_all add: assms(1))
qed (rule assms(2))

lemma handle_like_marks: "wp (handle_like e ev) (\<lambda>_ v. seen like_worker ev v) (\<lambda>_ _. True) w"
proof -
  have "wp (bnd (transaction (liked_tx ev acc vid)) (after_like e vid a b)) (\<lambda>_ v. seen like_worker ev v) (\<lambda>_ _. True) w"
    "wp (bnd (transaction (unliked_tx ev acc vid)) (after_like e vid a b)) (\<lambda>_ v. seen like_worker ev v) (\<lambda>_ _. True) w" for acc vid a b
    by (rule marks_then [OF txs_mark(1)] marks_then [OF txs_mark(2)], intro rel_rules)+
  then show ?thesis
    by (simp add: handle_like_def handle_like_created_def handle_like_deleted_def wp_basic split: payload.split)
qed

lemma handle_comment_marks: "wp (handle_comment lo letter e ev) (\<lambda>_ v. seen comment_worker ev v) (\<lambda>_ _. True) w"
proof -
  have "wp (bnd (transaction (comment_created_tx lo letter e ev c)) (\<lambda>emit. whenever emit (
        bnd (publish_popularity_changed (we_publisher e) (co_video c) CommentPublishWeight EventTypeCommentCreated) (\<lambda>_.
        bnd (invalidate_detail (we_detail e) False (we_publisher e) (co_video c)) (\<lambda>_.
        record_comment_interest (we_recorder e) (co_author c) (co_video c))))))
      (\<lambda>_ v. seen comment_worker ev v) (\<lambda>_ _. True) w" for c
    by (rule marks_then [OF txs_mark(3)]) (intro rel_rules; simp)
  moreover have "wp (bnd (transaction (comment_deleted_tx e ev i vid)) (\<lambda>n. whenever (0 < n) (
        bnd (publish_popularity_changed (we_publisher e) vid (CommentDeleteWeight * int n) EventTypeCommentDeleted) (\<lambda>_.
        invalidate_detail (we_detail e) False (we_publisher e) vid))))
      (\<lambda>_ v. seen comment_worker ev v) (\<lambda>_ _. True) w" for i vid
    by (rule marks_then [OF txs_mark(4)]) (intro rel_rules)
  ultimately show ?thesis
    by (simp add: handle_comment_def handle_comment_created_def handle_comment_deleted_def wp_basic split: payload.split)
qed


section \<open>Examples\<close>

text \<open>A site with one listed video, of author 1, and two comments under it: a root and a reply to it.\<close>

definition site_video :: video where
  "site_video = \<lparr>vid_id = 1, vid_author = 1, vid_username = lit ''a'', vid_title = lit ''t'', vid_description = [], vid_tags = [],
     vid_play_url = [], vid_cover_url = [], vid_likes = 0, vid_comments = 2, vid_popularity = 0, vid_audit = StatusApproved,
     vid_lifecycle = LifecyclePublished, vid_deleted_at = None, vid_created = 0\<rparr>"

definition demo_comment :: "nat \<Rightarrow> nat \<Rightarrow> comment" where
  "demo_comment i root = \<lparr>co_id = i, co_video = 1, co_root = root, co_parent = root, co_author = 2, co_username = lit ''b'',
     co_reply_to = 0, co_reply_name = [], co_content = lit ''c'', co_created = 0, co_updated = 0\<rparr>"

definition demo_site :: "db world" where
  "demo_site = quiet_world 0 (empty_db\<lparr>d_videos := [site_video],
     d_comments := [demo_comment 9007199254740993 0, demo_comment 9007199254740995 9007199254740993]\<rparr>)"

definition demo_likes :: like_svc where
  "demo_likes = \<lparr>ls_publisher = False, ls_popularity = True, ls_detail = False, ls_local = False, ls_notify = True,
     ls_interest = False, ls_recorder = False\<rparr>"

definition demo_like_event :: envelope where
  "demo_like_event = \<lparr>ev_id = lit ''e'', ev_type = EventTypeLikeCreated, ev_occurred = 0, ev_producer = [], ev_version = 1,
     ev_payload = LikePayload 2 1\<rparr>"

lemmas demo_defs = demo_site_def site_video_def demo_comment_def demo_likes_def demo_like_event_def quiet_world_def empty_db_def

lemmas run_defs = rand_read_def bnd_def ret_def throw_def lift_def result_of_def read_now_def call_def query_def exec_def exec_count_def
  exec_unique_def create_def create_at_def next_stmt_def transaction_def ignore_def Let_def

theorem nearest_comment_witness:
  "\<exists>c w'. find_by_resolvable_id (\<lambda>c. co_video c = 1) 9007199254740992 demo_site = (Inr (Some c), w')
     \<and> c \<in> set (d_comments (tabs demo_site)) \<and> uint64_distance (co_id c) 9007199254740992 \<le> 1024"
proof -
  have "\<exists>w'. find_by_resolvable_id (\<lambda>c. co_video c = 1) 9007199254740992 demo_site = (Inr (Some (demo_comment 9007199254740993 0)), w')"
    by (simp add: find_by_resolvable_id_def run_defs demo_defs maxJSSafeInteger_def comment_id_lookup_range_def
        commentIDLookupWindowJS_def maxUint64_def uint64_distance_def)
  then obtain w' where r: "find_by_resolvable_id (\<lambda>c. co_video c = 1) 9007199254740992 demo_site = (Inr (Some (demo_comment 9007199254740993 0)), w')" ..
  moreover have "\<forall>c \<in> set (d_comments (tabs demo_site)). co_id c \<le> maxUint64" by (simp add: demo_defs maxUint64_def)
  ultimately show ?thesis using nearest_comment [OF r] by (force simp: window_def maxJSSafeInteger_def commentIDLookupWindowJS_def)
qed

theorem comment_listing_witness:
  "\<exists>items w'. list_all_comments 1 demo_site = (Inr items, w') \<and> items = listing (tabs demo_site) 1 \<and> length items = 1"
proof -
  have "\<exists>items w'. list_all_comments 1 demo_site = (Inr items, w')"
    by (simp add: list_all_comments_def video_by_id_def find_root_comments_def find_replies_def run_defs demo_defs)
  then obtain items w' where r: "list_all_comments 1 demo_site = (Inr items, w')" by blast
  have "distinct (map co_id (d_comments (tabs demo_site)))" by (simp add: demo_defs)
  then have "items = listing (tabs demo_site) 1" by (rule comment_listing [OF r])
  moreover have "length (listing (tabs demo_site) 1) = 1" by (simp add: listing_def demo_defs)
  ultimately show ?thesis using r by simp
qed

lemmas like_defs = like_video_def unlike_video_def like_tx_def unlike_tx_def video_by_id_def find_like_def create_like_def delete_like_def
  adjust_counters_def apply_like_def retract_like_def popularity_event_def new_envelope_def new_event_id_def enqueue_def new_message_def
  record_popularity_def invalidate_detail_def record_interest_def find_by_dedup_def create_notice_def save_notice_def numeral_3_eq_3
  IsPubliclyListed_def IsDeleted_def EffectiveLifecycle_def IsPublic_def like_row_def adjust_video_def add_clamped_def blank_notice_def

theorem unlike_undoes_like_witness:
  "\<exists>v u. like_video demo_likes 2 1 demo_site = (Inr (), v) \<and> length (d_likes (tabs v)) = 1
     \<and> unlike_video demo_likes 2 1 v = (Inr (), u) \<and> d_likes (tabs u) = []"
proof -
  have "\<exists>v u. like_video demo_likes 2 1 demo_site = (Inr (), v) \<and> length (d_likes (tabs v)) = 1
     \<and> unlike_video demo_likes 2 1 v = (Inr (), u)"
    by (simp add: like_defs run_defs demo_defs update_where_def)
  then obtain v u where r: "like_video demo_likes 2 1 demo_site = (Inr (), v)" "length (d_likes (tabs v)) = 1"
    "unlike_video demo_likes 2 1 v = (Inr (), u)" by blast
  have "d_likes (tabs u) = d_likes (tabs demo_site)"
    using unlike_undoes_like [OF r(1,3)] by (simp add: demo_defs)
  with r show ?thesis by (auto simp: demo_defs)
qed

definition demo_worker :: worker_env where
  "demo_worker = \<lparr>we_detail = True, we_publisher = False, we_notify = False, we_recorder = False\<rparr>"


end
