(* ===== verification/Site.thy ===== *)
theory Site
  imports Video_Properties Engagement_Properties
begin

text \<open>
  The components that write videos, likes and comments together: what an author, a reviewer and the audit
  do with a video, what others do with its likes and comments, and the consumers of events. One step is one
  operation, with whatever the sources of the world answer. The invariant is the one of \<open>Engagement\<close>:
  the counters of a video are the numbers of its rows. Here the operations of the video service are shown to
  keep it, statement by statement.
\<close>

section \<open>The operations on videos keep the counters\<close>

definition same_counters :: "video \<Rightarrow> video \<Rightarrow> bool" where
  "same_counters v v' \<longleftrightarrow> vid_id v' = vid_id v \<and> vid_likes v' = vid_likes v \<and> vid_comments v' = vid_comments v"

lemma talk_ok_edit:
  assumes "talk_ok q (ls, cs, vs)" "\<And>v. same_counters v (f v)"
  shows "talk_ok q (ls, cs, update_where p f vs)" "talk_step (ls, cs, vs) (ls, cs, update_where p f vs)"
proof -
  have ids: "map vid_id (update_where p f vs) = map vid_id vs"
    by (rule map_update_where) (use assms(2) in \<open>simp add: same_counters_def\<close>)
  then have img: "vid_id ` set (update_where p f vs) = vid_id ` set vs" by (metis set_map)
  have "likes.counted ls (update_where p f vs) = likes.counted ls vs" "comments.counted cs (update_where p f vs) = comments.counted cs vs"
    by (rule likes.counted_cong comments.counted_cong, rule map_update_where, use assms(2) in \<open>simp add: same_counters_def\<close>)+
  moreover have "videos_ok q us \<longleftrightarrow> distinct (map vid_id us) \<and> (\<forall>i \<in> vid_id ` set us. i \<le> q Videos)" for us
    by (simp add: videos_ok_def)
  then have "videos_ok q (update_where p f vs) = videos_ok q vs" by (simp only: ids img)
  ultimately show "talk_ok q (ls, cs, update_where p f vs)"
    using assms(1) ids img by (simp add: talk_ok.simps likes_ok_def comments_ok_def)
  show "talk_step (ls, cs, vs) (ls, cs, update_where p f vs)" by (simp add: talk_step.simps img)
qed

lemma talk_ok_new:
  assumes "talk_ok q (ls, cs, vs)" "vid_id v = Suc (q Videos)" "vid_likes v = 0" "vid_comments v = 0" "q' = q(Videos := Suc (q Videos))"
  shows "talk_ok q' (ls, cs, vs @ [v])" "talk_step (ls, cs, vs) (ls, cs, vs @ [v])"
proof -
  have ok: "videos_ok q vs" "likes.counted ls vs" "comments.counted cs vs" "distinct (map like_pair ls)"
    "vl_video ` set ls \<subseteq> vid_id ` set vs" "co_video ` set cs \<subseteq> vid_id ` set vs"
    using assms(1) by (simp_all add: talk_ok.simps likes_ok_def comments_ok_def)
  have new: "vid_id v \<notin> vid_id ` set vs" using ok(1) assms(2) by (auto simp: videos_ok_def)
  have "\<forall>l \<in> set ls. vl_video l \<noteq> vid_id v" "\<forall>c \<in> set cs. co_video c \<noteq> vid_id v"
    using subsetD [OF ok(5)] subsetD [OF ok(6)] new by (metis imageI)+
  then have "likes.counted ls (vs @ [v])" "comments.counted cs (vs @ [v])"
    by (simp_all add: likes.counted_new [OF ok(2) assms(3)] comments.counted_new [OF ok(3) assms(4)])
  moreover have "videos_ok q' (vs @ [v])" using ok(1) new unfolding videos_ok_def assms(2,5) by (auto simp: assms(2))
  moreover have "vl_video ` set ls \<subseteq> vid_id ` set (vs @ [v])" "co_video ` set cs \<subseteq> vid_id ` set (vs @ [v])" using ok(5,6) by auto
  moreover have "q' VideoComments = q VideoComments" using assms(5) by simp
  ultimately show "talk_ok q' (ls, cs, vs @ [v])"
    using assms(1) ok(4) by (simp add: talk_ok.simps likes_ok_def comments_ok_def)
  show "talk_step (ls, cs, vs) (ls, cs, vs @ [v])" by (auto simp: talk_step.simps)
qed

lemma keeps_update_fields [rel_rules]: "(\<And>v. same_counters v (f v)) \<Longrightarrow> steps keeps_talk (update_fields i f)"
  unfolding update_fields_def by (rule talk.kept.steps_exec) (auto simp: keeps_def holds_def talk_ok_edit)

lemma keeps_update_status [rel_rules]: "steps keeps_talk (update_status i s)"
  unfolding update_status_def set_audit_def
  by (rule talk.kept.steps_exec) (auto simp: keeps_def holds_def same_counters_def intro!: talk_ok_edit)

lemma keeps_create_video [rel_rules]:
  assumes "vid_likes v = 0" "vid_comments v = 0"
  shows "steps keeps_talk (create_video v)"
  unfolding create_video_def Let_def
proof (intro talk.kept.steps_bnd talk.kept.steps_env talk.kept.steps_create)
  fix now and w w' :: "db world"
  assume w: "tabs w' = tabs w\<lparr>d_videos := d_videos (tabs w) @ [v\<lparr>vid_id := seqs w' Videos, vid_created := now\<rparr>]\<rparr>"
    "seqs w' = (seqs w)(Videos := Suc (seqs w Videos))"
  show "keeps_talk w w'"
    unfolding keeps_def holds_def using w assms talk_ok_new [OF _ _ _ _ w(2)] by (simp add: w(1))
qed

lemma frame_idem [rel_rules]:
  "(\<And>d x. g (d\<lparr>d_idem := x\<rparr>) = g d) \<Longrightarrow> steps (frame g) (create_processing acc key hash)"
  "(\<And>d x. g (d\<lparr>d_idem := x\<rparr>) = g d) \<Longrightarrow> steps (frame g) (mark_done i r v)"
  unfolding create_processing_def mark_done_def by (intro rel_rules; simp)+

lemma talk_reads [rel_rules]:
  "steps keeps_talk (owned_mutable acc i)" "steps keeps_talk (checked_urls s p c)" "steps keeps_talk (load_for_audit i)"
  "steps keeps_talk (find_promotable_draft acc i u)" "steps keeps_talk (find_draft_by_play_url acc u)" "steps keeps_talk (count_drafts acc)"
  "steps keeps_talk (find_by_scope acc key)" "steps keeps_talk (replay_published s k)" "steps keeps_talk (video_by_id i)"
  "steps keeps_talk (invalidate_detail_cache s i)" "steps keeps_talk (set_detail_not_found s i)"
  by (intro talk.untouched reads_video_queries reads_replay frame_video_by_id frame_video_calls)+

lemma keeps_writes [rel_rules]:
  "steps keeps_talk (create_processing acc key hash)" "steps keeps_talk (mark_done i r v)"
  "steps keeps_talk (enqueue_event ty p)" "steps keeps_talk (enqueue_on_publish i a)" "steps keeps_talk (enqueue_approved i a)"
  "steps keeps_talk (append_record rec)"
  by (rule talk.untouched, rule frame_idem frame_enqueue_event frame_video_rows, simp)+

lemmas keep_rules = talk_rules talk.kept.steps_transaction talk_reads keeps_writes keeps_update_fields keeps_update_status keeps_create_video

lemma keeps_video_ops:
  "steps keeps_talk (unpublish s acc i)" "steps keeps_talk (relist s acc i)" "steps keeps_talk (delete_video s acc i)"
  "steps keeps_talk (takedown_as s i op note md)"
  unfolding unpublish_def relist_def relist_tx_def delete_video_def takedown_as_def takedown_tx_def Let_def
  by (intro keep_rules; simp add: same_counters_def)+

lemma keeps_save_draft: "steps keeps_talk (save_draft s acc username req)"
  unfolding save_draft_def Let_def
  by (intro keep_rules; simp add: same_counters_def as_draft_def edit_video_def new_video_def)

lemma keeps_audit_ops: "steps keeps_talk (apply_verdict a t st src md op r)" "steps keeps_talk (moderate_video a i)"
  "steps keeps_talk (manual_review a op i approve note)"
proof -
  show v: "steps keeps_talk (apply_verdict a t st src md op r)" for t st src md op r
    unfolding apply_verdict_def apply_tx_def by (intro keep_rules)
  show "steps keeps_talk (moderate_video a i)" "steps keeps_talk (manual_review a op i approve note)"
    unfolding moderate_video_def manual_review_def Let_def by (intro keep_rules v)+
qed

lemma keeps_handle_audit: "steps keeps_talk (handle_audit a ev)"
  unfolding handle_audit_def by (simp split: payload.split) (intro conjI impI allI keep_rules keeps_audit_ops)

lemma keeps_publish: "steps keeps_talk (publish s acc username key req)"
  unfolding publish_def publish_tx_def promote_draft_def enqueue_after_create_def Let_def
  by (intro keep_rules; simp add: same_counters_def as_published_def edit_video_def new_video_def)

section \<open>The site\<close>

text \<open>What can happen: an operation of the three services or of their consumers, with any service struct, or
  anything that leaves videos, likes and comments alone. An event that is delivered is truthful: it names a
  video there is, a new comment names a thread of its video, a deletion the video of the comments it removes.\<close>

inductive site_step :: "db world \<Rightarrow> db world \<Rightarrow> bool" where
  site_like: "site_step w (snd (like_video ls acc i w))"
| site_unlike: "site_step w (snd (unlike_video ls acc i w))"
| site_like_event: "truthful w ev \<Longrightarrow> site_step w (snd (handle_like e ev w))"
| site_comment: "site_step w (snd (publish_comment lo letter cs acc username i parent content w))"
| site_uncomment: "site_step w (snd (delete_comment cs acc i w))"
| site_comment_event: "truthful w ev \<Longrightarrow> site_step w (snd (handle_comment lo letter e ev w))"
| site_save: "site_step w (snd (save_draft s acc username dreq w))"
| site_publish: "site_step w (snd (publish s acc username key preq w))"
| site_unpublish: "site_step w (snd (unpublish s acc i w))"
| site_relist: "site_step w (snd (relist s acc i w))"
| site_delete: "site_step w (snd (delete_video s acc i w))"
| site_takedown: "site_step w (snd (takedown_as s i operator note md w))"
| site_audit: "site_step w (snd (handle_audit a ev w))"
| site_review: "site_step w (snd (manual_review a operator i approve note w))"
| site_other: "talk_of (tabs w') = talk_of (tabs w) \<Longrightarrow> \<forall>t. seqs w t \<le> seqs w' t \<Longrightarrow> site_step w w'"

abbreviation site_steps :: "db world \<Rightarrow> db world \<Rightarrow> bool" where
  "site_steps \<equiv> site_step\<^sup>*\<^sup>*"

definition fresh_site :: "db world \<Rightarrow> bool" where
  "fresh_site w \<longleftrightarrow> talk_of (tabs w) = ([], [], [])"

lemma talking_steps: "steps keeps_talk m \<Longrightarrow> talking w \<Longrightarrow> talking (snd (m w))"
  by (simp add: steps_def keeps_def holds_def)

lemma talking_goes: "going w m w \<Longrightarrow> talking w \<Longrightarrow> talking (snd (m w))"
  using talk.goes_after [of w m] by (simp add: reached_def)

lemma site_step_talking: "site_step w w' \<Longrightarrow> talking w \<Longrightarrow> talking w'"
proof (induction rule: site_step.induct)
  case (site_other w' w)
  then show ?case using talk_ok_mono by metis
qed (auto intro: talking_steps talking_goes goes_like goes_unlike goes_handle_like goes_publish_comment goes_delete_comment
    goes_handle_comment keeps_save_draft keeps_publish keeps_video_ops keeps_handle_audit keeps_audit_ops)

lemma fresh_talking: "fresh_site w \<Longrightarrow> talking w"
  by (simp add: fresh_site_def talk_ok.simps videos_ok_def likes_ok_def comments_ok_def likes.counted_def comments.counted_def threads_ok_def)

lemma site_talking: "fresh_site w0 \<Longrightarrow> site_steps w0 w \<Longrightarrow> talking w"
proof -
  assume "fresh_site w0" "site_steps w0 w"
  from this(2) fresh_talking [OF this(1)] show "talking w" by induction (auto intro: site_step_talking)
qed

text \<open>C6 Exact counters: whatever the site has gone through, the count of likes and the count of comments that a
  video shows are the numbers of its rows, replies included.\<close>

theorem counters_exact:
  assumes "fresh_site w0" "site_steps w0 w" "v \<in> set (d_videos (tabs w))"
  shows "vid_likes v = int (length (filter (\<lambda>l. vl_video l = vid_id v) (d_likes (tabs w))))
    \<and> vid_comments v = int (length (filter (\<lambda>c. co_video c = vid_id v) (d_comments (tabs w))))"
proof -
  have "likes.counted (d_likes (tabs w)) (d_videos (tabs w))" "comments.counted (d_comments (tabs w)) (d_videos (tabs w))"
    using site_talking [OF assms(1,2)] by (simp_all add: talk_ok.simps likes_ok_def comments_ok_def)
  then show ?thesis using assms(3) by (simp add: likes.counted_get comments.counted_get tally_def)
qed

text \<open>C17 Well-formed rows: identifiers are unique, nobody likes a video twice, likes and comments belong to videos
  there are, a thread stays at one video, and the root of a reply is no reply.\<close>

theorem site_well_formed:
  assumes "fresh_site w0" "site_steps w0 w"
  shows "distinct (map vid_id (d_videos (tabs w))) \<and> distinct (map co_id (d_comments (tabs w)))
    \<and> distinct (map (\<lambda>l. (vl_video l, vl_account l)) (d_likes (tabs w)))
    \<and> vl_video ` set (d_likes (tabs w)) \<union> co_video ` set (d_comments (tabs w)) \<subseteq> vid_id ` set (d_videos (tabs w))
    \<and> (\<forall>x \<in> set (d_comments (tabs w)). \<forall>y \<in> set (d_comments (tabs w)). co_root x = co_id y \<longrightarrow> co_root y = 0 \<and> co_video x = co_video y)"
proof -
  let ?cs = "d_comments (tabs w)"
  have ok: "videos_ok (seqs w) (d_videos (tabs w))" "likes_ok (d_likes (tabs w)) (d_videos (tabs w))"
    "comments_ok (seqs w) ?cs (d_videos (tabs w))"
    using site_talking [OF assms] by (simp_all add: talk_ok.simps)
  have "co_video x = co_video y" if xy: "x \<in> set ?cs" "y \<in> set ?cs" "co_root x = co_id y" for x y
  proof -
    have "0 < co_id y" "co_root y = 0" using ok(3) xy unfolding comments_ok_def threads_ok_def by blast+
    then have "thread_of x = thread_of y" using xy(3) by (simp add: thread_of_def)
    then show ?thesis using ok(3) xy(1,2) unfolding comments_ok_def threads_ok_def by blast
  qed
  moreover have "co_root y = 0" if "x \<in> set ?cs" "y \<in> set ?cs" "co_root x = co_id y" for x y
    using ok(3) that unfolding comments_ok_def threads_ok_def by blast
  ultimately have "\<forall>x \<in> set ?cs. \<forall>y \<in> set ?cs. co_root x = co_id y \<longrightarrow> co_root y = 0 \<and> co_video x = co_video y" by blast
  moreover have "distinct (map vid_id (d_videos (tabs w)))" "distinct (map co_id ?cs)" "distinct (map like_pair (d_likes (tabs w)))"
    "vl_video ` set (d_likes (tabs w)) \<subseteq> vid_id ` set (d_videos (tabs w))" "co_video ` set ?cs \<subseteq> vid_id ` set (d_videos (tabs w))"
    using ok by (simp_all add: videos_ok_def likes_ok_def comments_ok_def)
  ultimately show ?thesis unfolding like_pair_def [abs_def] by (intro conjI Un_least)
qed

section \<open>Example\<close>

text \<open>The published and approved video of \<open>Video_Properties\<close>, liked by account 2 and commented by account 3.\<close>

definition demo_comments :: comment_svc where
  "demo_comments = \<lparr>cs_publisher = None, cs_popularity = True, cs_detail = False, cs_notify = False, cs_recorder = False\<rparr>"

definition demo_liked :: "db world" where "demo_liked = snd (like_video demo_likes 2 1 demo_approved)"
definition demo_talked :: "db world" where
  "demo_talked = snd (publish_comment (\<lambda>r. r) (\<lambda>_. True) demo_comments 3 (lit ''c'') 1 0 (lit ''hi'') demo_liked)"

lemma demo_approved_rows: "d_likes (tabs demo_approved) = []" "d_notifs (tabs demo_approved) = []" "d_comments (tabs demo_approved) = []"
  "faults demo_approved = (\<lambda>_. False)"
proof -
  have w: "d_likes (tabs demo_published) = [] \<and> d_notifs (tabs demo_published) = [] \<and> d_comments (tabs demo_published) = []"
    by (simp add: demo_published_def publish_defs)
  show "d_likes (tabs demo_approved) = []" "d_notifs (tabs demo_approved) = []" "d_comments (tabs demo_approved) = []"
    "faults demo_approved = (\<lambda>_. False)"
    by (simp_all add: demo_approved_def handle_audit_def demo_event_def audit_defs w)
qed

lemma demo_talked: "length (d_likes (tabs demo_talked)) = 1" "length (d_comments (tabs demo_talked)) = 1"
  "\<exists>v. d_videos (tabs demo_talked) = [v] \<and> vid_id v = 1"
  by (simp_all add: demo_talked_def demo_liked_def publish_comment_def publish_sync_def publish_comment_tx_def create_comment_def
      apply_comment_def demo_comments_def fanout_of_def record_comment_interest_def like_defs run_defs demo_approved demo_approved_rows demo_likes_def demo_row_def update_where_def)

lemma demo_talked_steps: "site_steps shelf_start demo_talked"
proof -
  have "site_step shelf_start demo_published" "site_step demo_published demo_approved" "site_step demo_approved demo_liked"
    "site_step demo_liked demo_talked"
    unfolding demo_published_def demo_approved_def demo_liked_def demo_talked_def by (rule site_step.intros)+
  then show ?thesis by (meson converse_rtranclp_into_rtranclp rtranclp.rtrancl_refl)
qed

lemma demo_fresh_site: "fresh_site shelf_start"
  by (simp add: fresh_site_def shelf_start_def quiet_world_def empty_db_def)

theorem counters_exact_witness:
  "\<exists>v. d_videos (tabs demo_talked) = [v] \<and> vid_likes v = int (length (filter (\<lambda>l. vl_video l = 1) (d_likes (tabs demo_talked))))
     \<and> length (d_likes (tabs demo_talked)) = 1 \<and> length (d_comments (tabs demo_talked)) = 1"
proof -
  obtain v where v: "d_videos (tabs demo_talked) = [v]" "vid_id v = 1" using demo_talked(3) by blast
  then show ?thesis using counters_exact [OF demo_fresh_site demo_talked_steps, of v] demo_talked(1,2) by simp
qed

theorem site_well_formed_witness:
  "distinct (map co_id (d_comments (tabs demo_talked))) \<and> co_video ` set (d_comments (tabs demo_talked)) \<subseteq> {1}"
proof -
  obtain v where "d_videos (tabs demo_talked) = [v]" "vid_id v = 1" using demo_talked(3) by blast
  then show ?thesis using site_well_formed [OF demo_fresh_site demo_talked_steps] by simp
qed

end
