(* ===== verification/Video_Detail.thy ===== *)
theory Video_Detail
  imports Video_Properties
begin

text \<open>
  The detail page of a video (\<open>internal/video/service.go\<close>, from \<open>GetDetail\<close> on): the read through the
  cache of the process (L1, \<open>local_detail_cache.go\<close>) and Redis (L2, \<open>detail_cache.go\<close>), what a
  viewer may see, and the consumer of the broadcast that empties L1 (\<open>invalidation_consumer.go\<close>). The
  caches are explicit: a program takes them and answers the next ones. Either cache may lose an entry at any
  time; \<open>redis_down\<close> tells which uses of Redis fail. A payload that cannot be parsed is
  \<open>CachedGarbage\<close>. \<open>singleflight\<close> only shares the answer of one load, so one request is modelled.
\<close>

section \<open>The caches\<close>

datatype cached = CachedVideo video | CachedNotFound | CachedGarbage

record caches =
  local_detail :: "nat \<Rightarrow> cached option"
  redis_detail :: "nat \<Rightarrow> cached option"
  redis_down :: "nat \<Rightarrow> bool"
  redis_uses :: nat

definition set_local :: "nat \<Rightarrow> cached option \<Rightarrow> caches \<Rightarrow> caches" where
  "set_local i x c = c\<lparr>local_detail := (local_detail c)(i := x)\<rparr>"

text \<open>\<open>SET\<close> and \<open>DEL\<close>: an error is logged or dropped.\<close>

definition redis_put :: "nat \<Rightarrow> cached option \<Rightarrow> caches \<Rightarrow> caches" where
  "redis_put i x c = (if redis_down c (redis_uses c) then c\<lparr>redis_uses := Suc (redis_uses c)\<rparr>
     else c\<lparr>redis_detail := (redis_detail c)(i := x), redis_uses := Suc (redis_uses c)\<rparr>)"

definition redis_get :: "nat \<Rightarrow> caches \<Rightarrow> (unit + cached option) \<times> caches" where
  "redis_get i c = ((if redis_down c (redis_uses c) then Inl () else Inr (redis_detail c i)), c\<lparr>redis_uses := Suc (redis_uses c)\<rparr>)"

section \<open>Reading the caches\<close>

datatype lookup = Hit video | HitNotFound | Miss | Failed

definition from_local :: "video_svc \<Rightarrow> nat \<Rightarrow> caches \<Rightarrow> lookup \<times> caches" where
  "from_local s i c = (if \<not> vs_local s then (Miss, c) else case local_detail c i of
      None \<Rightarrow> (Miss, c)
    | Some CachedNotFound \<Rightarrow> (HitNotFound, c)
    | Some CachedGarbage \<Rightarrow> (Miss, set_local i None c)
    | Some (CachedVideo v) \<Rightarrow> if is_playable (vs_url_path s) v then (Hit v, c) else (Miss, set_local i None c))"

definition fill_local :: "video_svc \<Rightarrow> nat \<Rightarrow> cached \<Rightarrow> caches \<Rightarrow> caches" where
  "fill_local s i x c = (if vs_local s then set_local i (Some x) c else c)"

definition from_redis :: "video_svc \<Rightarrow> nat \<Rightarrow> caches \<Rightarrow> lookup \<times> caches" where
  "from_redis s i c = (if \<not> vs_detail s then (Miss, c) else case redis_get i c of
      (Inl _, c) \<Rightarrow> (Failed, c)
    | (Inr None, c) \<Rightarrow> (Miss, c)
    | (Inr (Some CachedNotFound), c) \<Rightarrow> (HitNotFound, fill_local s i CachedNotFound c)
    | (Inr (Some CachedGarbage), c) \<Rightarrow> (Failed, redis_put i None c)
    | (Inr (Some (CachedVideo v)), c) \<Rightarrow> if is_playable (vs_url_path s) v then (Hit v, fill_local s i (CachedVideo v) c)
        else (Miss, redis_put i None c))"

definition get_detail_from_caches :: "video_svc \<Rightarrow> nat \<Rightarrow> caches \<Rightarrow> lookup \<times> caches" where
  "get_detail_from_caches s i c = (case from_local s i c of
      (Hit v, c) \<Rightarrow> (Hit v, c) | (HitNotFound, c) \<Rightarrow> (HitNotFound, c) | (_, c) \<Rightarrow> from_redis s i c)"

definition cache_detail :: "video_svc \<Rightarrow> nat \<Rightarrow> cached \<Rightarrow> caches \<Rightarrow> caches" where
  "cache_detail s i x c = fill_local s i x (if vs_detail s then redis_put i (Some x) c else c)"

section \<open>The detail page\<close>

definition visible_to :: "video \<Rightarrow> nat \<Rightarrow> bool" where
  "visible_to v viewer \<longleftrightarrow> \<not> IsDeleted v \<and> (IsPubliclyListed v \<or> viewer \<noteq> 0 \<and> viewer = vid_author v)"

text \<open>\<open>scores\<close> is the answer of the popularity service, \<open>None\<close> without one or for its error.\<close>

definition load_detail :: "video_svc \<Rightarrow> (nat \<Rightarrow> int option) \<Rightarrow> nat \<Rightarrow> caches \<Rightarrow> db world \<Rightarrow> (err + video option) \<times> caches \<times> db world" where
  "load_detail s scores i c w = (case get_detail_from_caches s i c of
      (Hit v, c) \<Rightarrow> (Inr (Some v), c, w)
    | (HitNotFound, c) \<Rightarrow> (Inr None, c, w)
    | (_, c) \<Rightarrow> (case video_by_id i w of
        (Inl e, w) \<Rightarrow> (Inl e, c, w)
      | (Inr None, w) \<Rightarrow> (Inr None, cache_detail s i CachedNotFound c, w)
      | (Inr (Some v), w) \<Rightarrow> if \<not> is_playable (vs_url_path s) v then (Inr None, cache_detail s i CachedNotFound c, w) else
          let v = (if vs_popularity s then (case scores i of None \<Rightarrow> v | Some n \<Rightarrow> v\<lparr>vid_popularity := n\<rparr>) else v) in
          (Inr (Some v), cache_detail s i (CachedVideo v) c, w)))"

definition shown :: "nat \<Rightarrow> video option \<Rightarrow> err + video" where
  "shown viewer r = (case r of None \<Rightarrow> Inl ErrVideoNotFound
     | Some v \<Rightarrow> if visible_to v viewer then Inr v else Inl ErrVideoNotFound)"

definition get_detail :: "video_svc \<Rightarrow> (nat \<Rightarrow> int option) \<Rightarrow> nat \<Rightarrow> nat \<Rightarrow> caches \<Rightarrow> db world \<Rightarrow> (err + video) \<times> caches \<times> db world" where
  "get_detail s scores viewer i c w = (case get_detail_from_caches s i c of
      (Hit v, c) \<Rightarrow> (shown viewer (Some v), c, w)
    | (HitNotFound, c) \<Rightarrow> (Inl ErrVideoNotFound, c, w)
    | (_, c) \<Rightarrow> (case load_detail s scores i c w of
        (Inl e, c, w) \<Rightarrow> (Inl e, c, w)
      | (Inr r, c, w) \<Rightarrow> (shown viewer r, c, w)))"

text \<open>\<open>LoadForReport\<close>: the author of a video the viewer can see.\<close>

definition load_for_report :: "video_svc \<Rightarrow> (nat \<Rightarrow> int option) \<Rightarrow> nat \<Rightarrow> nat \<Rightarrow> caches \<Rightarrow> db world \<Rightarrow> (err + nat option) \<times> caches \<times> db world" where
  "load_for_report s scores viewer i c w = (case get_detail s scores viewer i c w of
      (Inl e, c, w) \<Rightarrow> ((if e = ErrVideoNotFound then Inr None else Inl e), c, w)
    | (Inr v, c, w) \<Rightarrow> (Inr (Some (vid_author v)), c, w))"

section \<open>Invalidation\<close>

text \<open>What the calls the services make do to the caches of the process; a broadcast does nothing until it is
  delivered.\<close>

fun apply_call :: "ext_call \<Rightarrow> caches \<Rightarrow> caches" where
  "apply_call (DetailCacheDelete i) c = redis_put i None c"
| "apply_call (DetailCacheSetNotFound i) c = redis_put i (Some CachedNotFound) c"
| "apply_call (LocalDetailDelete i) c = set_local i None c"
| "apply_call (LocalDetailSetNotFound i) c = set_local i (Some CachedNotFound) c"
| "apply_call _ c = c"

definition handle_invalidated :: "bool \<Rightarrow> envelope \<Rightarrow> caches \<Rightarrow> (err + unit) \<times> caches" where
  "handle_invalidated local ev c = (if ev_type ev \<noteq> EventTypeCacheInvalidated then (Inr (), c) else
     case ev_payload ev of
       CacheInvalidated name i \<Rightarrow> if name \<noteq> CacheNameVideoDetail then (Inr (), c)
         else if i = 0 then (Inl ErrOther, c)
         else (Inr (), if local then set_local i None c else c)
     | _ \<Rightarrow> (Inl ErrOther, c))"

section \<open>Caches that agree with the table\<close>

definition faithful :: "video_svc \<Rightarrow> video option \<Rightarrow> cached \<Rightarrow> bool" where
  "faithful s r x = (case x of
      CachedVideo v \<Rightarrow> (\<exists>u. r = Some u \<and> core u = core v)
    | CachedNotFound \<Rightarrow> (case r of None \<Rightarrow> True | Some u \<Rightarrow> \<not> is_playable (vs_url_path s) u)
    | CachedGarbage \<Rightarrow> True)"

abbreviation row_of :: "video list \<Rightarrow> nat \<Rightarrow> video option" where
  "row_of vs i \<equiv> find (\<lambda>v. vid_id v = i) vs"

definition coherent :: "video_svc \<Rightarrow> caches \<Rightarrow> video list \<Rightarrow> bool" where
  "coherent s c vs \<longleftrightarrow> (\<forall>i x. local_detail c i = Some x \<or> redis_detail c i = Some x \<longrightarrow> faithful s (row_of vs i) x)"

text \<open>The page without caches.\<close>

definition detail_of :: "video_svc \<Rightarrow> nat \<Rightarrow> nat \<Rightarrow> video list \<Rightarrow> video option" where
  "detail_of s viewer i vs = (case row_of vs i of None \<Rightarrow> None
     | Some v \<Rightarrow> if is_playable (vs_url_path s) v \<and> visible_to v viewer then Some v else None)"

lemma core_visible: "core u = core v \<Longrightarrow> visible_to u viewer = visible_to v viewer"
proof -
  have c: "visible_to v viewer = visible_to (core v) viewer" for v
    by (simp add: visible_to_def core_def IsDeleted_def IsPubliclyListed_def EffectiveLifecycle_def)
  assume "core u = core v"
  then show ?thesis using c [of u] c [of v] by simp
qed

lemma core_playable: "core u = core v \<Longrightarrow> is_playable p u = is_playable p v"
proof -
  have c: "is_playable p v = is_playable p (core v)" for v by (simp add: is_playable_def core_def)
  assume "core u = core v"
  then show ?thesis using c [of u] c [of v] by simp
qed

lemma coherent_put:
  assumes "coherent s c vs" "\<And>y. x = Some y \<Longrightarrow> faithful s (row_of vs i) y"
  shows "coherent s (set_local i x c) vs" "coherent s (redis_put i x c) vs"
  using assms by (auto simp: coherent_def set_local_def redis_put_def)

lemma coherent_uses: "coherent s c vs \<Longrightarrow> coherent s (c\<lparr>redis_uses := n\<rparr>) vs"
  by (simp add: coherent_def)

lemma coherent_fill: "coherent s c vs \<Longrightarrow> faithful s (row_of vs i) x \<Longrightarrow> coherent s (fill_local s i x c) vs"
  "coherent s c vs \<Longrightarrow> faithful s (row_of vs i) x \<Longrightarrow> coherent s (cache_detail s i x c) vs"
  by (auto simp: fill_local_def cache_detail_def intro!: coherent_put)

text \<open>What an answer of the caches says about the row.\<close>

definition tells_row :: "video_svc \<Rightarrow> video option \<Rightarrow> lookup \<Rightarrow> bool" where
  "tells_row s r l = (case l of
      Hit v \<Rightarrow> (\<exists>u. r = Some u \<and> core u = core v \<and> is_playable (vs_url_path s) u)
    | HitNotFound \<Rightarrow> (case r of None \<Rightarrow> True | Some u \<Rightarrow> \<not> is_playable (vs_url_path s) u)
    | _ \<Rightarrow> True)"

lemma tells_faithful:
  "faithful s r (CachedVideo v) \<Longrightarrow> is_playable (vs_url_path s) v \<Longrightarrow> tells_row s r (Hit v)"
  "faithful s r CachedNotFound \<Longrightarrow> tells_row s r HitNotFound"
  "tells_row s r Miss" "tells_row s r Failed"
  unfolding faithful_def tells_row_def cached.case lookup.case by (blast dest: core_playable)+

lemma from_local_tells:
  assumes "coherent s c vs" "from_local s i c = (l, c')"
  shows "tells_row s (row_of vs i) l \<and> coherent s c' vs"
proof (cases "vs_local s \<and> local_detail c i \<noteq> None")
  case True
  then obtain x where x: "vs_local s" "local_detail c i = Some x" by blast
  have f: "faithful s (row_of vs i) x" using assms(1) x(2) by (simp add: coherent_def)
  have gone: "coherent s (set_local i None c) vs" using assms(1) by (rule coherent_put) simp
  show ?thesis
  proof (cases x)
    case (CachedVideo v)
    then show ?thesis
      using assms x f gone tells_faithful by (cases "is_playable (vs_url_path s) v") (auto simp: from_local_def)
  qed (use assms x f gone tells_faithful in \<open>auto simp: from_local_def\<close>)
qed (use assms tells_faithful in \<open>auto simp: from_local_def split: if_splits\<close>)

lemma from_redis_tells:
  assumes "coherent s c vs" "from_redis s i c = (l, c')"
  shows "tells_row s (row_of vs i) l \<and> coherent s c' vs"
proof -
  let ?c = "c\<lparr>redis_uses := Suc (redis_uses c)\<rparr>"
  have c: "coherent s ?c vs" using assms(1) by (rule coherent_uses)
  then have gone: "coherent s (redis_put i None ?c) vs" by (rule coherent_put) simp
  show ?thesis
  proof (cases "vs_detail s \<and> \<not> redis_down c (redis_uses c) \<and> redis_detail c i \<noteq> None")
    case True
    then obtain x where x: "vs_detail s" "\<not> redis_down c (redis_uses c)" "redis_detail c i = Some x" by blast
    have f: "faithful s (row_of vs i) x" using assms(1) x(3) by (simp add: coherent_def)
    have fill: "coherent s (fill_local s i x ?c) vs" using c f by (rule coherent_fill)
    show ?thesis
    proof (cases x)
      case (CachedVideo v)
      then show ?thesis
        using assms x f c gone fill tells_faithful by (cases "is_playable (vs_url_path s) v") (auto simp: from_redis_def redis_get_def)
    qed (use assms x f c gone fill tells_faithful in \<open>auto simp: from_redis_def redis_get_def\<close>)
  qed (use assms c tells_faithful in \<open>auto simp: from_redis_def redis_get_def split: if_splits\<close>)
qed

lemma caches_tell:
  assumes "coherent s c vs" "get_detail_from_caches s i c = (l, c')"
  shows "tells_row s (row_of vs i) l \<and> coherent s c' vs"
proof (cases "from_local s i c")
  case (Pair k d)
  have d: "tells_row s (row_of vs i) k \<and> coherent s d vs" by (rule from_local_tells [OF assms(1) Pair])
  show ?thesis
  proof (cases k)
    case (Hit v)
    with assms(2) d Pair show ?thesis by (simp add: get_detail_from_caches_def)
  next
    case HitNotFound
    with assms(2) d Pair show ?thesis by (simp add: get_detail_from_caches_def)
  next
    case Miss
    with assms(2) Pair have "from_redis s i d = (l, c')" by (simp add: get_detail_from_caches_def)
    with d show ?thesis by (intro from_redis_tells) simp_all
  next
    case Failed
    with assms(2) Pair have "from_redis s i d = (l, c')" by (simp add: get_detail_from_caches_def)
    with d show ?thesis by (intro from_redis_tells) simp_all
  qed
qed

text \<open>What a load or a page answers about the row.\<close>

definition loads_row :: "video_svc \<Rightarrow> video option \<Rightarrow> video option \<Rightarrow> bool" where
  "loads_row s r x = (case x of Some v \<Rightarrow> (\<exists>u. r = Some u \<and> core u = core v \<and> is_playable (vs_url_path s) u)
     | None \<Rightarrow> (case r of None \<Rightarrow> True | Some u \<Rightarrow> \<not> is_playable (vs_url_path s) u))"

lemma load_detail_tells:
  assumes "coherent s c (d_videos (tabs w))" "load_detail s scores i c w = (r, c', w')"
  shows "coherent s c' (d_videos (tabs w)) \<and> tabs w' = tabs w
    \<and> (case r of Inl e \<Rightarrow> e = DbFault | Inr x \<Rightarrow> loads_row s (row_of (d_videos (tabs w)) i) x)"
proof -
  let ?r = "row_of (d_videos (tabs w)) i"
  obtain l d where ld: "get_detail_from_caches s i c = (l, d)" by fastforce
  have d: "tells_row s ?r l" "coherent s d (d_videos (tabs w))" using caches_tell [OF assms(1) ld] by simp_all
  have put: "faithful s ?r x \<Longrightarrow> coherent s (cache_detail s i x d) (d_videos (tabs w))" for x
    using d(2) by (rule coherent_fill)
  have db: "video_by_id i w = (if faults w (stmts w) then Inl DbFault else Inr ?r, next_stmt w)"
    by (simp add: video_by_id_def query_def)
  define score :: "video \<Rightarrow> video" where "score = (\<lambda>v. if vs_popularity s then (case scores i of None \<Rightarrow> v | Some n \<Rightarrow> v\<lparr>vid_popularity := n\<rparr>) else v)"
  have core: "core (score v) = core v" for v :: video by (simp add: score_def core_def split: option.split)
  have miss: ?thesis if miss: "l = Miss \<or> l = Failed"
  proof (cases "faults w (stmts w)")
    case True
    with miss assms(2) ld db d show ?thesis by (auto simp: load_detail_def)
  next
    case up: False
    show ?thesis
    proof (cases "\<exists>v. ?r = Some v \<and> is_playable (vs_url_path s) v")
      case True
      then obtain v where v: "?r = Some v" "is_playable (vs_url_path s) v" by blast
      then have "(r, c', w') = (Inr (Some (score v)), cache_detail s i (CachedVideo (score v)) d, next_stmt w)"
        using miss assms(2) ld up db by (auto simp: load_detail_def score_def Let_def)
      then show ?thesis using put [of "CachedVideo (score v)"] v by (simp add: faithful_def loads_row_def core)
    next
      case False
      then have "(r, c', w') = (Inr None, cache_detail s i CachedNotFound d, next_stmt w)"
        using miss assms(2) ld up db by (cases ?r) (auto simp: load_detail_def)
      then show ?thesis using put [of CachedNotFound] False by (auto simp: faithful_def loads_row_def split: option.split)
    qed
  qed
  show ?thesis
  proof (cases l)
    case (Hit v)
    with assms(2) ld d show ?thesis by (auto simp: load_detail_def tells_row_def loads_row_def)
  next
    case HitNotFound
    with assms(2) ld d show ?thesis by (auto simp: load_detail_def tells_row_def loads_row_def)
  next
    case Miss
    show ?thesis by (rule miss) (simp add: Miss)
  next
    case Failed
    show ?thesis by (rule miss) (simp add: Failed)
  qed
qed

lemma shown_row:
  assumes "loads_row s (row_of vs i) x"
  shows "case shown viewer x of Inr v \<Rightarrow> (\<exists>u. detail_of s viewer i vs = Some u \<and> core u = core v)
    | Inl e \<Rightarrow> e = ErrVideoNotFound \<and> detail_of s viewer i vs = None"
proof (cases x)
  case (Some v)
  then obtain u where u: "row_of vs i = Some u" "core u = core v" "is_playable (vs_url_path s) u"
    using assms by (auto simp: loads_row_def)
  with Some core_visible [OF u(2), of viewer] show ?thesis by (simp add: shown_def detail_of_def)
qed (use assms in \<open>auto simp: loads_row_def shown_def detail_of_def split: option.splits\<close>)

lemma detail_transparent:
  assumes "coherent s c (d_videos (tabs w))" "get_detail s scores viewer i c w = (r, c', w')"
  shows "coherent s c' (d_videos (tabs w')) \<and> tabs w' = tabs w \<and> (case r of
      Inr v \<Rightarrow> (\<exists>u. detail_of s viewer i (d_videos (tabs w)) = Some u \<and> core u = core v)
    | Inl e \<Rightarrow> e = DbFault \<or> e = ErrVideoNotFound \<and> detail_of s viewer i (d_videos (tabs w)) = None)"
proof -
  let ?vs = "d_videos (tabs w)"
  obtain l d where ld: "get_detail_from_caches s i c = (l, d)" by fastforce
  have d: "tells_row s (row_of ?vs i) l" "coherent s d ?vs" using caches_tell [OF assms(1) ld] by simp_all
  obtain r1 d1 w1 where load: "load_detail s scores i d w = (r1, d1, w1)" by (metis prod_cases3)
  note told = load_detail_tells [OF d(2) load]
  have miss: ?thesis if "l = Miss \<or> l = Failed"
  proof (cases r1)
    case (Inl e)
    with that assms(2) ld load told show ?thesis by (auto simp: get_detail_def)
  next
    case (Inr x)
    then have "(r, c', w') = (shown viewer x, d1, w1)" using that assms(2) ld load by (auto simp: get_detail_def)
    moreover have "loads_row s (row_of ?vs i) x" using told Inr by simp
    ultimately show ?thesis using told shown_row [where s = s and vs = ?vs and i = i and x = x and viewer = viewer] by (auto split: sum.splits)
  qed
  show ?thesis
  proof (cases l)
    case (Hit v)
    with d(1) have "loads_row s (row_of ?vs i) (Some v)" by (simp add: tells_row_def loads_row_def)
    moreover have "(r, c', w') = (shown viewer (Some v), d, w)" using Hit assms(2) ld by (simp add: get_detail_def)
    ultimately show ?thesis using d(2) shown_row [where s = s and vs = ?vs and i = i and x = "Some v" and viewer = viewer] by (auto split: sum.splits)
  next
    case HitNotFound
    with d(1) have "loads_row s (row_of ?vs i) None" by (simp add: tells_row_def loads_row_def)
    moreover have "(r, c', w') = (Inl ErrVideoNotFound, d, w)" using HitNotFound assms(2) ld by (simp add: get_detail_def)
    ultimately show ?thesis using d(2) shown_row [where s = s and vs = ?vs and i = i and x = None and viewer = viewer] by (simp add: shown_def)
  next
    case Miss
    show ?thesis by (rule miss) (simp add: Miss)
  next
    case Failed
    show ?thesis by (rule miss) (simp add: Failed)
  qed
qed


text \<open>C26 The caches are transparent: as long as they agree with the table up to counters, the detail page
  answers what the table says without them, a video the viewer may see or that there is none, it
  writes no table, and the caches agree with the table afterwards. Redis may fail at any use, and either
  cache may have lost anything.\<close>

theorem detail_is_transparent:
  assumes "coherent s c (d_videos (tabs w))" "get_detail s scores viewer i c w = (r, c', w')"
  shows "coherent s c' (d_videos (tabs w')) \<and> tabs w' = tabs w \<and> (case r of
      Inr v \<Rightarrow> (\<exists>u. detail_of s viewer i (d_videos (tabs w)) = Some u \<and> core u = core v)
    | Inl e \<Rightarrow> e = DbFault \<or> e = ErrVideoNotFound \<and> detail_of s viewer i (d_videos (tabs w)) = None)"
  by (rule detail_transparent [OF assms])

lemma get_detail_world:
  assumes "get_detail s scores viewer i c w = (r, c', w')"
  shows "w' = w \<or> w' = snd (video_by_id i w)"
proof -
  have load: "v = w \<or> v = snd (video_by_id i w)" if "load_detail s scores i d w = (x, e, v)" for d x e v
    using that by (auto simp: load_detail_def Let_def split: prod.splits lookup.splits sum.splits option.splits if_splits)
  show ?thesis
  proof (cases "get_detail_from_caches s i c")
    case (Pair l d)
    then show ?thesis
      using assms load [of d] by (cases "load_detail s scores i d w"; cases l) (auto simp: get_detail_def split: sum.splits)
  qed
qed

section \<open>Takedown\<close>

definition invalidation :: "video_svc \<Rightarrow> nat \<Rightarrow> ext_call list" where
  "invalidation s i = (if vs_detail s then [DetailCacheDelete i] else []) @ (if vs_publisher s then [PublishInvalidated i] else [])"

lemma wp_invalidate: "wp (invalidate_detail_cache s i) (\<lambda>_ x. tabs x = tabs w \<and> calls x = calls w @ invalidation s i) E w"
  by (simp add: invalidate_detail_cache_def invalidation_def wp_bnd wp_basic)

lemma wp_takedown_effect:
  "wp (takedown_as s i operator note md) (\<lambda>_ x. d_videos (tabs x) = set_audit i StatusRejected (d_videos (tabs w))
     \<and> calls x = calls w @ invalidation s i) (\<lambda>_ _. True) w"
  unfolding takedown_as_def
proof (rule wp_and_then)
  show "wp (video_by_id i) (\<lambda>r x. tabs x = tabs w \<and> calls x = calls w \<and> (\<forall>v. r = Some v \<longrightarrow> vid_id v = i)) (\<lambda>_ _. True) w"
    by (auto simp: video_by_id_def wp_rules find_Some_iff)
  fix r :: "video option" and x :: "db world" assume x: "tabs x = tabs w \<and> calls x = calls w \<and> (\<forall>v. r = Some v \<longrightarrow> vid_id v = i)"
  have "wp (bnd (transaction (takedown_tx v operator note md)) (\<lambda>_. invalidate_detail_cache s i))
      (\<lambda>_ x. d_videos (tabs x) = set_audit i StatusRejected (d_videos (tabs w)) \<and> calls x = calls w @ invalidation s i) (\<lambda>_ _. True) x"
    if v: "vid_id v = i" for v
  proof (rule wp_and_then)
    show "wp (transaction (takedown_tx v operator note md)) (\<lambda>_ y. d_videos (tabs y) = set_audit i StatusRejected (d_videos (tabs w))
        \<and> calls y = calls w) (\<lambda>_ _. True) x"
      using x v by (intro wp_transactionI) (simp_all add: takedown_tx_def update_status_def append_record_def wp_rules Let_def)
    fix a :: unit and y :: "db world"
    assume "d_videos (tabs y) = set_audit i StatusRejected (d_videos (tabs w)) \<and> calls y = calls w"
    then show "wp (invalidate_detail_cache s i) (\<lambda>_ x. d_videos (tabs x) = set_audit i StatusRejected (d_videos (tabs w))
        \<and> calls x = calls w @ invalidation s i) (\<lambda>_ _. True) y"
      by (intro wp_mono [OF wp_invalidate]) simp_all
  qed
  with x show "wp (case r of None \<Rightarrow> throw ErrVideoNotFound
      | Some v \<Rightarrow> bnd (transaction (takedown_tx v operator note md)) (\<lambda>_. invalidate_detail_cache s i))
      (\<lambda>_ x. d_videos (tabs x) = set_audit i StatusRejected (d_videos (tabs w)) \<and> calls x = calls w @ invalidation s i) (\<lambda>_ _. True) x"
    by (cases r) (simp_all add: wp_basic)
qed

lemma row_of_set_audit:
  "row_of (set_audit i st vs) j = (if j = i then map_option (\<lambda>v. v\<lparr>vid_audit := st\<rparr>) (row_of vs i) else row_of vs j)"
  by (induction vs) (auto simp: set_audit_def update_where_def)

definition new_calls :: "db world \<Rightarrow> db world \<Rightarrow> ext_call list" where
  "new_calls w w' = drop (length (calls w)) (calls w')"

lemma takedown_effect:
  assumes "takedown_as s i operator note md w = (Inr (), w')"
  shows "d_videos (tabs w') = set_audit i StatusRejected (d_videos (tabs w))" "new_calls w w' = invalidation s i"
  using wp_ok [OF wp_takedown_effect assms] by (simp_all add: new_calls_def)

lemma invalidation_local: "local_detail (fold apply_call (invalidation s i) c) = local_detail c"
  by (simp add: invalidation_def redis_put_def)

lemma invalidation_redis:
  assumes "vs_detail s" "\<not> redis_down c (redis_uses c)"
  shows "redis_detail (fold apply_call (invalidation s i) c) = (redis_detail c)(i := None)"
  using assms by (simp add: invalidation_def redis_put_def)

text \<open>C27 Taken down means gone: after a takedown whose deletion reached Redis, and once the broadcast has been
  delivered to the process, the detail page shows the video to nobody but its author.\<close>

theorem takedown_hides:
  assumes "coherent s c (d_videos (tabs w))" "takedown_as s i operator note md w = (Inr (), w')"
    "vs_detail s" "\<not> redis_down c (redis_uses c)"
    "handle_invalidated True ev (fold apply_call (new_calls w w') c) = (Inr (), c')"
    "ev_type ev = EventTypeCacheInvalidated" "ev_payload ev = CacheInvalidated CacheNameVideoDetail i"
    "get_detail s scores viewer i c' w' = (Inr v, c'', w'')"
  shows "viewer \<noteq> 0 \<and> viewer = vid_author v"
proof -
  let ?vs = "d_videos (tabs w)"
  have eff: "d_videos (tabs w') = set_audit i StatusRejected ?vs" "new_calls w w' = invalidation s i"
    using takedown_effect [OF assms(2)] by simp_all
  have "c' = set_local i None (fold apply_call (invalidation s i) c)"
    using assms(5,6,7) eff(2) by (simp add: handle_invalidated_def split: if_splits)
  then have "local_detail c' = (local_detail c)(i := None)" "redis_detail c' = (redis_detail c)(i := None)"
    using invalidation_local [of s i c] invalidation_redis [OF assms(3,4), of i] by (simp_all add: set_local_def)
  then have "coherent s c' (d_videos (tabs w'))"
    using assms(1) by (auto simp: coherent_def eff(1) row_of_set_audit)
  from detail_transparent [OF this assms(8)] obtain u where u: "detail_of s viewer i (d_videos (tabs w')) = Some u" "core u = core v"
    by auto
  have "vid_audit u = StatusRejected" using u(1) by (auto simp: detail_of_def eff(1) row_of_set_audit split: option.splits if_splits)
  moreover have "visible_to u viewer" using u(1) by (auto simp: detail_of_def split: option.splits if_splits)
  ultimately show ?thesis using core_eq [OF u(2)] by (auto simp: visible_to_def IsPubliclyListed_def IsPublic_def)
qed

text \<open>Before that the process goes on showing what it has cached, whoever asks: the service never empties its
  own L1, and without a publisher nobody does.\<close>

lemma taken_down_still_shown:
  assumes "takedown_as s i operator note md w = (Inr (), w')" "vs_local s"
    "local_detail c i = Some (CachedVideo v)" "is_playable (vs_url_path s) v" "IsPubliclyListed v"
  shows "fst (get_detail s scores viewer i (fold apply_call (new_calls w w') c) w') = Inr v"
  using assms(2-5) by (simp add: takedown_effect(2) [OF assms(1)] get_detail_def get_detail_from_caches_def from_local_def
      invalidation_local shown_def visible_to_def IsPubliclyListed_def)

section \<open>Example\<close>

definition page_service :: video_svc where
  "page_service = demo_service\<lparr>vs_detail := True, vs_local := True\<rparr>"

definition page_video :: video where "page_video = demo_row\<lparr>vid_audit := StatusApproved\<rparr>"

definition page_world :: "db world" where "page_world = quiet_world 0 (empty_db\<lparr>d_videos := [page_video]\<rparr>)"

definition warm_caches :: caches where
  "warm_caches = \<lparr>local_detail = (\<lambda>_. None)(1 := Some (CachedVideo page_video)), redis_detail = (\<lambda>_. None),
     redis_down = (\<lambda>_. False), redis_uses = 0\<rparr>"

definition page_event :: envelope where
  "page_event = \<lparr>ev_id = [], ev_type = EventTypeCacheInvalidated, ev_occurred = 0, ev_producer = [], ev_version = 1,
     ev_payload = CacheInvalidated CacheNameVideoDetail 1\<rparr>"

lemma page_playable: "is_playable u (demo_row\<lparr>vid_audit := st\<rparr>)"
  by (simp add: is_playable_def demo_row_def normalize_managed_url_def has_prefix_def trim_prefix_def path_base_def trim_space_def is_space_def lit_def)

lemma page_coherent: "coherent s warm_caches (d_videos (tabs page_world))"
  by (simp add: coherent_def warm_caches_def page_world_def faithful_def quiet_world_def page_video_def demo_row_def)

lemmas page_defs = get_detail_def get_detail_from_caches_def load_detail_def from_local_def from_redis_def redis_get_def fill_local_def
  cache_detail_def redis_put_def set_local_def shown_def visible_to_def IsPubliclyListed_def IsDeleted_def EffectiveLifecycle_def
  IsPublic_def page_service_def demo_service_def Let_def

theorem detail_is_transparent_witness:
  "\<exists>c' w'. get_detail page_service (\<lambda>_. None) 7 1 warm_caches page_world = (Inr page_video, c', w')
     \<and> coherent page_service c' (d_videos (tabs w'))"
proof -
  have "\<exists>c' w'. get_detail page_service (\<lambda>_. None) 7 1 warm_caches page_world = (Inr page_video, c', w')"
    by (simp add: page_defs warm_caches_def page_video_def page_playable) (simp add: demo_row_def)
  then obtain c' w' where r: "get_detail page_service (\<lambda>_. None) 7 1 warm_caches page_world = (Inr page_video, c', w')" by blast
  with detail_is_transparent [OF page_coherent r] show ?thesis by blast
qed

lemma page_takedown: "\<exists>w'. takedown_as page_service 1 9 [] [] page_world = (Inr (), w')
   \<and> d_videos (tabs w') = [demo_row\<lparr>vid_audit := StatusRejected\<rparr>] \<and> faults w' = (\<lambda>_. False)"
  by (simp add: takedown_as_def takedown_tx_def video_by_id_def update_status_def append_record_def set_audit_def update_where_def
      invalidate_detail_cache_def page_service_def demo_service_def page_world_def page_video_def demo_row_def world_defs Let_def)

theorem takedown_hides_witness:
  "\<exists>w' c' v c'' w''. takedown_as page_service 1 9 [] [] page_world = (Inr (), w')
     \<and> get_detail page_service (\<lambda>_. None) 1 1 c' w' = (Inr v, c'', w'') \<and> vid_author v = 1 \<and> vid_audit v = StatusRejected"
proof -
  obtain w' where w': "takedown_as page_service 1 9 [] [] page_world = (Inr (), w')"
    "d_videos (tabs w') = [demo_row\<lparr>vid_audit := StatusRejected\<rparr>]" "faults w' = (\<lambda>_. False)" using page_takedown by blast
  let ?c = "fold apply_call (new_calls page_world w') warm_caches"
  let ?d = "set_local 1 None ?c"
  have ev: "handle_invalidated True page_event ?c = (Inr (), ?d)" by (simp add: handle_invalidated_def page_event_def)
  have "local_detail ?d 1 = None" "redis_detail ?d 1 = None" "redis_down ?d = (\<lambda>_. False)"
    by (simp_all add: takedown_effect(2) [OF w'(1)] invalidation_def set_local_def redis_put_def warm_caches_def page_service_def demo_service_def)
  then have "\<exists>c'' w''. get_detail page_service (\<lambda>_. None) 1 1 ?d w' = (Inr (demo_row\<lparr>vid_audit := StatusRejected\<rparr>), c'', w'')"
    using page_playable [of "\<lambda>_. None" StatusRejected] w'(2,3)
    by (simp add: page_defs video_by_id_def query_def) (simp add: demo_row_def)
  then obtain c'' w'' where page: "get_detail page_service (\<lambda>_. None) 1 1 ?d w' = (Inr (demo_row\<lparr>vid_audit := StatusRejected\<rparr>), c'', w'')" by blast
  have "vid_author (demo_row\<lparr>vid_audit := StatusRejected\<rparr>) = 1"
    using takedown_hides [OF page_coherent w'(1) _ _ ev _ _ page]
    by (simp add: page_event_def page_service_def warm_caches_def)
  moreover have "vid_audit (demo_row\<lparr>vid_audit := StatusRejected\<rparr>) = StatusRejected" by simp
  ultimately show ?thesis using w'(1) page by blast
qed

end
