(* ===== verification/Reports.thy ===== *)
theory Reports
  imports Video_Detail
begin

text \<open>
  Reports of videos (\<open>internal/report/service.go\<close>, \<open>repo.go\<close>, \<open>entity.go\<close>): submitting one, the reporter's
  own list, the reviewers' queue, aggregated by video, and the verdict that settles all reports of a video.
  The service knows the videos only through the interface \<open>ContentStore\<close>, here the arguments \<open>load\<close> and
  \<open>down\<close>; the locale \<open>content_store\<close> states what it relies on and is interpreted on the video service.
  The target type has one value and is left out. Logging is left out.
\<close>

section \<open>Requests\<close>

definition DetailMaxLength :: nat where "DetailMaxLength = 500"

definition maxSamplesPerTarget :: nat where "maxSamplesPerTarget = 3"

fun reason_str :: "reason \<Rightarrow> gostr" where
  "reason_str ReasonSpam = lit ''spam''"
| "reason_str ReasonPorn = lit ''porn''"
| "reason_str ReasonViolence = lit ''violence''"
| "reason_str ReasonIllegal = lit ''illegal''"
| "reason_str ReasonInfringement = lit ''infringement''"
| "reason_str ReasonMisinformation = lit ''misinformation''"
| "reason_str ReasonAbuse = lit ''abuse''"
| "reason_str ReasonMinor = lit ''minor''"
| "reason_str ReasonOther = lit ''other''"

text \<open>\<open>Reason.Valid\<close> and \<open>Action.Valid\<close>, answering the constant.\<close>

definition reason_of :: "gostr \<Rightarrow> reason option" where
  "reason_of t = find (\<lambda>r. reason_str r = t) [ReasonSpam, ReasonPorn, ReasonViolence, ReasonIllegal,
     ReasonInfringement, ReasonMisinformation, ReasonAbuse, ReasonMinor, ReasonOther]"

datatype action = ActionDismiss | ActionTakedown

definition action_of :: "gostr \<Rightarrow> action option" where
  "action_of t = (if t = lit ''dismiss'' then Some ActionDismiss else if t = lit ''takedown'' then Some ActionTakedown else None)"

definition normalize_limit :: "int \<Rightarrow> int" where
  "normalize_limit limit = (if limit \<le> 0 \<or> 100 < limit then 20 else limit)"

section \<open>The table\<close>

definition pending_on :: "nat \<Rightarrow> report \<Rightarrow> bool" where
  "pending_on vid r \<longleftrightarrow> rp_target r = vid \<and> rp_status r = ReportPending"

text \<open>\<open>ON CONFLICT DO NOTHING\<close>: whether the row went in.\<close>

definition create_report :: "report \<Rightarrow> nat option op" where
  "create_report r = bnd (result_of (create Reports
     (\<lambda>_ d. \<exists>r' \<in> set (d_reports d). rp_target r' = rp_target r \<and> rp_reporter r' = rp_reporter r)
     (\<lambda>i d. d\<lparr>d_reports := d_reports d @ [r\<lparr>rp_id := i\<rparr>]\<rparr>))) (\<lambda>res. case res of
       Inr i \<Rightarrow> ret (Some i) | Inl e \<Rightarrow> if e = DbDuplicate then ret None else throw e)"

definition list_by_reporter :: "nat \<Rightarrow> nat \<Rightarrow> nat \<Rightarrow> report list op" where
  "list_by_reporter reporter limit offset_id = query (\<lambda>d. take limit (newest rp_id
     (\<lambda>r. rp_reporter r = reporter \<and> (0 < offset_id \<longrightarrow> rp_id r < offset_id)) (d_reports d)))"

definition repo_list_pending :: "nat \<Rightarrow> report list op" where
  "repo_list_pending limit = query (\<lambda>d. take limit (sort_key rp_id (filter (\<lambda>r. rp_status r = ReportPending) (d_reports d))))"

definition repo_count_pending :: "nat op" where
  "repo_count_pending = query (\<lambda>d. length (filter (\<lambda>r. rp_status r = ReportPending) (d_reports d)))"

definition repo_count_pending_by_target :: "nat \<Rightarrow> nat op" where
  "repo_count_pending_by_target vid = query (\<lambda>d. length (filter (pending_on vid) (d_reports d)))"

definition settle :: "report_status \<Rightarrow> nat \<Rightarrow> gostr \<Rightarrow> instant \<Rightarrow> report \<Rightarrow> report" where
  "settle st handler note now r = r\<lparr>rp_status := st, rp_handler := handler, rp_note := note, rp_handled_at := Some now\<rparr>"

definition resolve_target :: "nat \<Rightarrow> report_status \<Rightarrow> nat \<Rightarrow> gostr \<Rightarrow> instant \<Rightarrow> nat op" where
  "resolve_target vid st handler note now = exec_count (\<lambda>d. length (filter (pending_on vid) (d_reports d)))
     (\<lambda>d. d\<lparr>d_reports := update_where (pending_on vid) (settle st handler note now) (d_reports d)\<rparr>)"

section \<open>The service\<close>

definition submit :: "(nat \<Rightarrow> nat \<Rightarrow> nat option op) \<Rightarrow> nat \<Rightarrow> nat \<Rightarrow> gostr \<Rightarrow> gostr \<Rightarrow> report op" where
  "submit load reporter vid reason_text detail_text = (case reason_of reason_text of None \<Rightarrow> throw ErrInvalidReason | Some reason \<Rightarrow>
     let detail = trim_space detail_text in
     fail_if (DetailMaxLength < length detail) ErrDetailTooLong (
     fail_if (reason = ReasonOther \<and> detail = []) ErrDetailRequired (
     bnd (load reporter vid) (\<lambda>loaded. case loaded of None \<Rightarrow> throw ErrContentNotFound | Some author \<Rightarrow>
     fail_if (author = reporter) ErrSelfReport (
     bnd read_now (\<lambda>now.
     let row = \<lparr>rp_id = 0, rp_target = vid, rp_reporter = reporter, rp_reason = reason, rp_detail = detail, rp_status = ReportPending,
       rp_handler = 0, rp_handled_at = None, rp_note = [], rp_created = now\<rparr> in
     bnd (create_report row) (\<lambda>inserted. case inserted of
       None \<Rightarrow> throw ErrAlreadyReported | Some i \<Rightarrow> ret (row\<lparr>rp_id := i\<rparr>))))))))"

definition list_my_reports :: "nat \<Rightarrow> int \<Rightarrow> nat \<Rightarrow> report list op" where
  "list_my_reports reporter limit offset_id = list_by_reporter reporter (nat (normalize_limit limit)) offset_id"

definition count_pending :: "nat list \<Rightarrow> nat \<Rightarrow> nat op" where
  "count_pending reviewers operator = fail_if (operator \<notin> set reviewers) ErrNotReviewer repo_count_pending"

definition count_pending_by_target :: "nat list \<Rightarrow> nat \<Rightarrow> nat \<Rightarrow> nat op" where
  "count_pending_by_target reviewers operator vid =
     fail_if (operator \<notin> set reviewers) ErrNotReviewer (repo_count_pending_by_target vid)"

definition close_pending_as_accepted :: "nat list \<Rightarrow> nat \<Rightarrow> nat \<Rightarrow> gostr \<Rightarrow> nat op" where
  "close_pending_as_accepted reviewers operator vid note = fail_if (operator \<notin> set reviewers) ErrNotReviewer (
     bnd read_now (\<lambda>now. resolve_target vid ReportAccepted operator note now))"

definition handle_report :: "(nat \<Rightarrow> nat \<Rightarrow> gostr \<Rightarrow> unit op) \<Rightarrow> nat list \<Rightarrow> nat \<Rightarrow> nat \<Rightarrow> gostr \<Rightarrow> gostr \<Rightarrow> nat op" where
  "handle_report down reviewers operator vid action_text note_text =
     fail_if (operator \<notin> set reviewers) ErrNotReviewer (
     case action_of action_text of None \<Rightarrow> throw ErrInvalidAction | Some action \<Rightarrow>
     let note = trim_space note_text in
     fail_if (DetailMaxLength < length note) ErrDetailTooLong (
     bnd (repo_count_pending_by_target vid) (\<lambda>pending.
     fail_if (pending = 0) ErrNothingPending (
     bnd (whenever (action = ActionTakedown) (down vid operator note)) (\<lambda>_.
     bnd read_now (\<lambda>now.
     resolve_target vid (if action = ActionTakedown then ReportAccepted else ReportDismissed) operator note now))))))"

section \<open>The queue, aggregated by video\<close>

record pending_item =
  pi_target :: nat
  pi_count :: nat
  pi_reasons :: "reason \<Rightarrow> nat"
  pi_first :: instant
  pi_latest :: instant
  pi_samples :: "gostr list"

definition new_item :: "report \<Rightarrow> pending_item" where
  "new_item r = \<lparr>pi_target = rp_target r, pi_count = 0, pi_reasons = \<lambda>_. 0, pi_first = rp_created r, pi_latest = rp_created r, pi_samples = []\<rparr>"

definition count_in :: "report \<Rightarrow> pending_item \<Rightarrow> pending_item" where
  "count_in r p = p\<lparr>pi_count := Suc (pi_count p), pi_reasons := (pi_reasons p)(rp_reason r := Suc (pi_reasons p (rp_reason r))),
     pi_first := (if rp_created r < pi_first p then rp_created r else pi_first p),
     pi_latest := (if pi_latest p < rp_created r then rp_created r else pi_latest p),
     pi_samples := (if rp_detail r \<noteq> [] \<and> length (pi_samples p) < maxSamplesPerTarget then pi_samples p @ [rp_detail r] else pi_samples p)\<rparr>"

text \<open>The map \<open>index\<close> and the slice \<open>order\<close>.\<close>

fun add_report :: "(nat \<Rightarrow> pending_item option) \<times> nat list \<Rightarrow> report \<Rightarrow> (nat \<Rightarrow> pending_item option) \<times> nat list" where
  "add_report (index, order) r = (case index (rp_target r) of
      None \<Rightarrow> (index(rp_target r \<mapsto> count_in r (new_item r)), order @ [rp_target r])
    | Some p \<Rightarrow> (index(rp_target r \<mapsto> count_in r p), order))"

text \<open>The order of the queue: more reports first, then the earlier first report.\<close>

datatype urgency = Urgency nat instant

instantiation urgency :: linorder
begin

fun less_eq_urgency :: "urgency \<Rightarrow> urgency \<Rightarrow> bool" where
  "less_eq_urgency (Urgency n t) (Urgency m u) \<longleftrightarrow> m < n \<or> m = n \<and> t \<le> u"

fun less_urgency :: "urgency \<Rightarrow> urgency \<Rightarrow> bool" where
  "less_urgency (Urgency n t) (Urgency m u) \<longleftrightarrow> (if n \<noteq> m then m < n else t < u)"

instance
proof
  fix x y z :: urgency
  show "x < y \<longleftrightarrow> x \<le> y \<and> \<not> y \<le> x" by (cases x; cases y) auto
  show "x \<le> x" by (cases x) simp
  show "x \<le> y \<Longrightarrow> y \<le> z \<Longrightarrow> x \<le> z" by (cases x; cases y; cases z) auto
  show "x \<le> y \<Longrightarrow> y \<le> x \<Longrightarrow> x = y" by (cases x; cases y) auto
  show "x \<le> y \<or> y \<le> x" by (cases x; cases y) auto
qed

end

definition urgency_of :: "pending_item \<Rightarrow> urgency" where
  "urgency_of p = Urgency (pi_count p) (pi_first p)"

definition aggregate_pending :: "report list \<Rightarrow> nat \<Rightarrow> pending_item list" where
  "aggregate_pending rows max_targets = (case foldl add_report (Map.empty, []) rows of
     (index, order) \<Rightarrow> take max_targets (sort_key urgency_of (map (\<lambda>i. the (index i)) order)))"

definition list_pending :: "nat list \<Rightarrow> nat \<Rightarrow> int \<Rightarrow> pending_item list op" where
  "list_pending reviewers operator limit = fail_if (operator \<notin> set reviewers) ErrNotReviewer (
     bnd (repo_list_pending (nat (normalize_limit limit * 20))) (\<lambda>rows.
     ret (aggregate_pending rows (nat (normalize_limit limit)))))"

text \<open>The item of a video, computed from all of its reports at once.\<close>

definition item_of :: "report list \<Rightarrow> nat \<Rightarrow> pending_item" where
  "item_of rows i = (let rs = filter (\<lambda>r. rp_target r = i) rows in
     \<lparr>pi_target = i, pi_count = length rs, pi_reasons = (\<lambda>c. length (filter (\<lambda>r. rp_reason r = c) rs)),
      pi_first = Min (rp_created ` set rs), pi_latest = linorder_class.Max (rp_created ` set rs),
      pi_samples = take maxSamplesPerTarget (filter (\<lambda>t. t \<noteq> []) (map rp_detail rs))\<rparr>)"

text \<open>Each value once, at its first occurrence.\<close>

definition first_seen :: "'a list \<Rightarrow> 'a list" where
  "first_seen xs = rev (remdups (rev xs))"

lemma first_seen_simps [simp]: "first_seen [] = []"
  "first_seen (xs @ [x]) = (if x \<in> set xs then first_seen xs else first_seen xs @ [x])"
  "set (first_seen xs) = set xs"
  by (simp_all add: first_seen_def)

lemma item_of_other: "rp_target r \<noteq> i \<Longrightarrow> item_of (rows @ [r]) i = item_of rows i"
  by (simp add: item_of_def)

lemma item_of_new: "rp_target r \<notin> rp_target ` set rows \<Longrightarrow> item_of (rows @ [r]) (rp_target r) = count_in r (new_item r)"
proof -
  assume "rp_target r \<notin> rp_target ` set rows"
  then have "filter (\<lambda>q. rp_target q = rp_target r) rows = []" unfolding filter_empty_conv by (metis image_eqI)
  then show ?thesis by (simp add: item_of_def count_in_def new_item_def Let_def maxSamplesPerTarget_def fun_eq_iff)
qed

lemma earliest_insert:
  fixes S :: "instant set"
  assumes "finite S" "S \<noteq> {}"
  shows "Min (insert x S) = (if x < Min S then x else Min S)"
    "linorder_class.Max (insert x S) = (if linorder_class.Max S < x then x else linorder_class.Max S)"
proof -
  have "min x m = (if x < m then x else m)" "max x m = (if m < x then x else m)" for m :: instant by (simp_all add: min_def max_def)
  then show "Min (insert x S) = (if x < Min S then x else Min S)"
    "linorder_class.Max (insert x S) = (if linorder_class.Max S < x then x else linorder_class.Max S)"
    by (simp_all only: Min_insert [OF assms] Max_insert [OF assms])
qed

lemma take_one_more: "take k (ys @ [y]) = (if length (take k ys) < k then take k ys @ [y] else take k ys)"
  by (cases "k - length ys") auto

lemma item_of_more:
  assumes "rp_target r \<in> rp_target ` set rows"
  shows "item_of (rows @ [r]) (rp_target r) = count_in r (item_of rows (rp_target r))"
proof -
  let ?old = "item_of rows (rp_target r)" and ?new = "item_of (rows @ [r]) (rp_target r)"
  define S where "S = rp_created ` set (filter (\<lambda>q. rp_target q = rp_target r) rows)"
  define texts where "texts = filter (\<lambda>t. t \<noteq> []) (map rp_detail (filter (\<lambda>q. rp_target q = rp_target r) rows))"
  have S: "finite S" "S \<noteq> {}" using assms by (auto simp: S_def)
  have old: "pi_first ?old = Min S" "pi_latest ?old = linorder_class.Max S" "pi_samples ?old = take maxSamplesPerTarget texts"
    by (simp_all add: item_of_def S_def texts_def Let_def)
  have new: "pi_first ?new = Min (insert (rp_created r) S)" "pi_latest ?new = linorder_class.Max (insert (rp_created r) S)"
    "pi_samples ?new = take maxSamplesPerTarget (texts @ (if rp_detail r \<noteq> [] then [rp_detail r] else []))"
    by (simp_all add: item_of_def S_def texts_def Let_def)
  show ?thesis
  proof (rule pending_item.equality)
    show "pi_samples ?new = pi_samples (count_in r ?old)"
      unfolding new(3) using take_one_more [of maxSamplesPerTarget texts "rp_detail r"] by (auto simp: count_in_def old)
  qed (simp_all add: new earliest_insert [OF S] count_in_def old, simp_all add: item_of_def Let_def fun_eq_iff)
qed

lemma foldl_add_report:
  "foldl add_report (Map.empty, []) rows =
     ((\<lambda>i. if i \<in> rp_target ` set rows then Some (item_of rows i) else None), first_seen (map rp_target rows))"
proof (induction rows rule: rev_induct)
  case (snoc r rows)
  then show ?case
    by (cases "rp_target r \<in> rp_target ` set rows")
      (auto simp: item_of_new item_of_more item_of_other fun_eq_iff simp flip: image_set)
qed (simp add: fun_eq_iff)

text \<open>C28 The reviewers' queue: gathering the reports in one pass, with a map and the order of first appearance,
  gives for each video the item one would compute from all of its reports, its number, the number for each
  reason, the first and the last date and the first three notes, the most reported video first and the longer
  waiting one among equals.\<close>

theorem queue_is_grouping:
  "aggregate_pending rows n = take n (sort_key urgency_of (map (item_of rows) (first_seen (map rp_target rows))))"
proof -
  have "map (\<lambda>i. the (if i \<in> rp_target ` set rows then Some (item_of rows i) else None)) (first_seen (map rp_target rows))
      = map (item_of rows) (first_seen (map rp_target rows))"
    by (rule map_cong) auto
  then show ?thesis unfolding aggregate_pending_def foldl_add_report prod.case by (rule arg_cong)
qed

section \<open>What a report goes through\<close>

definition settles :: "report \<Rightarrow> report \<Rightarrow> bool" where
  "settles r r' \<longleftrightarrow> r' = r \<or> rp_status r = ReportPending \<and> (\<exists>st h n t. st \<noteq> ReportPending \<and> r' = settle st h n t r)"

definition report_key :: "report \<Rightarrow> nat \<times> nat" where
  "report_key r = (rp_target r, rp_reporter r)"

definition reports_ok :: "(table \<Rightarrow> nat) \<Rightarrow> report list \<Rightarrow> bool" where
  "reports_ok q rs \<longleftrightarrow> distinct (map report_key rs) \<and> distinct (map rp_id rs) \<and> (\<forall>r \<in> set rs. rp_id r \<le> q Reports)
     \<and> (\<forall>r \<in> set rs. rp_status r = ReportPending \<longleftrightarrow> rp_handled_at r = None)"

text \<open>Rows are only added, and each goes from pending to settled at most once.\<close>

definition reports_step :: "report list \<Rightarrow> report list \<Rightarrow> bool" where
  "reports_step rs rs' \<longleftrightarrow> length rs \<le> length rs' \<and> (\<forall>i < length rs. settles (rs ! i) (rs' ! i))"

lemma settles_refl: "settles r r"
  by (simp add: settles_def)

lemma settles_trans: "settles a b \<Longrightarrow> settles b c \<Longrightarrow> settles a c"
  by (auto simp: settles_def settle_def)

lemma reports_step_trans: "reports_step a b \<Longrightarrow> reports_step b c \<Longrightarrow> reports_step a c"
  by (auto simp: reports_step_def intro: settles_trans)

lemma reports_step_refl: "reports_step rs rs"
  by (simp add: reports_step_def settles_refl)

interpretation desk: table_inv "d_reports :: db \<Rightarrow> report list" reports_ok reports_step
  by unfold_locales (auto simp: reports_ok_def intro: order_trans reports_step_refl reports_step_trans)

abbreviation keeps_desk :: "db world \<Rightarrow> db world \<Rightarrow> bool" where
  "keeps_desk \<equiv> keeps d_reports reports_ok reports_step"

lemmas desk_rules = desk.kept.steps_env desk.kept.steps_bnd desk.kept.steps_result_of desk.kept.steps_if
  desk.kept.steps_option desk.kept.steps_sum

lemma settle_sel [simp]: "report_key (settle st h n t r) = report_key r" "rp_id (settle st h n t r) = rp_id r"
  "rp_status (settle st h n t r) = st" "rp_handled_at (settle st h n t r) = Some t" "rp_target (settle st h n t r) = rp_target r"
  by (simp_all add: settle_def report_key_def)

lemma reports_resolved:
  assumes "reports_ok q rs" "st \<noteq> ReportPending"
  shows "reports_ok q (update_where (pending_on vid) (settle st h n t) rs)"
    "reports_step rs (update_where (pending_on vid) (settle st h n t) rs)"
proof -
  have "map report_key (update_where (pending_on vid) (settle st h n t) rs) = map report_key rs"
    "map rp_id (update_where (pending_on vid) (settle st h n t) rs) = map rp_id rs" by (simp_all add: map_update_where)
  then show "reports_ok q (update_where (pending_on vid) (settle st h n t) rs)"
    using assms by (auto simp: reports_ok_def set_update_where)
  have "settles r (if pending_on vid r then settle st h n t r else r)" for r
    using assms(2) unfolding settles_def pending_on_def by auto
  then show "reports_step rs (update_where (pending_on vid) (settle st h n t) rs)"
    by (simp add: reports_step_def update_where_def)
qed

lemma keeps_resolve [rel_rules]: "st \<noteq> ReportPending \<Longrightarrow> steps keeps_desk (resolve_target vid st h n t)"
  unfolding resolve_target_def by (rule desk.kept.steps_exec) (auto simp: keeps_def holds_def reports_resolved)

lemma reports_ok_new:
  assumes "reports_ok q rs" "report_key r \<notin> report_key ` set rs" "rp_status r = ReportPending" "rp_handled_at r = None"
  shows "reports_ok (q(Reports := Suc (q Reports))) (rs @ [r\<lparr>rp_id := Suc (q Reports)\<rparr>])"
proof -
  have "report_key (r\<lparr>rp_id := i\<rparr>) = report_key r" for i by (simp add: report_key_def)
  moreover have "Suc (q Reports) \<notin> rp_id ` set rs" using assms(1) by (auto simp: reports_ok_def)
  ultimately show ?thesis using assms by (auto simp: reports_ok_def le_SucI)
qed

lemma keeps_create_report [rel_rules]:
  assumes "rp_status r = ReportPending" "rp_handled_at r = None"
  shows "steps keeps_desk (create_report r)"
  unfolding create_report_def
proof (intro desk_rules)
  let ?dup = "\<lambda>_ :: nat. \<lambda>d. \<exists>r' \<in> set (d_reports d). rp_target r' = rp_target r \<and> rp_reporter r' = rp_reporter r"
  let ?ins = "\<lambda>i d. d\<lparr>d_reports := d_reports d @ [r\<lparr>rp_id := i\<rparr>]\<rparr>"
  let ?Q = "\<lambda>w w' :: db world. holds d_reports reports_ok w' \<and> reports_step (d_reports (tabs w)) (d_reports (tabs w'))"
  have "wp (create Reports ?dup ?ins) (\<lambda>_. ?Q w) (\<lambda>_. ?Q w) w" if "holds d_reports reports_ok w" for w
  proof -
    let ?q = "(seqs w)(Reports := Suc (seqs w Reports))" and ?rs = "d_reports (tabs w)"
    have ok: "reports_ok (seqs w) ?rs" using that by (simp add: holds_def)
    have "reports_ok ?q ?rs" by (rule desk.mono [OF ok]) simp
    moreover have "reports_ok ?q (?rs @ [r\<lparr>rp_id := Suc (seqs w Reports)\<rparr>])" if "\<not> ?dup 0 (tabs w)"
      by (rule reports_ok_new [OF ok _ assms]) (use that in \<open>auto simp: report_key_def\<close>)
    moreover have "reports_step ?rs (?rs @ [x])" for x by (simp add: reports_step_def nth_append settles_refl)
    ultimately show ?thesis using ok by (simp add: wp_rules Let_def holds_def reports_step_refl)
  qed
  then show "steps keeps_desk (create Reports ?dup (\<lambda>i d. d\<lparr>d_reports := d_reports d @ [r\<lparr>rp_id := i\<rparr>]\<rparr>))"
    by (rule desk.always) (simp, intro framed.steps_create, simp)
qed

section \<open>The interface to the content\<close>

text \<open>The service relies on the content store leaving the reports alone.\<close>

locale content_store =
  fixes load :: "nat \<Rightarrow> nat \<Rightarrow> nat option op" and down :: "nat \<Rightarrow> nat \<Rightarrow> gostr \<Rightarrow> unit op"
  assumes load_reports: "steps (frame d_reports) (load viewer i)"
    and down_reports: "steps (frame d_reports) (down i operator note)"
begin

lemma keeps_submit: "steps keeps_desk (submit load reporter vid reason detail)"
  unfolding submit_def Let_def by (intro desk_rules keeps_create_report desk.untouched [OF load_reports]) simp_all

lemma keeps_handle: "steps keeps_desk (handle_report down reviewers operator vid action note)"
  unfolding handle_report_def Let_def repo_count_pending_by_target_def
  by (intro desk_rules keeps_resolve desk.untouched [OF down_reports]) simp

text \<open>The verdict settles all the pending reports of the video or none.\<close>

lemma wp_handle:
  "wp (handle_report down reviewers operator vid action note)
     (\<lambda>n w'. \<exists>now. 0 < n \<and> operator \<in> set reviewers \<and> action_of action \<noteq> None \<and> n = length (filter (pending_on vid) (d_reports (tabs w)))
        \<and> d_reports (tabs w') = update_where (pending_on vid)
            (settle (if action_of action = Some ActionTakedown then ReportAccepted else ReportDismissed) operator (trim_space note) now)
            (d_reports (tabs w)))
     (\<lambda>_ w'. d_reports (tabs w') = d_reports (tabs w)) w"
proof -
  let ?reports = "\<lambda>v. d_reports (tabs v) = d_reports (tabs w)"
  have down: "wp (down vid operator t) (\<lambda>_. ?reports) (\<lambda>_. ?reports) v" if "?reports v" for v t
    by (rule wpI) (use that stepsD [OF down_reports] in simp_all)
  have whenever: "wp (whenever (a = ActionTakedown) (down vid operator t)) (\<lambda>_. ?reports) (\<lambda>_. ?reports) v" if "?reports v" for v t a
    using that down by (simp add: wp_rules)
  show ?thesis
    unfolding handle_report_def Let_def repo_count_pending_by_target_def resolve_target_def
    by (cases "action_of action") (auto simp: wp_rules intro!: wp_mono [OF down])
qed

end

section \<open>The videos as the content\<close>

text \<open>\<open>video.Service\<close> answers through its caches, \<open>c\<close>.\<close>

definition video_load :: "video_svc \<Rightarrow> (nat \<Rightarrow> int option) \<Rightarrow> caches \<Rightarrow> nat \<Rightarrow> nat \<Rightarrow> nat option op" where
  "video_load s scores c viewer i w = (case load_for_report s scores viewer i c w of (r, _, w') \<Rightarrow> (r, w'))"

lemma frame_video_load: "steps (frame g) (video_load s scores c viewer i)"
proof -
  have "frame g w (snd (video_load s scores c viewer i w))" for w
  proof (cases "get_detail s scores viewer i c w")
    case (fields r c' w')
    then have "snd (video_load s scores c viewer i w) = w'"
      by (auto simp: video_load_def load_for_report_def split: sum.split)
    moreover have "steps (frame g) (video_by_id i)" by (rule frame_video_by_id)
    ultimately show ?thesis using get_detail_world [OF fields] by (auto simp: steps_def)
  qed
  then show ?thesis by (simp add: steps_def)
qed

lemma frame_takedown: "steps (frame d_reports) (takedown s i operator note)"
  unfolding takedown_def takedown_as_def takedown_tx_def by (intro rel_rules) simp_all

interpretation video_reports: content_store "video_load s scores c" "takedown t" for s scores c t
  by unfold_locales (rule frame_video_load frame_takedown)+

text \<open>One step: an operation of the report service over the videos, or anything that leaves the reports alone.\<close>

inductive report_moves :: "db world \<Rightarrow> db world \<Rightarrow> bool" where
  submitted: "report_moves w (snd (submit (video_load s scores c) reporter vid reason detail w))"
| handled: "report_moves w (snd (handle_report (takedown s) reviewers operator vid action note w))"
| closed: "report_moves w (snd (close_pending_as_accepted reviewers operator vid note w))"
| other_tables: "d_reports (tabs w') = d_reports (tabs w) \<Longrightarrow> \<forall>t. seqs w t \<le> seqs w' t \<Longrightarrow> report_moves w w'"

lemma keeps_close: "steps keeps_desk (close_pending_as_accepted reviewers operator vid note)"
  unfolding close_pending_as_accepted_def by (intro desk_rules keeps_resolve) simp

lemma report_moves_keeps: "report_moves w w' \<Longrightarrow> keeps_desk w w'"
proof (induction rule: report_moves.induct)
  case (submitted w s scores c reporter vid reason detail)
  show ?case using video_reports.keeps_submit [of s scores c reporter vid reason detail] by (simp add: steps_def)
next
  case (handled w s reviewers operator vid action remark)
  show ?case using video_reports.keeps_handle [of s reviewers operator vid action remark] by (simp add: steps_def)
next
  case (closed w reviewers operator vid remark)
  show ?case using keeps_close by (simp add: steps_def)
next
  case (other_tables w' w)
  then show ?case using desk.mono by (auto simp: keeps_def holds_def reports_step_refl)
qed

abbreviation report_runs :: "db world \<Rightarrow> db world \<Rightarrow> bool" where
  "report_runs \<equiv> report_moves\<^sup>*\<^sup>*"

lemma report_runs_keep: "report_runs w w' \<Longrightarrow> keeps_desk w w'"
  by (induction rule: rtranclp_induct) (auto intro: desk.kept.env desk.kept.trans report_moves_keeps)

text \<open>C29 However reports are submitted and settled, beginning with an empty table: nobody has reported a video
  twice, identifiers are unique, and a report has a date of settlement exactly when it is settled.\<close>

theorem one_report_each:
  assumes "d_reports (tabs w) = []" "report_runs w w'"
  shows "distinct (map (\<lambda>r. (rp_target r, rp_reporter r)) (d_reports (tabs w'))) \<and> distinct (map rp_id (d_reports (tabs w')))
     \<and> (\<forall>r \<in> set (d_reports (tabs w')). rp_status r = ReportPending \<longleftrightarrow> rp_handled_at r = None)"
proof -
  have "holds d_reports reports_ok w" using assms(1) by (simp add: holds_def reports_ok_def)
  then have "reports_ok (seqs w') (d_reports (tabs w'))" using report_runs_keep [OF assms(2)] by (simp add: keeps_def holds_def)
  then show ?thesis by (simp add: reports_ok_def report_key_def [abs_def])
qed

text \<open>C30 A settled report is never rewritten, whatever happens afterwards, and no report is lost: what a later
  verdict on the same video settles are the reports that were pending.\<close>

theorem verdicts_stand:
  assumes "d_reports (tabs u) = []" "report_runs u w" "report_runs w w'" "i < length (d_reports (tabs w))"
  shows "i < length (d_reports (tabs w')) \<and> report_key (d_reports (tabs w') ! i) = report_key (d_reports (tabs w) ! i)
     \<and> (rp_status (d_reports (tabs w) ! i) \<noteq> ReportPending \<longrightarrow> d_reports (tabs w') ! i = d_reports (tabs w) ! i)"
proof -
  have "holds d_reports reports_ok u" using assms(1) by (simp add: holds_def reports_ok_def)
  then have "holds d_reports reports_ok w" using report_runs_keep [OF assms(2)] by (simp add: keeps_def)
  then have "reports_step (d_reports (tabs w)) (d_reports (tabs w'))" using report_runs_keep [OF assms(3)] by (simp add: keeps_def)
  then have "i < length (d_reports (tabs w'))" "settles (d_reports (tabs w) ! i) (d_reports (tabs w') ! i)"
    using assms(4) by (auto simp: reports_step_def)
  then show ?thesis by (auto simp: settles_def)
qed


lemma rejected_unlisted: "\<forall>x \<in> set (set_audit i StatusRejected vs). vid_id x = i \<longrightarrow> \<not> IsPubliclyListed x"
proof (intro ballI impI)
  fix x assume "x \<in> set (set_audit i StatusRejected vs)" and i: "vid_id x = i"
  then obtain v where v: "x = (if vid_id v = i then v\<lparr>vid_audit := StatusRejected\<rparr> else v)"
    unfolding set_audit_def set_update_where by blast
  have "vid_audit x = StatusRejected" using i by (cases "vid_id v = i") (simp_all add: v)
  then show "\<not> IsPubliclyListed x" by (simp add: IsPubliclyListed_def IsPublic_def)
qed



section \<open>Example\<close>

text \<open>Account 7 reports a video of account 1; reviewer 9 takes it down.\<close>

definition demo_report :: report where
  "demo_report = \<lparr>rp_id = 1, rp_target = 1, rp_reporter = 7, rp_reason = ReasonSpam, rp_detail = [], rp_status = ReportPending,
     rp_handler = 0, rp_handled_at = None, rp_note = [], rp_created = 0\<rparr>"

definition demo_reported :: "db world" where
  "demo_reported = snd (submit (video_load page_service (\<lambda>_. None) warm_caches) 7 1 (lit ''spam'') [] page_world)"

lemma demo_load: "video_load page_service (\<lambda>_. None) warm_caches 7 1 page_world = (Inr (Some 1), page_world)"
  by (simp add: video_load_def load_for_report_def page_defs warm_caches_def page_video_def page_playable) (simp add: demo_row_def)

lemma demo_reported:
  "tabs demo_reported = empty_db\<lparr>d_videos := [page_video], d_reports := [demo_report]\<rparr>" "faults demo_reported = (\<lambda>_. False)"
  "clock demo_reported = (\<lambda>_. 0)"
  by (simp_all add: demo_reported_def submit_def demo_load [unfolded One_nat_def] Let_def reason_of_def lit_def DetailMaxLength_def create_report_def demo_report_def
      bnd_def result_of_def read_now_def create_def next_stmt_def ret_def)
    (simp_all add: page_world_def quiet_world_def empty_db_def)

definition demo_settled :: "db world" where
  "demo_settled = snd (handle_report (takedown page_service) [9] 9 1 (lit ''takedown'') [] demo_reported)"

lemma demo_settled:
  "fst (handle_report (takedown page_service) [9] 9 1 (lit ''takedown'') [] demo_reported) = Inr 1"
  "d_reports (tabs demo_settled) = [settle ReportAccepted 9 [] 0 demo_report]"
  "d_videos (tabs demo_settled) = [page_video\<lparr>vid_audit := StatusRejected\<rparr>]"
  by (simp_all add: demo_settled_def handle_report_def action_of_def lit_def DetailMaxLength_def repo_count_pending_by_target_def
      resolve_target_def takedown_def takedown_as_def takedown_tx_def video_by_id_def update_status_def append_record_def set_audit_def
      invalidate_detail_cache_def page_service_def demo_service_def page_video_def pending_on_def demo_report_def demo_reported
      demo_row_def world_defs Let_def bnd_def result_of_def read_now_def create_def next_stmt_def ret_def)

lemma demo_report_runs: "report_runs page_world demo_reported" "report_runs demo_reported demo_settled"
  by (simp_all add: demo_reported_def demo_settled_def r_into_rtranclp report_moves.intros)

theorem one_report_each_witness:
  "distinct (map (\<lambda>r. (rp_target r, rp_reporter r)) (d_reports (tabs demo_settled))) \<and> length (d_reports (tabs demo_settled)) = 1"
  using one_report_each [of page_world demo_settled] rtranclp_trans [OF demo_report_runs]
  by (simp add: page_world_def quiet_world_def empty_db_def demo_settled)

theorem verdicts_stand_witness:
  "\<exists>r. d_reports (tabs demo_settled) = [r] \<and> report_key r = (1, 7) \<and> d_reports (tabs demo_reported) = [demo_report]"
  using verdicts_stand [of page_world demo_reported demo_settled 0] demo_report_runs
  by (simp add: page_world_def quiet_world_def empty_db_def demo_settled demo_reported report_key_def demo_report_def)


end
