(* ===== verification/Keyset.thy ===== *)
theory Keyset
  imports Prelude
begin

text \<open>
  Keyset pagination, as many lists of the services do it: a page is fetched after a cursor made from the last
  row of the page before. The locale is the contract of such a query over a table that does not change
  meanwhile: the first page is a beginning of one ordered list, and the page after a row is what follows this
  row in it. Walking the pages to the end then yields that list, with nothing twice and nothing left out, in both
  ways the services stop: when a row more than asked for was not found, or when a page comes short.
\<close>

section \<open>The contract\<close>

locale keyset =
  fixes fetch :: "'c option \<Rightarrow> nat \<Rightarrow> 'r list" and cursor :: "'r \<Rightarrow> 'c" and rows :: "'r list"
  assumes first_page: "fetch None n = take n rows"
    and next_page: "rows = xs @ r # ys \<Longrightarrow> fetch (Some (cursor r)) n = take n ys"

text \<open>A walk that asks for one row more than it shows.\<close>

fun walk_ahead :: "('c option \<Rightarrow> nat \<Rightarrow> 'r list) \<Rightarrow> ('r \<Rightarrow> 'c) \<Rightarrow> nat \<Rightarrow> nat \<Rightarrow> 'c option \<Rightarrow> 'r list" where
  "walk_ahead fetch cursor n 0 c = []"
| "walk_ahead fetch cursor n (Suc k) c = (let page = fetch c (n + 1) in
     if n < length page then take n page @ walk_ahead fetch cursor n k (Some (cursor (last (take n page)))) else page)"

text \<open>A walk that stops at a page that is not full.\<close>

fun walk_full :: "('c option \<Rightarrow> nat \<Rightarrow> 'r list) \<Rightarrow> ('r \<Rightarrow> 'c) \<Rightarrow> nat \<Rightarrow> nat \<Rightarrow> 'c option \<Rightarrow> 'r list" where
  "walk_full fetch cursor n 0 c = []"
| "walk_full fetch cursor n (Suc k) c = (let page = fetch c n in
     if length page < n then page else page @ walk_full fetch cursor n k (Some (cursor (last page))))"

context keyset
begin

definition rest_of :: "'c option \<Rightarrow> 'r list \<Rightarrow> bool" where
  "rest_of c ys \<longleftrightarrow> c = None \<and> ys = rows \<or> (\<exists>xs r. rows = xs @ r # ys \<and> c = Some (cursor r))"

lemma fetch_rest: "rest_of c ys \<Longrightarrow> fetch c n = take n ys"
  by (auto simp: rest_of_def first_page next_page)

lemma rest_next:
  assumes "rest_of c ys" "0 < n" "n \<le> length ys"
  shows "rest_of (Some (cursor (last (take n ys)))) (drop n ys)"
proof -
  obtain pre where "rows = pre @ ys" using assms(1) by (auto simp: rest_of_def)
  moreover have "take n ys = take (n - 1) ys @ [ys ! (n - 1)]" using assms(2,3) by (simp flip: take_Suc_conv_app_nth)
  then have "take n ys = butlast (take n ys) @ [last (take n ys)]" using assms(2,3) by simp
  then have "ys = butlast (take n ys) @ last (take n ys) # drop n ys" by (metis append.assoc append_Cons append_Nil append_take_drop_id)
  ultimately show ?thesis unfolding rest_of_def by (metis append.assoc)
qed

lemma walk_ahead_rest: "rest_of c ys \<Longrightarrow> 0 < n \<Longrightarrow> length ys < k \<Longrightarrow> walk_ahead fetch cursor n k c = ys"
proof (induction k arbitrary: c ys)
  case (Suc k)
  have page: "fetch c (n + 1) = take (n + 1) ys" by (rule fetch_rest [OF Suc.prems(1)])
  show ?case
  proof (cases "n < length ys")
    case True
    then have "walk_ahead fetch cursor n k (Some (cursor (last (take n ys)))) = drop n ys"
      using Suc.prems by (intro Suc.IH rest_next) auto
    with True page show ?thesis by (simp add: Let_def min_def)
  next
    case False
    with page show ?thesis by (simp add: Let_def)
  qed
qed simp

lemma walk_full_rest: "rest_of c ys \<Longrightarrow> 0 < n \<Longrightarrow> length ys < k \<Longrightarrow> walk_full fetch cursor n k c = ys"
proof (induction k arbitrary: c ys)
  case (Suc k)
  have page: "fetch c n = take n ys" by (rule fetch_rest [OF Suc.prems(1)])
  show ?case
  proof (cases "n \<le> length ys")
    case True
    then have "walk_full fetch cursor n k (Some (cursor (last (take n ys)))) = drop n ys"
      using Suc.prems by (intro Suc.IH rest_next) auto
    with True page show ?thesis by (simp add: Let_def)
  next
    case False
    with page show ?thesis by (simp add: Let_def)
  qed
qed simp

theorem walk_ahead_all: "0 < n \<Longrightarrow> length rows < k \<Longrightarrow> walk_ahead fetch cursor n k None = rows"
  by (rule walk_ahead_rest) (simp_all add: rest_of_def)

theorem walk_full_all: "0 < n \<Longrightarrow> length rows < k \<Longrightarrow> walk_full fetch cursor n k None = rows"
  by (rule walk_full_rest) (simp_all add: rest_of_def)

end

section \<open>Orders\<close>

text \<open>\<open>ORDER BY at DESC, key DESC\<close>.\<close>

definition latest_first :: "('r \<Rightarrow> 'a :: linorder) \<Rightarrow> ('r \<Rightarrow> 'b :: linorder) \<Rightarrow> 'r list \<Rightarrow> 'r list" where
  "latest_first at key rows = rev (sort_key at (sort_key key rows))"

definition later :: "('r \<Rightarrow> 'a :: linorder) \<Rightarrow> ('r \<Rightarrow> 'b :: linorder) \<Rightarrow> 'r \<Rightarrow> 'r \<Rightarrow> bool" where
  "later at key x y \<longleftrightarrow> at y < at x \<or> at y = at x \<and> key y < key x"

lemma set_latest_first [simp]: "set (latest_first at key rows) = set rows"
  by (simp add: latest_first_def)

lemma length_latest_first [simp]: "length (latest_first at key rows) = length rows"
  by (simp add: latest_first_def)

lemma filter_latest_first: "filter p (latest_first at key rows) = latest_first at key (filter p rows)"
  by (simp add: latest_first_def filter_sort flip: rev_filter)

lemma sorted_sort_key_stable:
  fixes at :: "'r \<Rightarrow> 'a :: linorder"
  assumes "sorted_wrt R xs"
  shows "sorted_wrt (\<lambda>x y. at x < at y \<or> at x = at y \<and> R x y) (sort_key at xs)"
proof -
  have eq: "sorted_wrt (\<lambda>x y. at x = at y \<longrightarrow> R x y) (sort_key at xs)"
  proof (rule sorted_wrt_iff_nth_less [THEN iffD2], intro allI impI)
    fix i j assume ij: "i < j" "j < length (sort_key at xs)" and at: "at (sort_key at xs ! i) = at (sort_key at xs ! j)"
    let ?ys = "sort_key at xs" and ?p = "\<lambda>y. at y = at (sort_key at xs ! j)"
    have "filter ?p ?ys = filter ?p xs" by (rule sort_key_stable)
    then have "sorted_wrt R (filter ?p ?ys)" using assms by (simp add: sorted_wrt_filter)
    moreover have "?ys = take i ?ys @ ?ys ! i # drop (Suc i) ?ys" using ij by (simp add: id_take_nth_drop)
    ultimately have "sorted_wrt R (filter ?p (take i ?ys) @ ?ys ! i # filter ?p (drop (Suc i) ?ys))"
      using at by (metis (mono_tags, lifting) filter.simps(2) filter_append)
    moreover have "?ys ! j \<in> set (drop (Suc i) ?ys)"
      using ij by (auto simp: in_set_conv_nth intro!: exI [of _ "j - Suc i"])
    ultimately show "R (?ys ! i) (?ys ! j)" by (auto simp: sorted_wrt_append)
  qed
  have "sorted_wrt (\<lambda>x y. at x \<le> at y) (sort_key at xs)" using sorted_sort_key [of at xs] by (simp add: sorted_map)
  with eq have "sorted_wrt (\<lambda>x y. at x \<le> at y \<and> (at x = at y \<longrightarrow> R x y)) (sort_key at xs)"
    by (simp add: sorted_wrt_iff_nth_less)
  then show ?thesis by (rule sorted_wrt_mono_rel [rotated]) auto
qed

lemma latest_first_sorted:
  assumes "distinct (map key rows)"
  shows "sorted_wrt (later at key) (latest_first at key rows)"
proof -
  have "sorted_wrt (\<lambda>x y. key x \<le> key y) (sort_key key rows)" using sorted_sort_key [of key rows] by (simp add: sorted_map)
  moreover have "distinct (map key (sort_key key rows))" using assms by (simp add: distinct_map)
  ultimately have "sorted_wrt (\<lambda>x y. key x < key y) (sort_key key rows)"
    by (simp add: sorted_wrt_iff_nth_less distinct_conv_nth) (metis le_neq_trans less_trans not_less_iff_gr_or_eq)
  from sorted_sort_key_stable [OF this, of at] show ?thesis
    unfolding latest_first_def sorted_wrt_rev later_def by (rule sorted_wrt_mono_rel [rotated]) auto
qed

text \<open>What comes after a row of a strictly ordered list is what the order puts after it.\<close>

lemma filter_after:
  assumes "sorted_wrt R rows" "rows = xs @ r # ys" "\<And>x y. R x y \<Longrightarrow> \<not> R y x"
  shows "filter (R r) rows = ys"
proof -
  have "\<forall>x \<in> set xs. \<not> R r x" "\<not> R r r" "\<forall>y \<in> set ys. R r y"
    using assms(1,3) unfolding assms(2) by (auto simp: sorted_wrt_append)
  then show ?thesis unfolding assms(2) by (simp add: filter_empty_conv [THEN iffD2])
qed

lemma later_asym: "later at key x y \<Longrightarrow> \<not> later at key y x"
  by (auto simp: later_def)

text \<open>Pages of a list in that order, cut by the date and the key of the last row.\<close>

lemma keyset_latest:
  assumes "distinct (map key rows)"
    and "\<And>n. fetch None n = take n (latest_first at key rows)"
    and "\<And>r n. r \<in> set rows \<Longrightarrow> fetch (Some (cursor r)) n = take n (latest_first at key (filter (later at key r) rows))"
  shows "keyset fetch cursor (latest_first at key rows)"
proof
  fix xs ys r n assume s: "latest_first at key rows = xs @ r # ys"
  then have "r \<in> set rows" by (metis in_set_conv_decomp set_latest_first)
  moreover have "filter (later at key r) (latest_first at key rows) = ys"
    by (rule filter_after [OF latest_first_sorted [OF assms(1)] s later_asym])
  ultimately show "fetch (Some (cursor r)) n = take n ys" using assms(3) by (simp add: filter_latest_first)
qed (rule assms(2))

end
