(* ===== verification/Social.thy ===== *)
theory Social
  imports Engagement Keyset
begin

text \<open>
  Following (\<open>internal/social/service.go\<close>, \<open>repo.go\<close>) and the consumer of its events
  (\<open>internal/worker/social_worker.go\<close>). With a publisher the service only checks and sends an event, and the
  consumer writes; without one the service writes itself. The broker is the argument \<open>accepts\<close>. The
  username of the other side, which the lists join, is \<open>None\<close> when the account is gone.
\<close>

section \<open>The table\<close>

definition follows_pair :: "nat \<Rightarrow> nat \<Rightarrow> social_relation \<Rightarrow> bool" where
  "follows_pair follower vlogger r \<longleftrightarrow> sr_follower r = follower \<and> sr_vlogger r = vlogger"

definition find_by_pair :: "nat \<Rightarrow> nat \<Rightarrow> social_relation option op" where
  "find_by_pair follower vlogger = query (\<lambda>d. find (follows_pair follower vlogger) (d_relations d))"

definition create_relation :: "nat \<Rightarrow> nat \<Rightarrow> unit op" where
  "create_relation follower vlogger = bnd read_now (\<lambda>now. bnd (create SocialRelations
     (\<lambda>_ d. \<exists>r \<in> set (d_relations d). follows_pair follower vlogger r)
     (\<lambda>i d. d\<lparr>d_relations := d_relations d @ [\<lparr>sr_id = i, sr_follower = follower, sr_vlogger = vlogger, sr_created = now\<rparr>]\<rparr>))
     (\<lambda>_. ret ()))"

definition delete_by_pair :: "nat \<Rightarrow> nat \<Rightarrow> nat op" where
  "delete_by_pair follower vlogger = exec_count (\<lambda>d. length (filter (follows_pair follower vlogger) (d_relations d)))
     (\<lambda>d. d\<lparr>d_relations := filter (\<lambda>r. \<not> follows_pair follower vlogger r) (d_relations d)\<rparr>)"

definition list_follower_ids_after :: "nat \<Rightarrow> nat \<Rightarrow> int \<Rightarrow> nat list op" where
  "list_follower_ids_after vlogger after limit = (if limit \<le> 0 then ret [] else
     query (\<lambda>d. take (nat limit) (sort (map sr_follower (filter (\<lambda>r. sr_vlogger r = vlogger \<and> after < sr_follower r) (d_relations d))))))"

definition username_of :: "account list \<Rightarrow> nat \<Rightarrow> gostr option" where
  "username_of as i = map_option acc_username (find (\<lambda>a. acc_id a = i) as)"

definition find_all_followers :: "nat \<Rightarrow> (social_relation \<times> gostr option) list op" where
  "find_all_followers vlogger = query (\<lambda>d. map (\<lambda>r. (r, username_of (d_accounts d) (sr_follower r)))
     (latest_first sr_created sr_id (filter (\<lambda>r. sr_vlogger r = vlogger) (d_relations d))))"

definition find_all_vloggers :: "nat \<Rightarrow> (social_relation \<times> gostr option) list op" where
  "find_all_vloggers follower = query (\<lambda>d. map (\<lambda>r. (r, username_of (d_accounts d) (sr_vlogger r)))
     (latest_first sr_created sr_id (filter (\<lambda>r. sr_follower r = follower) (d_relations d))))"

definition account_by_id :: "nat \<Rightarrow> account option op" where
  "account_by_id i = query (\<lambda>d. find (\<lambda>a. acc_id a = i) (d_accounts d))"

definition add_follower :: "nat \<Rightarrow> unit op" where
  "add_follower i = exec (\<lambda>d. d\<lparr>d_accounts := update_where (\<lambda>a. acc_id a = i) (\<lambda>a. a\<lparr>acc_followers := acc_followers a + 1\<rparr>) (d_accounts d)\<rparr>)"

definition drop_follower :: "nat \<Rightarrow> unit op" where
  "drop_follower i = exec (\<lambda>d. d\<lparr>d_accounts := update_where (\<lambda>a. acc_id a = i \<and> 0 < acc_followers a)
     (\<lambda>a. a\<lparr>acc_followers := acc_followers a - 1\<rparr>) (d_accounts d)\<rparr>)"

section \<open>The service\<close>

record social_svc =
  ss_publisher :: bool
  ss_notify :: bool

definition follow :: "(envelope \<Rightarrow> bool) \<Rightarrow> social_svc \<Rightarrow> nat \<Rightarrow> nat \<Rightarrow> unit op" where
  "follow accepts s follower vlogger = fail_if (follower = vlogger) ErrCannotFollowSelf (
     bnd (account_by_id vlogger) (\<lambda>a. fail_if (a = None) ErrAccountNotFound (
     bnd (find_by_pair follower vlogger) (\<lambda>existing. fail_if (existing \<noteq> None) ErrAlreadyFollowed (
     if \<not> ss_publisher s then bnd (create_relation follower vlogger) (\<lambda>_. apply_follow (ss_notify s) follower vlogger)
     else send_event accepts EventTypeSocialFollowed (SocialPayload follower vlogger) (PublishFollow follower vlogger))))))"

definition unfollow :: "(envelope \<Rightarrow> bool) \<Rightarrow> social_svc \<Rightarrow> nat \<Rightarrow> nat \<Rightarrow> unit op" where
  "unfollow accepts s follower vlogger = bnd (find_by_pair follower vlogger) (\<lambda>existing. fail_if (existing = None) ErrFollowNotFound (
     if \<not> ss_publisher s then bnd (delete_by_pair follower vlogger) (\<lambda>n. fail_if (n = 0) ErrFollowNotFound (ret ()))
     else send_event accepts EventTypeSocialUnfollowed (SocialPayload follower vlogger) (PublishUnfollow follower vlogger)))"

definition get_all_followers :: "nat \<Rightarrow> (social_relation \<times> gostr option) list op" where
  "get_all_followers vlogger = find_all_followers vlogger"

definition get_all_vloggers :: "nat \<Rightarrow> (social_relation \<times> gostr option) list op" where
  "get_all_vloggers follower = find_all_vloggers follower"

section \<open>The consumer\<close>

record social_worker =
  sw_following :: bool
  sw_inbox :: bool
  sw_notify :: bool

definition social_worker_name :: gostr where "social_worker_name = lit ''social-worker''"

definition followed_tx :: "social_worker \<Rightarrow> envelope \<Rightarrow> nat \<Rightarrow> nat \<Rightarrow> unit op" where
  "followed_tx e ev follower vlogger = once social_worker_name ev () (
     bnd (result_of (create_relation follower vlogger)) (\<lambda>res. case res of
       Inl err \<Rightarrow> if err = DbDuplicate then ret () else throw err
     | Inr _ \<Rightarrow> bnd (add_follower vlogger) (\<lambda>_. apply_follow (sw_notify e) follower vlogger)))"

definition unfollowed_tx :: "envelope \<Rightarrow> nat \<Rightarrow> nat \<Rightarrow> unit op" where
  "unfollowed_tx ev follower vlogger = once social_worker_name ev () (
     bnd (delete_by_pair follower vlogger) (\<lambda>n. if n = 0 then ret () else drop_follower vlogger))"

definition reset_following_feed :: "social_worker \<Rightarrow> nat \<Rightarrow> unit op" where
  "reset_following_feed e follower = bnd (whenever (sw_following e) (call (FollowingCacheDelete follower))) (\<lambda>_.
     whenever (sw_inbox e) (call (InboxClearActive follower)))"

definition handle_followed :: "social_worker \<Rightarrow> envelope \<Rightarrow> unit op" where
  "handle_followed e ev = (case ev_payload ev of
      SocialPayload follower vlogger \<Rightarrow> fail_if (follower = 0 \<or> vlogger = 0) ErrOther
        (bnd (transaction (followed_tx e ev follower vlogger)) (\<lambda>_. reset_following_feed e follower))
    | _ \<Rightarrow> throw ErrOther)"

definition handle_unfollowed :: "social_worker \<Rightarrow> envelope \<Rightarrow> unit op" where
  "handle_unfollowed e ev = (case ev_payload ev of
      SocialPayload follower vlogger \<Rightarrow> fail_if (follower = 0 \<or> vlogger = 0) ErrOther
        (bnd (transaction (unfollowed_tx ev follower vlogger)) (\<lambda>_. reset_following_feed e follower))
    | _ \<Rightarrow> throw ErrOther)"

definition handle_social :: "social_worker \<Rightarrow> envelope \<Rightarrow> unit op" where
  "handle_social e ev = (if ev_type ev = EventTypeSocialFollowed then handle_followed e ev
     else if ev_type ev = EventTypeSocialUnfollowed then handle_unfollowed e ev else throw ErrOther)"

section \<open>The number of followers\<close>

definition crowd_of :: "db \<Rightarrow> (nat \<times> int) list \<times> social_relation list" where
  "crowd_of d = (map (\<lambda>a. (acc_id a, acc_followers a)) (d_accounts d), d_relations d)"

definition relation_pair :: "social_relation \<Rightarrow> nat \<times> nat" where
  "relation_pair r = (sr_follower r, sr_vlogger r)"

fun crowd_ok :: "(table \<Rightarrow> nat) \<Rightarrow> (nat \<times> int) list \<times> social_relation list \<Rightarrow> bool" where
  "crowd_ok q (as, rs) \<longleftrightarrow> distinct (map relation_pair rs) \<and> (\<forall>(i, n) \<in> set as. n = tally sr_vlogger rs i)"

interpretation crowd: table_inv crowd_of crowd_ok "\<lambda>_ _. True"
  by unfold_locales auto

abbreviation keeps_crowd :: "db world \<Rightarrow> db world \<Rightarrow> bool" where
  "keeps_crowd \<equiv> keeps crowd_of crowd_ok (\<lambda>_ _. True)"

abbreviation crowded :: "db world \<Rightarrow> bool" where
  "crowded w \<equiv> crowd_ok (seqs w) (crowd_of (tabs w))"

lemma crowd_of_simps [simp]: "crowd_of (d\<lparr>d_processed := x\<rparr>) = crowd_of d" "crowd_of (d\<lparr>d_notifs := y\<rparr>) = crowd_of d"
  "crowd_of (d\<lparr>d_relations := rs\<rparr>) = (fst (crowd_of d), rs)" "snd (crowd_of d) = d_relations d"
  by (simp_all add: crowd_of_def)

lemma crowd_ok_env: "crowd_ok q x = crowd_ok q' x"
  by (cases x) simp

lemma crowd_followed:
  assumes "crowd_ok q (crowd_of d)" "\<forall>r \<in> set (d_relations d). relation_pair r \<noteq> relation_pair x"
    "d' = d\<lparr>d_relations := d_relations d @ [x], d_accounts := update_where (\<lambda>a. acc_id a = sr_vlogger x)
       (\<lambda>a. a\<lparr>acc_followers := acc_followers a + 1\<rparr>) (d_accounts d)\<rparr>"
  shows "crowd_ok q' (crowd_of d')"
proof -
  have "distinct (map relation_pair (d_relations d @ [x]))" using assms(1,2) by (auto simp: crowd_of_def)
  moreover have "n = tally sr_vlogger (d_relations d @ [x]) i" if "(i, n) \<in> set (fst (crowd_of d'))" for i n
    using that assms(1) unfolding assms(3) by (auto simp: crowd_of_def set_update_where)
  ultimately show ?thesis by (auto simp: crowd_of_def assms(3))
qed

lemma filter_distinct_key: "distinct (map f xs) \<Longrightarrow> x \<in> set xs \<Longrightarrow> filter (\<lambda>r. f r = f x) xs = [x]"
proof (induction xs)
  case (Cons y ys)
  then have "f x \<in> f ` set ys \<Longrightarrow> f y \<noteq> f x" by auto
  with Cons show ?case by (auto simp: filter_empty_conv) (metis image_eqI)+
qed simp

lemma crowd_unfollowed:
  assumes "crowd_ok q (crowd_of d)" "x \<in> set (d_relations d)" "follows_pair f v x"
    "d' = d\<lparr>d_relations := filter (\<lambda>r. \<not> follows_pair f v r) (d_relations d), d_accounts := update_where (\<lambda>a. acc_id a = v \<and> 0 < acc_followers a)
       (\<lambda>a. a\<lparr>acc_followers := acc_followers a - 1\<rparr>) (d_accounts d)\<rparr>"
  shows "crowd_ok q' (crowd_of d')"
proof -
  let ?rs = "d_relations d"
  have dist: "distinct (map relation_pair ?rs)" using assms(1) by (simp add: crowd_of_def)
  have same: "follows_pair f v r \<longleftrightarrow> relation_pair r = relation_pair x" for r using assms(3) by (auto simp: follows_pair_def relation_pair_def)
  have "filter (follows_pair f v) ?rs = [x]"
    unfolding same using dist assms(2) by (rule filter_distinct_key)
  then have one: "length (filter (follows_pair f v) ?rs) = 1" by simp
  have v: "\<forall>r \<in> set ?rs. follows_pair f v r \<longrightarrow> sr_vlogger r = v" by (simp add: follows_pair_def)
  have "n = tally sr_vlogger (filter (\<lambda>r. \<not> follows_pair f v r) ?rs) i" if "(i, n) \<in> set (fst (crowd_of d'))" for i n
  proof -
    obtain a where a: "a \<in> set (d_accounts d)" "i = acc_id a"
      "n = (if acc_id a = v \<and> 0 < acc_followers a then acc_followers a - 1 else acc_followers a)"
      using \<open>(i, n) \<in> _\<close> unfolding assms(4) by (auto simp: crowd_of_def set_update_where split: if_splits)
    have "acc_followers a = tally sr_vlogger ?rs i" using assms(1) a(1,2) by (auto simp: crowd_of_def)
    moreover have "0 < tally sr_vlogger ?rs i" if "i = v"
    proof -
      have "tally sr_vlogger (filter (\<lambda>r. \<not> follows_pair f v r) ?rs) i = tally sr_vlogger ?rs i - 1"
        using tally_remove [OF v, of i] one that by simp
      moreover have "0 \<le> tally sr_vlogger (filter (\<lambda>r. \<not> follows_pair f v r) ?rs) i" by (rule tally_simps(3))
      ultimately show ?thesis by linarith
    qed
    ultimately show ?thesis using a(2,3) one tally_remove [OF v, of i] by (cases "i = v") simp_all
  qed
  moreover have "distinct (map relation_pair (filter (\<lambda>r. \<not> follows_pair f v r) ?rs))" using dist by (simp add: distinct_map_filter)
  ultimately show ?thesis by (auto simp: crowd_of_def assms(4))
qed

lemma frame_relation_rows [rel_rules]:
  "(\<And>d x. g (d\<lparr>d_relations := x\<rparr>) = g d) \<Longrightarrow> steps (frame g) (create_relation f v)"
  "(\<And>d x. g (d\<lparr>d_relations := x\<rparr>) = g d) \<Longrightarrow> steps (frame g) (delete_by_pair f v)"
  "(\<And>d x. g (d\<lparr>d_accounts := x\<rparr>) = g d) \<Longrightarrow> steps (frame g) (add_follower v)"
  "(\<And>d x. g (d\<lparr>d_accounts := x\<rparr>) = g d) \<Longrightarrow> steps (frame g) (drop_follower v)"
  unfolding create_relation_def delete_by_pair_def add_follower_def drop_follower_def by (intro rel_rules; simp)+

lemma frame_once [rel_rules]:
  "(\<And>d x. g (d\<lparr>d_processed := x\<rparr>) = g d) \<Longrightarrow> steps (frame g) m \<Longrightarrow> steps (frame g) (once c ev x m)"
  unfolding once_def by (intro rel_rules)

lemma frame_reset [rel_rules]: "steps (frame g) (reset_following_feed e f)"
  unfolding reset_following_feed_def by (intro rel_rules)

lemma frame_account_by_id [rel_rules]: "steps (frame g) (account_by_id i)" "steps (frame g) (find_by_pair f v)"
  unfolding account_by_id_def find_by_pair_def by (intro rel_rules)+

lemma crowded_frame: "steps (frame crowd_of) m \<Longrightarrow> crowded w \<Longrightarrow> wp m (\<lambda>_. crowded) (\<lambda>_ _. True) w"
  by (rule wp_mono [OF wp_frame [OF _ wp_True]]) (auto intro: crowd_ok_env [THEN iffD1])

text \<open>After the gate, which touches neither accounts nor relations, the body.\<close>

lemma crowded_once:
  assumes "crowded w" "\<And>v. crowded v \<Longrightarrow> wp m (\<lambda>_. crowded) (\<lambda>_ _. True) v"
  shows "wp (once c ev x m) (\<lambda>_. crowded) (\<lambda>_ _. True) w"
proof -
  have "steps (frame crowd_of) (result_of (mark_processed c ev))" by (intro rel_rules) simp
  from crowded_frame [OF this assms(1)] show ?thesis
    unfolding once_def by (rule wp_and_then) (use assms(2) in \<open>auto simp: wp_basic split: sum.split\<close>)
qed

lemma wp_followed: "crowded w \<Longrightarrow> wp (followed_tx e ev f v) (\<lambda>_. crowded) (\<lambda>_ _. True) w"
  unfolding followed_tx_def
proof (rule crowded_once)
  fix u :: "db world" assume u: "crowded u"
  have notify: "steps (frame crowd_of) (apply_follow (sw_notify e) f v)" by (intro rel_rules) simp
  show "wp (bnd (result_of (create_relation f v)) (\<lambda>res. case res of
       Inl err \<Rightarrow> if err = DbDuplicate then ret () else throw err
     | Inr _ \<Rightarrow> bnd (add_follower v) (\<lambda>_. apply_follow (sw_notify e) f v))) (\<lambda>_. crowded) (\<lambda>_ _. True) u"
  proof (rule wp_and_then)
    let ?x = "\<lambda>i t. \<lparr>sr_id = i, sr_follower = f, sr_vlogger = v, sr_created = t\<rparr>"
    show "wp (result_of (create_relation f v)) (\<lambda>res x. case res of Inl _ \<Rightarrow> crowded x | Inr _ \<Rightarrow> \<exists>i t.
        tabs x = (tabs u)\<lparr>d_relations := d_relations (tabs u) @ [?x i t]\<rparr> \<and> (\<forall>r \<in> set (d_relations (tabs u)). relation_pair r \<noteq> (f, v)))
        (\<lambda>_ _. True) u"
      using u by (auto simp: create_relation_def wp_rules Let_def follows_pair_def relation_pair_def intro: crowd_ok_env [THEN iffD1])
    fix res :: "err + unit" and x :: "db world"
    assume x: "case res of Inl _ \<Rightarrow> crowded x | Inr _ \<Rightarrow> \<exists>i t.
        tabs x = (tabs u)\<lparr>d_relations := d_relations (tabs u) @ [?x i t]\<rparr> \<and> (\<forall>r \<in> set (d_relations (tabs u)). relation_pair r \<noteq> (f, v))"
    have add: "wp (add_follower v) (\<lambda>_. crowded) (\<lambda>_ _. True) x" if res: "res = Inr a" for a
    proof -
      obtain i t where it: "tabs x = (tabs u)\<lparr>d_relations := d_relations (tabs u) @ [?x i t]\<rparr>"
        "\<forall>r \<in> set (d_relations (tabs u)). relation_pair r \<noteq> (f, v)" using x res by auto
      have "crowd_ok q (crowd_of ((tabs x)\<lparr>d_accounts := update_where (\<lambda>a. acc_id a = v) (\<lambda>a. a\<lparr>acc_followers := acc_followers a + 1\<rparr>) (d_accounts (tabs x))\<rparr>))" for q
        by (rule crowd_followed [OF u, of "?x i t"]) (use it in \<open>simp_all add: relation_pair_def\<close>)
      then show ?thesis by (simp add: add_follower_def wp_rules)
    qed
    have "wp (bnd (add_follower v) (\<lambda>_. apply_follow (sw_notify e) f v)) (\<lambda>_. crowded) (\<lambda>_ _. True) x" if "res = Inr a" for a
      by (rule wp_and_then [OF add [OF that]]) (use notify crowded_frame in blast)
    with x show "wp (case res of Inl err \<Rightarrow> if err = DbDuplicate then ret () else throw err
        | Inr _ \<Rightarrow> bnd (add_follower v) (\<lambda>_. apply_follow (sw_notify e) f v)) (\<lambda>_. crowded) (\<lambda>_ _. True) x"
      by (cases res) (simp_all add: wp_basic)
  qed
qed

lemma wp_unfollowed: "crowded w \<Longrightarrow> wp (unfollowed_tx ev f v) (\<lambda>_. crowded) (\<lambda>_ _. True) w"
  unfolding unfollowed_tx_def
proof (rule crowded_once)
  fix u :: "db world" assume u: "crowded u"
  show "wp (bnd (delete_by_pair f v) (\<lambda>n. if n = 0 then ret () else drop_follower v)) (\<lambda>_. crowded) (\<lambda>_ _. True) u"
  proof (cases "\<exists>x \<in> set (d_relations (tabs u)). follows_pair f v x")
    case True
    then obtain x where x: "x \<in> set (d_relations (tabs u))" "follows_pair f v x" by blast
    have "crowd_ok q (crowd_of ((tabs u)\<lparr>d_relations := filter (\<lambda>r. \<not> follows_pair f v r) (d_relations (tabs u)),
        d_accounts := update_where (\<lambda>a. acc_id a = v \<and> 0 < acc_followers a) (\<lambda>a. a\<lparr>acc_followers := acc_followers a - 1\<rparr>) (d_accounts (tabs u))\<rparr>))" for q
      by (rule crowd_unfollowed [OF u x refl])
    moreover have "filter (follows_pair f v) (d_relations (tabs u)) \<noteq> []" using x by (auto simp: filter_empty_conv)
    ultimately show ?thesis by (simp add: delete_by_pair_def drop_follower_def wp_rules)
  next
    case False
    then have "filter (follows_pair f v) (d_relations (tabs u)) = []" "filter (\<lambda>r. \<not> follows_pair f v r) (d_relations (tabs u)) = d_relations (tabs u)"
      by (auto simp: filter_empty_conv filter_id_conv)
    with u show ?thesis by (auto simp: delete_by_pair_def wp_rules intro: crowd_ok_env [THEN iffD1])
  qed
qed

lemma grows_social_txs [rel_rules]: "steps grows (followed_tx e ev f v)" "steps grows (unfollowed_tx ev f v)"
  unfolding followed_tx_def unfollowed_tx_def by (intro rel_rules; simp)+

lemma goes_social_tx:
  assumes "\<And>w. crowded w \<Longrightarrow> wp m (\<lambda>_. crowded) (\<lambda>_ _. True) w" "steps grows m"
  shows "steps keeps_crowd (bnd (transaction m) (\<lambda>_. reset_following_feed e f))"
proof (rule crowd.kept.steps_bnd)
  show "steps keeps_crowd (transaction m)" by (rule crowd.committed) (use assms in \<open>simp_all add: holds_def\<close>)
  show "steps keeps_crowd (reset_following_feed e f)" for x :: 'a by (rule crowd.untouched) (intro rel_rules)
qed

lemma keeps_handle_social: "steps keeps_crowd (handle_social e ev)"
proof -
  have "steps keeps_crowd (handle_followed e ev)" "steps keeps_crowd (handle_unfollowed e ev)"
    unfolding handle_followed_def handle_unfollowed_def
    by (auto split: payload.split intro!: crowd.kept.steps_env goes_social_tx wp_followed wp_unfollowed grows_social_txs)
  then show ?thesis unfolding handle_social_def by (simp add: crowd.kept.steps_env)
qed

text \<open>With a publisher the service writes no table.\<close>

lemma frame_follow: "ss_publisher s \<Longrightarrow> steps (frame g) (follow accepts s f v)" "ss_publisher s \<Longrightarrow> steps (frame g) (unfollow accepts s f v)"
  unfolding follow_def unfollow_def by (simp_all only: not_True_eq_False if_False) (intro rel_rules)+

text \<open>The repair at every start (\<open>internal/db/db.go\<close>): the true numbers are written over the stored ones.\<close>

definition sync_follower_counts :: "unit op" where
  "sync_follower_counts = exec (\<lambda>d. d\<lparr>d_accounts := map (\<lambda>a. a\<lparr>acc_followers :=
     int (length (filter (\<lambda>r. sr_vlogger r = acc_id a) (d_relations d)))\<rparr>) (d_accounts d)\<rparr>)"

lemma crowd_synced: "distinct (map relation_pair (d_relations (tabs w))) \<Longrightarrow> wp sync_follower_counts (\<lambda>_. crowded) E w \<or> faults w (stmts w)"
  by (auto simp: sync_follower_counts_def wp_rules crowd_of_def tally_def)

text \<open>One step with a broker: a request, the consumer of an event, a new account, a restart, or anything that
  leaves relations and follower numbers alone.\<close>

inductive social_moves :: "db world \<Rightarrow> db world \<Rightarrow> bool" where
  asked: "ss_publisher s \<Longrightarrow> social_moves w (snd (follow accepts s f v w))"
| asked_back: "ss_publisher s \<Longrightarrow> social_moves w (snd (unfollow accepts s f v w))"
| consumed: "social_moves w (snd (handle_social e ev w))"
| joined: "acc_followers a = 0 \<Longrightarrow> acc_id a \<notin> sr_vlogger ` set (d_relations (tabs w)) \<Longrightarrow>
    social_moves w (w\<lparr>tabs := (tabs w)\<lparr>d_accounts := d_accounts (tabs w) @ [a]\<rparr>\<rparr>)"
| restarted: "social_moves w (snd (sync_follower_counts w))"
| crowd_untouched: "crowd_of (tabs w') = crowd_of (tabs w) \<Longrightarrow> social_moves w w'"

lemma social_moves_crowded: "social_moves w w' \<Longrightarrow> crowded w \<Longrightarrow> crowded w'"
proof (induction rule: social_moves.induct)
  case (asked s w accepts f v)
  then have "crowd_of (tabs (snd (follow accepts s f v w))) = crowd_of (tabs w)"
    using frame_follow(1) [OF asked(1), of crowd_of] by (simp add: steps_def)
  then show ?case using asked by (metis crowd_ok_env)
next
  case (asked_back s w accepts f v)
  then have "crowd_of (tabs (snd (unfollow accepts s f v w))) = crowd_of (tabs w)"
    using frame_follow(2) [OF asked_back(1), of crowd_of] by (simp add: steps_def)
  then show ?case using asked_back by (metis crowd_ok_env)
next
  case (consumed w e ev)
  then show ?case using keeps_handle_social [of e ev] by (simp add: steps_def keeps_def holds_def)
next
  case (joined a w)
  have "\<forall>r \<in> set (d_relations (tabs w)). sr_vlogger r \<noteq> acc_id a" using joined(2) by (metis imageI)
  then have "tally sr_vlogger (d_relations (tabs w)) (acc_id a) = 0" by (rule tally_zero)
  with joined show ?case by (auto simp: crowd_of_def)
next
  case (restarted w)
  then have "distinct (map relation_pair (d_relations (tabs w)))" by (simp add: crowd_of_def)
  then have "wp sync_follower_counts (\<lambda>_. crowded) (\<lambda>_. crowded) w \<or> faults w (stmts w)" by (rule crowd_synced)
  moreover have "crowded (next_stmt w)" using restarted by (auto intro: crowd_ok_env [THEN iffD1])
  ultimately show ?case by (auto simp: wp_def sync_follower_counts_def exec_def split: if_splits)
next
  case (crowd_untouched w' w)
  then show ?case by (metis crowd_ok_env)
qed

abbreviation social_runs :: "db world \<Rightarrow> db world \<Rightarrow> bool" where
  "social_runs \<equiv> social_moves\<^sup>*\<^sup>*"

text \<open>C35 Followers: with a broker, starting from true numbers, every account's stored number of followers stays
  the number of those who follow it, and nobody follows anybody twice, whatever events the consumer gets, again,
  late or out of order.\<close>

theorem followers_exact:
  assumes "distinct (map (\<lambda>r. (sr_follower r, sr_vlogger r)) (d_relations (tabs w)))"
    "\<forall>a \<in> set (d_accounts (tabs w)). acc_followers a = int (length (filter (\<lambda>r. sr_vlogger r = acc_id a) (d_relations (tabs w))))"
    "social_runs w w'"
  shows "distinct (map (\<lambda>r. (sr_follower r, sr_vlogger r)) (d_relations (tabs w')))
     \<and> (\<forall>a \<in> set (d_accounts (tabs w')). acc_followers a = int (length (filter (\<lambda>r. sr_vlogger r = acc_id a) (d_relations (tabs w')))))"
proof -
  have eq: "crowded x \<longleftrightarrow> distinct (map (\<lambda>r. (sr_follower r, sr_vlogger r)) (d_relations (tabs x)))
     \<and> (\<forall>a \<in> set (d_accounts (tabs x)). acc_followers a = int (length (filter (\<lambda>r. sr_vlogger r = acc_id a) (d_relations (tabs x)))))" for x :: "db world"
    by (auto simp: crowd_of_def relation_pair_def [abs_def] tally_def)
  have "crowded w" using assms(1,2) by (simp only: eq)
  from assms(3) this have "crowded w'" by (induction rule: rtranclp_induct) (auto dest: social_moves_crowded)
  then show ?thesis unfolding eq .
qed

text \<open>Without a publisher the service changes relations and never the numbers, which then wait for the next start.\<close>

lemma sync_mode_keeps_numbers:
  assumes "\<not> ss_publisher s"
  shows "d_accounts (tabs (snd (follow accepts s f v w))) = d_accounts (tabs w)"
    "d_accounts (tabs (snd (unfollow accepts s f v w))) = d_accounts (tabs w)"
proof -
  have "steps (frame d_accounts) (follow accepts s f v)" "steps (frame d_accounts) (unfollow accepts s f v)"
    unfolding follow_def unfollow_def by (simp_all only: assms not_False_eq_True if_True) (intro rel_rules; simp)+
  then show "d_accounts (tabs (snd (follow accepts s f v w))) = d_accounts (tabs w)"
    "d_accounts (tabs (snd (unfollow accepts s f v w))) = d_accounts (tabs w)" by (simp_all add: steps_def)
qed


section \<open>Example\<close>

definition demo_person :: "nat \<Rightarrow> account" where
  "demo_person i = \<lparr>acc_id = i, acc_username = lit ''p'', acc_followers = 0, acc_interests = []\<rparr>"

definition demo_crowd :: "db world" where
  "demo_crowd = quiet_world 0 (empty_db\<lparr>d_accounts := [demo_person 1, demo_person 2]\<rparr>)"

definition demo_follow_event :: envelope where
  "demo_follow_event = \<lparr>ev_id = lit ''e'', ev_type = EventTypeSocialFollowed, ev_occurred = 0, ev_producer = [], ev_version = 1,
     ev_payload = SocialPayload 2 1\<rparr>"

definition demo_social_worker :: social_worker where
  "demo_social_worker = \<lparr>sw_following = True, sw_inbox = True, sw_notify = False\<rparr>"

theorem followers_exact_witness:
  "\<exists>w. w = snd (handle_social demo_social_worker demo_follow_event demo_crowd) \<and> length (d_relations (tabs w)) = 1
     \<and> (\<exists>a \<in> set (d_accounts (tabs w)). acc_id a = 1 \<and> acc_followers a = 1)"
proof -
  let ?w = "snd (handle_social demo_social_worker demo_follow_event demo_crowd)"
  have run: "social_runs demo_crowd ?w" by (rule r_into_rtranclp) (rule social_moves.consumed)
  have after: "length (d_relations (tabs ?w)) = 1" "map acc_id (d_accounts (tabs ?w)) = [1, 2]" "\<forall>r \<in> set (d_relations (tabs ?w)). sr_vlogger r = 1"
    by (simp_all add: handle_social_def handle_followed_def demo_social_worker_def demo_follow_event_def demo_crowd_def followed_tx_def
        once_def mark_processed_def create_relation_def add_follower_def reset_following_feed_def apply_follow_def demo_person_def
        quiet_world_def empty_db_def bnd_def ret_def throw_def result_of_def read_now_def call_def exec_def exec_unique_def
        create_def next_stmt_def transaction_def Let_def)
  have "filter (\<lambda>r. sr_vlogger r = 1) (d_relations (tabs ?w)) = d_relations (tabs ?w)" using after(3) by simp
  moreover obtain a where a: "a \<in> set (d_accounts (tabs ?w))" "acc_id a = 1" using after(2) by (cases "d_accounts (tabs ?w)") auto
  moreover have "acc_followers a = int (length (filter (\<lambda>r. sr_vlogger r = acc_id a) (d_relations (tabs ?w))))"
    using followers_exact [OF _ _ run] a(1) by (simp add: demo_crowd_def quiet_world_def empty_db_def demo_person_def)
  ultimately show ?thesis using after(1) by (intro exI [of _ ?w]) (auto intro!: bexI [of _ a])
qed

end
