(* ===== verification/Direct_Messages.thy ===== *)
theory Direct_Messages
  imports Social
begin

text \<open>
  Direct messages (\<open>internal/dm/service.go\<close>, \<open>repo.go\<close>, \<open>entity.go\<close>). There is one conversation for each
  pair of accounts, the smaller one on the \<open>lo\<close> side, with the unread numbers and the read marks of both
  sides; messages are only appended. The lock on the conversation inside the transaction is the atomicity of
  transactions of this model.
\<close>

definition MaxBodyRunes :: nat where "MaxBodyRunes = 500"
definition StrangerQuota :: int where "StrangerQuota = 1"
definition PreviewRunes :: nat where "PreviewRunes = 40"
definition defaultListLimit :: int where "defaultListLimit = 50"
definition maxListLimit :: int where "maxListLimit = 100"
definition maxInboxSize :: nat where "maxInboxSize = 50"

datatype relation = RelationFriend | RelationFollowing | RelationFollower | RelationNone

section \<open>The two sides of a conversation\<close>

definition peer_id :: "conversation \<Rightarrow> nat \<Rightarrow> nat" where
  "peer_id c me = (if me = cv_lo c then cv_hi c else cv_lo c)"

definition unread_of :: "conversation \<Rightarrow> nat \<Rightarrow> int" where
  "unread_of c me = (if me = cv_lo c then cv_lo_unread c else cv_hi_unread c)"

definition last_read_at :: "conversation \<Rightarrow> nat \<Rightarrow> instant option" where
  "last_read_at c me = (if me = cv_lo c then cv_lo_read c else cv_hi_read c)"

definition pair :: "nat \<Rightarrow> nat \<Rightarrow> nat \<times> nat" where
  "pair a b = (if a < b then (a, b) else (b, a))"

section \<open>The tables\<close>

definition find_accounts :: "nat list \<Rightarrow> (nat \<Rightarrow> account option) op" where
  "find_accounts ids = (if ids = [] then ret Map.empty else
     query (\<lambda>d. map_of (rev (map (\<lambda>a. (acc_id a, a)) (filter (\<lambda>a. acc_id a \<in> set ids) (d_accounts d))))))"

definition relation_flags :: "nat \<Rightarrow> nat \<Rightarrow> (bool \<times> bool) op" where
  "relation_flags me peer = query (\<lambda>d. (\<exists>r \<in> set (d_relations d). follows_pair me peer r, \<exists>r \<in> set (d_relations d). follows_pair peer me r))"

definition of_pair :: "nat \<times> nat \<Rightarrow> conversation \<Rightarrow> bool" where
  "of_pair p c \<longleftrightarrow> (cv_lo c, cv_hi c) = p"

definition find_conversation :: "nat \<Rightarrow> nat \<Rightarrow> conversation option op" where
  "find_conversation me peer = query (\<lambda>d. find (of_pair (pair me peer)) (d_conversations d))"

definition new_conversation :: "nat \<times> nat \<Rightarrow> instant \<Rightarrow> conversation" where
  "new_conversation p now = \<lparr>cv_id = 0, cv_lo = fst p, cv_hi = snd p, cv_last_message = 0, cv_preview = [], cv_last_sender = 0,
     cv_last_at = now, cv_lo_unread = 0, cv_hi_unread = 0, cv_lo_read = None, cv_hi_read = None, cv_created = now\<rparr>"

definition ensure_conversation :: "nat \<Rightarrow> nat \<Rightarrow> instant \<Rightarrow> conversation op" where
  "ensure_conversation me peer now = bnd (result_of (create Conversations
     (\<lambda>_ d. \<exists>c \<in> set (d_conversations d). of_pair (pair me peer) c)
     (\<lambda>i d. d\<lparr>d_conversations := d_conversations d @ [(new_conversation (pair me peer) now)\<lparr>cv_id := i\<rparr>]\<rparr>))) (\<lambda>res.
     if (case res of Inl e \<Rightarrow> e \<noteq> DbDuplicate | Inr _ \<Rightarrow> False) then throw (case res of Inl e \<Rightarrow> e | Inr _ \<Rightarrow> ErrOther) else
     bnd (query (\<lambda>d. find (of_pair (pair me peer)) (d_conversations d))) (\<lambda>row. case row of None \<Rightarrow> throw ErrOther | Some c \<Rightarrow> ret c))"

definition by_sender :: "nat \<Rightarrow> nat \<Rightarrow> message \<Rightarrow> bool" where
  "by_sender conv sender m \<longleftrightarrow> ms_conversation m = conv \<and> ms_sender m = sender"

definition count_sent :: "nat \<Rightarrow> nat \<Rightarrow> int op" where
  "count_sent conv sender = query (\<lambda>d. int (length (filter (by_sender conv sender) (d_messages d))))"

definition insert_message :: "message \<Rightarrow> nat op" where
  "insert_message m = create Messages no_dup (\<lambda>i d. d\<lparr>d_messages := d_messages d @ [m\<lparr>ms_id := i\<rparr>]\<rparr>)"

definition update_conversation :: "nat \<Rightarrow> (conversation \<Rightarrow> conversation) \<Rightarrow> unit op" where
  "update_conversation i f = exec (\<lambda>d. d\<lparr>d_conversations := update_where (\<lambda>c. cv_id c = i) f (d_conversations d)\<rparr>)"

definition touched :: "conversation \<Rightarrow> nat \<Rightarrow> nat \<Rightarrow> gostr \<Rightarrow> instant \<Rightarrow> conversation \<Rightarrow> conversation" where
  "touched conv i me preview now c = (let c1 = c\<lparr>cv_last_message := i, cv_preview := preview, cv_last_sender := me, cv_last_at := now\<rparr> in
     if me = cv_lo conv then c1\<lparr>cv_hi_unread := cv_hi_unread conv + 1, cv_lo_read := Some now\<rparr>
     else c1\<lparr>cv_lo_unread := cv_lo_unread conv + 1, cv_hi_read := Some now\<rparr>)"

definition touch_after_send :: "conversation \<Rightarrow> nat \<Rightarrow> nat \<Rightarrow> gostr \<Rightarrow> instant \<Rightarrow> unit op" where
  "touch_after_send conv i me preview now = update_conversation (cv_id conv) (touched conv i me preview now)"

definition marked :: "conversation \<Rightarrow> nat \<Rightarrow> instant \<Rightarrow> conversation \<Rightarrow> conversation" where
  "marked conv me now c = (if me = cv_lo conv then c\<lparr>cv_lo_unread := 0, cv_lo_read := Some now\<rparr>
     else c\<lparr>cv_hi_unread := 0, cv_hi_read := Some now\<rparr>)"

definition repo_mark_read :: "conversation \<Rightarrow> nat \<Rightarrow> instant \<Rightarrow> unit op" where
  "repo_mark_read conv me now = update_conversation (cv_id conv) (marked conv me now)"

definition list_inbox :: "nat \<Rightarrow> nat \<Rightarrow> conversation list op" where
  "list_inbox me limit = query (\<lambda>d. take limit (latest_first cv_last_at cv_id (filter (\<lambda>c. cv_lo c = me \<or> cv_hi c = me) (d_conversations d))))"

definition sum_unread :: "nat \<Rightarrow> int op" where
  "sum_unread me = bnd (query (\<lambda>d. \<Sum>c\<leftarrow>filter (\<lambda>c. cv_lo c = me) (d_conversations d). cv_lo_unread c)) (\<lambda>lo.
     bnd (query (\<lambda>d. \<Sum>c\<leftarrow>filter (\<lambda>c. cv_hi c = me) (d_conversations d). cv_hi_unread c)) (\<lambda>hi. ret (lo + hi)))"

definition list_messages :: "nat \<Rightarrow> nat \<Rightarrow> nat \<Rightarrow> nat \<Rightarrow> message list op" where
  "list_messages conv after_id before_id limit = query (\<lambda>d. let rows = filter (\<lambda>m. ms_conversation m = conv) (d_messages d) in
     if 0 < after_id then take limit (sort_key ms_id (filter (\<lambda>m. after_id < ms_id m) rows))
     else if 0 < before_id then rev (take limit (newest ms_id (\<lambda>m. ms_id m < before_id) rows))
     else rev (take limit (newest ms_id (\<lambda>_. True) rows)))"

section \<open>Texts\<close>

definition normalize_body :: "gostr \<Rightarrow> err + gostr" where
  "normalize_body raw = (let body = trim_space raw in
     if body = [] then Inl ErrEmptyBody else if MaxBodyRunes < length body then Inl ErrBodyTooLong else Inr body)"

text \<open>\<open>strings.Fields\<close>: the maximal runs without white space, the run so far in \<open>word\<close>.\<close>

fun fields :: "gostr \<Rightarrow> gostr \<Rightarrow> gostr list" where
  "fields run [] = (if run = [] then [] else [run])"
| "fields run (r # rs) = (if is_space r then (if run = [] then fields [] rs else run # fields [] rs) else fields (run @ [r]) rs)"

fun join_words :: "gostr list \<Rightarrow> gostr" where
  "join_words [] = []"
| "join_words [w] = w"
| "join_words (w # ws) = w @ [32] @ join_words ws"

definition clip_preview :: "gostr \<Rightarrow> gostr" where
  "clip_preview body = (let collapsed = join_words (fields [] (map (\<lambda>r. if r = 10 then 32 else r) body)) in
     if length collapsed \<le> PreviewRunes then collapsed else take PreviewRunes collapsed @ [8230])"

section \<open>The service\<close>

definition relation_of :: "bool \<Rightarrow> bool \<Rightarrow> relation" where
  "relation_of following follower = (if following \<and> follower then RelationFriend else if following then RelationFollowing
     else if follower then RelationFollower else RelationNone)"

definition quota_state :: "bool \<Rightarrow> int \<Rightarrow> bool \<times> int" where
  "quota_state mutual sent = (if mutual then (True, -1) else
     let left = StrangerQuota - sent; left = (if left < 0 then 0 else left) in (0 < left, left))"

record message_view =
  mv_id :: nat
  mv_sender :: nat
  mv_body :: gostr
  mv_mine :: bool
  mv_read :: bool
  mv_created :: instant

definition to_message_views :: "nat \<Rightarrow> message list \<Rightarrow> instant option \<Rightarrow> message_view list" where
  "to_message_views me rows peer_read = map (\<lambda>m. \<lparr>mv_id = ms_id m, mv_sender = ms_sender m, mv_body = ms_body m, mv_mine = (ms_sender m = me),
     mv_read = (ms_sender m = me \<and> (case peer_read of None \<Rightarrow> False | Some t \<Rightarrow> ms_created m \<le> t)), mv_created = ms_created m\<rparr>) rows"

record send_result =
  sd_message :: message_view
  sd_relation :: relation
  sd_can_send :: bool
  sd_remaining :: int

definition send_tx :: "nat \<Rightarrow> nat \<Rightarrow> gostr \<Rightarrow> relation \<Rightarrow> instant \<Rightarrow> send_result op" where
  "send_tx me peer body relation now = bnd (ensure_conversation me peer now) (\<lambda>conv.
     bnd (count_sent (cv_id conv) me) (\<lambda>sent.
     fail_if (relation \<noteq> RelationFriend \<and> StrangerQuota \<le> sent) ErrQuotaExceeded (
     bnd (insert_message \<lparr>ms_id = 0, ms_conversation = cv_id conv, ms_sender = me, ms_body = body, ms_created = now\<rparr>) (\<lambda>i.
     bnd (touch_after_send conv i me (clip_preview body) now) (\<lambda>_.
     case quota_state (relation = RelationFriend) (sent + 1) of (can_send, remaining) \<Rightarrow>
     ret \<lparr>sd_message = \<lparr>mv_id = i, mv_sender = me, mv_body = body, mv_mine = True, mv_read = False, mv_created = now\<rparr>,
       sd_relation = relation, sd_can_send = can_send, sd_remaining = remaining\<rparr>)))))"

definition send :: "nat \<Rightarrow> nat \<Rightarrow> gostr \<Rightarrow> send_result op" where
  "send me peer content = fail_if (peer = 0) ErrPeerRequired (fail_if (peer = me) ErrSelf (
     bnd (lift (normalize_body content)) (\<lambda>body.
     bnd (account_by_id peer) (\<lambda>acc. fail_if (acc = None) ErrPeerMissing (
     bnd (relation_flags me peer) (\<lambda>flags. case flags of (following, follower) \<Rightarrow>
     bnd read_now (\<lambda>now. transaction (send_tx me peer body (relation_of following follower) now))))))))"

definition mark_read :: "nat \<Rightarrow> nat \<Rightarrow> unit op" where
  "mark_read me peer = fail_if (peer = 0) ErrPeerRequired (fail_if (peer = me) ErrSelf (
     bnd (find_conversation me peer) (\<lambda>conv. case conv of None \<Rightarrow> ret () | Some c \<Rightarrow>
     bnd read_now (\<lambda>now. repo_mark_read c me now))))"

definition unread_count :: "nat \<Rightarrow> int op" where
  "unread_count me = sum_unread me"

definition no_name :: gostr where "no_name = [29992, 25143]"

record conversation_view =
  vw_peer :: nat
  vw_name :: gostr
  vw_preview :: gostr
  vw_unread :: int
  vw_last_at :: instant
  vw_last_sender :: nat

definition view_conversation :: "nat \<Rightarrow> (nat \<Rightarrow> account option) \<Rightarrow> conversation \<Rightarrow> conversation_view" where
  "view_conversation me accounts c = \<lparr>vw_peer = peer_id c me,
     vw_name = (case accounts (peer_id c me) of None \<Rightarrow> no_name | Some a \<Rightarrow> acc_username a),
     vw_preview = cv_preview c, vw_unread = unread_of c me, vw_last_at = cv_last_at c, vw_last_sender = cv_last_sender c\<rparr>"

definition inbox :: "nat \<Rightarrow> conversation_view list op" where
  "inbox me = bnd (list_inbox me maxInboxSize) (\<lambda>rows.
     bnd (find_accounts (map (\<lambda>c. peer_id c me) rows)) (\<lambda>accounts.
     ret (map (view_conversation me accounts) rows)))"

record thread_result =
  th_peer :: nat
  th_name :: gostr
  th_relation :: relation
  th_can_send :: bool
  th_remaining :: int
  th_messages :: "message_view list"
  th_has_more :: bool

definition trim_page :: "nat \<Rightarrow> nat \<Rightarrow> message list \<Rightarrow> message list \<times> bool" where
  "trim_page limit after_id rows = (if limit < length rows then ((if 0 < after_id then take limit rows else drop 1 rows), True) else (rows, False))"

definition open_thread :: "nat \<Rightarrow> nat \<Rightarrow> conversation option \<Rightarrow> nat \<Rightarrow> nat \<Rightarrow> nat \<Rightarrow> ((message list \<times> bool) \<times> conversation option) op" where
  "open_thread me peer conv after_id before_id limit = (case conv of None \<Rightarrow> ret (([], False), None) | Some c \<Rightarrow>
     bnd (list_messages (cv_id c) after_id before_id (limit + 1)) (\<lambda>rows.
     if before_id \<noteq> 0 then ret (trim_page limit after_id rows, Some c) else
     bnd read_now (\<lambda>now. bnd (repo_mark_read c me now) (\<lambda>_.
     bnd (find_conversation me peer) (\<lambda>fresh.
     ret (trim_page limit after_id rows, Some (case fresh of None \<Rightarrow> c | Some c' \<Rightarrow> c')))))))"

definition thread :: "nat \<Rightarrow> nat \<Rightarrow> nat \<Rightarrow> nat \<Rightarrow> int \<Rightarrow> thread_result op" where
  "thread me peer after_id before_id limit = fail_if (peer = 0) ErrPeerRequired (fail_if (peer = me) ErrSelf (
     bnd (account_by_id peer) (\<lambda>acc.
     bnd (find_conversation me peer) (\<lambda>conv. fail_if (acc = None \<and> conv = None) ErrPeerMissing (
     bnd (relation_flags me peer) (\<lambda>flags. case flags of (following, follower) \<Rightarrow>
     let relation = relation_of following follower; limit = (if limit \<le> 0 \<or> maxListLimit < limit then defaultListLimit else limit) in
     bnd (open_thread me peer conv after_id before_id (nat limit)) (\<lambda>opened. case opened of ((messages, has_more), conv) \<Rightarrow>
     bnd (case conv of None \<Rightarrow> ret 0 | Some c \<Rightarrow> count_sent (cv_id c) me) (\<lambda>sent.
     case (if acc = None then (False, 0) else quota_state (relation = RelationFriend) sent) of (can_send, remaining) \<Rightarrow>
     ret \<lparr>th_peer = peer, th_name = (case acc of None \<Rightarrow> no_name | Some a \<Rightarrow> acc_username a), th_relation = relation,
       th_can_send = can_send, th_remaining = remaining,
       th_messages = to_message_views me messages (case conv of None \<Rightarrow> None | Some c \<Rightarrow> last_read_at c peer), th_has_more = has_more\<rparr>))))))))"

section \<open>The invariant\<close>

definition dm_of :: "db \<Rightarrow> conversation list \<times> message list" where
  "dm_of d = (d_conversations d, d_messages d)"

definition in_thread :: "conversation \<Rightarrow> message \<Rightarrow> bool" where
  "in_thread c m \<longleftrightarrow> ms_conversation m = cv_id c"

text \<open>The head of a conversation tells its last message; messages are by one of the two; unread numbers are
  never negative and never above the number of messages of the other side.\<close>

definition head_ok :: "message list \<Rightarrow> conversation \<Rightarrow> bool" where
  "head_ok ms c \<longleftrightarrow> cv_lo c < cv_hi c
     \<and> (\<exists>m. (filter (in_thread c) ms) \<noteq> [] \<and> m = last (filter (in_thread c) ms) \<and> cv_last_message c = ms_id m
          \<and> cv_last_sender c = ms_sender m \<and> cv_preview c = clip_preview (ms_body m) \<and> cv_last_at c = ms_created m)
     \<and> (\<forall>m \<in> set ms. in_thread c m \<longrightarrow> ms_sender m = cv_lo c \<or> ms_sender m = cv_hi c)
     \<and> 0 \<le> cv_lo_unread c \<and> cv_lo_unread c \<le> int (length (filter (by_sender (cv_id c) (cv_hi c)) ms))
     \<and> 0 \<le> cv_hi_unread c \<and> cv_hi_unread c \<le> int (length (filter (by_sender (cv_id c) (cv_lo c)) ms))"

fun dm_ok :: "(table \<Rightarrow> nat) \<Rightarrow> conversation list \<times> message list \<Rightarrow> bool" where
  "dm_ok q (cs, ms) \<longleftrightarrow> distinct (map cv_id cs) \<and> distinct (map (\<lambda>c. (cv_lo c, cv_hi c)) cs) \<and> (\<forall>c \<in> set cs. cv_id c \<le> q Conversations)
     \<and> sorted_wrt (<) (map ms_id ms) \<and> (\<forall>m \<in> set ms. ms_id m \<le> q Messages) \<and> ms_conversation ` set ms \<subseteq> cv_id ` set cs
     \<and> (\<forall>c \<in> set cs. head_ok ms c)"

text \<open>Messages are only appended, conversations stay.\<close>

fun dm_step :: "conversation list \<times> message list \<Rightarrow> conversation list \<times> message list \<Rightarrow> bool" where
  "dm_step (cs, ms) (cs', ms') \<longleftrightarrow> (\<exists>new. ms' = ms @ new) \<and> (\<exists>new. map (\<lambda>c. (cv_id c, cv_lo c, cv_hi c)) cs' = map (\<lambda>c. (cv_id c, cv_lo c, cv_hi c)) cs @ new)"

lemma dm_step_trans: "dm_step x y \<Longrightarrow> dm_step y z \<Longrightarrow> dm_step x z"
  by (cases x; cases y; cases z) auto

interpretation dm: table_inv dm_of dm_ok dm_step
proof
  show "dm_ok q x \<Longrightarrow> \<forall>t. q t \<le> q' t \<Longrightarrow> dm_ok q' x" for q q' x by (cases x) (auto intro: order_trans)
  show "dm_step x x" for x by (cases x) simp
qed (rule dm_step_trans)

abbreviation keeps_dm :: "db world \<Rightarrow> db world \<Rightarrow> bool" where
  "keeps_dm \<equiv> keeps dm_of dm_ok dm_step"

abbreviation chatting :: "db world \<Rightarrow> bool" where
  "chatting w \<equiv> dm_ok (seqs w) (dm_of (tabs w))"

lemma dm_of_simps [simp]: "dm_of (d\<lparr>d_conversations := cs\<rparr>) = (cs, d_messages d)" "dm_of (d\<lparr>d_messages := ms\<rparr>) = (d_conversations d, ms)"
  by (simp_all add: dm_of_def)

lemma marked_sel [simp]: "cv_id (marked x me now c) = cv_id c" "cv_lo (marked x me now c) = cv_lo c" "cv_hi (marked x me now c) = cv_hi c"
  "in_thread (marked x me now c) = in_thread c"
  by (simp_all add: marked_def in_thread_def fun_eq_iff)

lemma touched_sel [simp]: "cv_id (touched x i me p now c) = cv_id c" "cv_lo (touched x i me p now c) = cv_lo c"
  "cv_hi (touched x i me p now c) = cv_hi c" "in_thread (touched x i me p now c) = in_thread c"
  by (simp_all add: touched_def in_thread_def fun_eq_iff Let_def)

lemma head_marked: "head_ok ms c \<Longrightarrow> head_ok ms (marked x me now c)"
  unfolding head_ok_def marked_sel by (auto simp: marked_def)

lemma dm_marked:
  assumes "dm_ok q (cs, ms)"
  shows "dm_ok q (update_where p (marked x me now) cs, ms)" "dm_step (cs, ms) (update_where p (marked x me now) cs, ms)"
proof -
  let ?cs = "update_where p (marked x me now) cs"
  have same: "map cv_id ?cs = map cv_id cs" "map (\<lambda>c. (cv_lo c, cv_hi c)) ?cs = map (\<lambda>c. (cv_lo c, cv_hi c)) cs"
    "map (\<lambda>c. (cv_id c, cv_lo c, cv_hi c)) ?cs = map (\<lambda>c. (cv_id c, cv_lo c, cv_hi c)) cs" by (simp_all add: map_update_where)
  have ids: "cv_id ` set ?cs = cv_id ` set cs" using same(1) by (metis set_map)
  have "\<forall>c \<in> set ?cs. cv_id c \<le> q Conversations" using assms by (auto simp: set_update_where)
  moreover have "\<forall>c \<in> set ?cs. head_ok ms c" using assms by (auto simp: set_update_where head_marked)
  ultimately show "dm_ok q (?cs, ms)" using assms by (simp add: same(1,2) ids)
  show "dm_step (cs, ms) (?cs, ms)" using same(3) by simp
qed

section \<open>Sending\<close>

lemma by_sender_in: "by_sender (cv_id c) s m \<longleftrightarrow> in_thread c m \<and> ms_sender m = s"
  by (auto simp: by_sender_def in_thread_def)

text \<open>A conversation before the message: as the invariant has it, or new and empty.\<close>

definition fresh_head :: "message list \<Rightarrow> conversation \<Rightarrow> bool" where
  "fresh_head ms c \<longleftrightarrow> filter (in_thread c) ms = [] \<and> cv_lo c < cv_hi c \<and> cv_lo_unread c = 0 \<and> cv_hi_unread c = 0"

lemma head_touched:
  assumes "head_ok ms c \<or> fresh_head ms c" "me = cv_lo c \<or> me = cv_hi c" "ms_conversation m = cv_id c" "ms_sender m = me"
  shows "head_ok (ms @ [m]) (touched c (ms_id m) me (clip_preview (ms_body m)) (ms_created m) c)"
proof -
  let ?c = "touched c (ms_id m) me (clip_preview (ms_body m)) (ms_created m) c"
  have lt: "cv_lo c < cv_hi c" and senders: "\<forall>x \<in> set ms. in_thread c x \<longrightarrow> ms_sender x = cv_lo c \<or> ms_sender x = cv_hi c"
    using assms(1) by (auto simp: head_ok_def fresh_head_def filter_empty_conv)
  have unread: "0 \<le> cv_lo_unread c" "cv_lo_unread c \<le> int (length (filter (by_sender (cv_id c) (cv_hi c)) ms))"
    "0 \<le> cv_hi_unread c" "cv_hi_unread c \<le> int (length (filter (by_sender (cv_id c) (cv_lo c)) ms))"
    using assms(1) by (auto simp: head_ok_def fresh_head_def)
  have m: "in_thread c m" using assms(3) by (simp add: in_thread_def)
  have head: "cv_last_message ?c = ms_id m" "cv_last_sender ?c = ms_sender m" "cv_preview ?c = clip_preview (ms_body m)" "cv_last_at ?c = ms_created m"
    using assms(4) by (simp_all add: touched_def Let_def)
  have nums: "cv_lo_unread ?c = (if me = cv_lo c then cv_lo_unread c else cv_lo_unread c + 1)"
    "cv_hi_unread ?c = (if me = cv_lo c then cv_hi_unread c + 1 else cv_hi_unread c)" by (simp_all add: touched_def Let_def)
  show ?thesis
    unfolding head_ok_def touched_sel head nums
    using lt senders m assms(2,3,4) unread by (auto simp: by_sender_in)
qed

lemma head_other: "head_ok ms c \<Longrightarrow> ms_conversation m \<noteq> cv_id c \<Longrightarrow> head_ok (ms @ [m]) c"
  by (auto simp: head_ok_def in_thread_def by_sender_def)

definition opened :: "nat \<Rightarrow> nat \<Rightarrow> instant \<Rightarrow> db world \<Rightarrow> conversation \<Rightarrow> db world \<Rightarrow> bool" where
  "opened me peer now w c x \<longleftrightarrow> of_pair (pair me peer) c \<and> seqs x Messages = seqs w Messages
     \<and> seqs w Conversations \<le> seqs x Conversations
     \<and> (c \<in> set (d_conversations (tabs w)) \<and> tabs x = tabs w
        \<or> (\<forall>c' \<in> set (d_conversations (tabs w)). \<not> of_pair (pair me peer) c')
          \<and> c = (new_conversation (pair me peer) now)\<lparr>cv_id := Suc (seqs w Conversations)\<rparr> \<and> Suc (seqs w Conversations) \<le> seqs x Conversations
          \<and> tabs x = (tabs w)\<lparr>d_conversations := d_conversations (tabs w) @ [c]\<rparr>)"

lemma of_pair_new: "of_pair p ((new_conversation p now)\<lparr>cv_id := i\<rparr>)"
  by (simp add: of_pair_def new_conversation_def)

lemma find_append_none: "\<forall>x \<in> set xs. \<not> P x \<Longrightarrow> find P (xs @ ys) = find P ys"
  by (induction xs) auto

lemma wp_ensure: "wp (ensure_conversation me peer now) (\<lambda>c x. opened me peer now w c x) (\<lambda>_ _. True) w"
proof -
  have old: "opened me peer now w c x" if "find (of_pair (pair me peer)) (d_conversations (tabs w)) = Some c" "tabs x = tabs w"
      "seqs x = (seqs w)(Conversations := Suc (seqs w Conversations))" for c and x :: "db world"
    using that find_Some_in [OF that(1)] by (simp add: opened_def)
  have new: "opened me peer now w c x" if "\<forall>c' \<in> set (d_conversations (tabs w)). \<not> of_pair (pair me peer) c'"
      "c = (new_conversation (pair me peer) now)\<lparr>cv_id := Suc (seqs w Conversations)\<rparr>"
      "tabs x = (tabs w)\<lparr>d_conversations := d_conversations (tabs w) @ [c]\<rparr>"
      "seqs x = (seqs w)(Conversations := Suc (seqs w Conversations))" for c and x :: "db world"
    unfolding opened_def using that by (simp add: of_pair_new)
  show ?thesis
    unfolding ensure_conversation_def
    by (auto simp: wp_rules Let_def find_append_none of_pair_new split: option.split intro: old new)
qed

text \<open>What a successful send leaves.\<close>

definition sent_row :: "nat \<Rightarrow> nat \<Rightarrow> nat \<Rightarrow> gostr \<Rightarrow> instant \<Rightarrow> message" where
  "sent_row i conv me body now = \<lparr>ms_id = i, ms_conversation = conv, ms_sender = me, ms_body = body, ms_created = now\<rparr>"

definition after_send :: "nat \<Rightarrow> nat \<Rightarrow> gostr \<Rightarrow> relation \<Rightarrow> instant \<Rightarrow> db world \<Rightarrow> db world \<Rightarrow> bool" where
  "after_send me peer body relation now w x \<longleftrightarrow> (\<exists>c v. opened me peer now w c v
     \<and> (relation = RelationFriend \<or> int (length (filter (by_sender (cv_id c) me) (d_messages (tabs w)))) < StrangerQuota)
     \<and> (\<forall>t. seqs v t \<le> seqs x t) \<and> Suc (seqs w Messages) \<le> seqs x Messages
     \<and> tabs x = (tabs v)\<lparr>d_messages := d_messages (tabs w) @ [sent_row (Suc (seqs w Messages)) (cv_id c) me body now],
         d_conversations := update_where (\<lambda>c'. cv_id c' = cv_id c) (touched c (Suc (seqs w Messages)) me (clip_preview body) now) (d_conversations (tabs v))\<rparr>)"

lemma wp_send_tx: "wp (send_tx me peer body relation now) (\<lambda>r x. after_send me peer body relation now w x
    \<and> mv_id (sd_message r) = Suc (seqs w Messages)) (\<lambda>_ _. True) w"
  unfolding send_tx_def
proof (rule wp_and_then [OF wp_ensure])
  fix c and v :: "db world" assume v: "opened me peer now w c v"
  then have keep: "d_messages (tabs v) = d_messages (tabs w)" "seqs v Messages = seqs w Messages" by (auto simp: opened_def)
  show "wp (bnd (count_sent (cv_id c) me) (\<lambda>sent.
     fail_if (relation \<noteq> RelationFriend \<and> StrangerQuota \<le> sent) ErrQuotaExceeded (
     bnd (insert_message \<lparr>ms_id = 0, ms_conversation = cv_id c, ms_sender = me, ms_body = body, ms_created = now\<rparr>) (\<lambda>i.
     bnd (touch_after_send c i me (clip_preview body) now) (\<lambda>_.
     case quota_state (relation = RelationFriend) (sent + 1) of (can_send, remaining) \<Rightarrow>
     ret \<lparr>sd_message = \<lparr>mv_id = i, mv_sender = me, mv_body = body, mv_mine = True, mv_read = False, mv_created = now\<rparr>,
       sd_relation = relation, sd_can_send = can_send, sd_remaining = remaining\<rparr>)))))
     (\<lambda>r x. after_send me peer body relation now w x \<and> mv_id (sd_message r) = Suc (seqs w Messages)) (\<lambda>_ _. True) v"
    using v by (auto simp: count_sent_def insert_message_def touch_after_send_def update_conversation_def wp_rules Let_def keep
        after_send_def sent_row_def split: prod.split intro!: exI [of _ c] exI [of _ v])
qed

lemma of_pair_sides: "of_pair (pair me peer) c \<Longrightarrow> me \<noteq> peer \<Longrightarrow> cv_lo c < cv_hi c \<and> (me = cv_lo c \<or> me = cv_hi c)"
  by (auto simp: of_pair_def pair_def split: if_splits)

lemma dm_sent:
  assumes "chatting w" "me \<noteq> peer" "after_send me peer body relation now w x"
  shows "chatting x \<and> dm_step (dm_of (tabs w)) (dm_of (tabs x))"
proof -
  obtain c v where v: "opened me peer now w c v" and grow: "\<forall>t. seqs v t \<le> seqs x t" "Suc (seqs w Messages) \<le> seqs x Messages"
    and tabs: "tabs x = (tabs v)\<lparr>d_messages := d_messages (tabs w) @ [sent_row (Suc (seqs w Messages)) (cv_id c) me body now],
         d_conversations := update_where (\<lambda>c'. cv_id c' = cv_id c) (touched c (Suc (seqs w Messages)) me (clip_preview body) now) (d_conversations (tabs v))\<rparr>"
    using assms(3) unfolding after_send_def by blast
  define cs0 ms where "cs0 = d_conversations (tabs v)" and "ms = d_messages (tabs w)"
  define m where "m = sent_row (Suc (seqs w Messages)) (cv_id c) me body now"
  let ?t = "touched c (ms_id m) me (clip_preview (ms_body m)) (ms_created m)"
  let ?cs = "update_where (\<lambda>c'. cv_id c' = cv_id c) ?t cs0"
  have m: "ms_id m = Suc (seqs w Messages)" "ms_conversation m = cv_id c" "ms_sender m = me" "ms_body m = body" "ms_created m = now"
    by (simp_all add: m_def sent_row_def)
  have of_x: "dm_of (tabs x) = (?cs, ms @ [m])" by (simp add: dm_of_def tabs m cs0_def ms_def) (simp add: m_def)
  have ok: "distinct (map cv_id (d_conversations (tabs w)))" "distinct (map (\<lambda>c. (cv_lo c, cv_hi c)) (d_conversations (tabs w)))"
    "\<forall>c \<in> set (d_conversations (tabs w)). cv_id c \<le> seqs w Conversations" "sorted_wrt (<) (map ms_id ms)" "\<forall>m \<in> set ms. ms_id m \<le> seqs w Messages"
    "ms_conversation ` set ms \<subseteq> cv_id ` set (d_conversations (tabs w))" "\<forall>c \<in> set (d_conversations (tabs w)). head_ok ms c"
    using assms(1) by (simp_all add: dm_of_def ms_def)
  have sides: "me = cv_lo c \<or> me = cv_hi c" "cv_lo c < cv_hi c" using of_pair_sides [OF _ assms(2), of c] v by (auto simp: opened_def)
  have cs0: "cs0 = d_conversations (tabs w) \<and> c \<in> set cs0 \<or> cs0 = d_conversations (tabs w) @ [c] \<and> fresh_head ms c
      \<and> cv_id c = Suc (seqs w Conversations) \<and> (\<forall>c' \<in> set (d_conversations (tabs w)). \<not> of_pair (pair me peer) c') \<and> Suc (seqs w Conversations) \<le> seqs v Conversations"
  proof -
    have "fresh_head ms c" if "c = (new_conversation (pair me peer) now)\<lparr>cv_id := Suc (seqs w Conversations)\<rparr>"
    proof -
      have "ms_conversation x \<le> seqs w Conversations" if "x \<in> set ms" for x
      proof -
        have "ms_conversation x \<in> cv_id ` set (d_conversations (tabs w))" using ok(6) that by blast
        then show ?thesis using ok(3) by auto
      qed
      then have "filter (in_thread c) ms = []"
        using that by (force simp: filter_empty_conv in_thread_def)
      then show ?thesis using sides(2) that by (simp add: fresh_head_def new_conversation_def)
    qed
    then show ?thesis using v unfolding opened_def cs0_def by auto
  qed
  have c_in: "c \<in> set cs0" using cs0 by auto
  have bound: "\<forall>c \<in> set cs0. cv_id c \<le> seqs v Conversations" using cs0 ok(3) v by (auto simp: opened_def intro: order_trans)
  have "Suc (seqs w Conversations) \<notin> cv_id ` set (d_conversations (tabs w))" using ok(3) by (metis imageE Suc_n_not_le_n)
  then have ids: "distinct (map cv_id cs0)" using cs0 ok(1) by (elim disjE conjE) simp_all
  have pairs: "distinct (map (\<lambda>c. (cv_lo c, cv_hi c)) cs0)"
  proof -
    have "of_pair (pair me peer) c" using v by (simp add: opened_def)
    then have "(cv_lo c, cv_hi c) \<notin> (\<lambda>c. (cv_lo c, cv_hi c)) ` set xs" if "\<forall>c' \<in> set xs. \<not> of_pair (pair me peer) c'" for xs
      using that unfolding of_pair_def by fastforce
    then show ?thesis using cs0 ok(2) by (elim disjE conjE) simp_all
  qed
  have same: "map cv_id ?cs = map cv_id cs0" "map (\<lambda>c. (cv_lo c, cv_hi c)) ?cs = map (\<lambda>c. (cv_lo c, cv_hi c)) cs0"
    "map (\<lambda>c. (cv_id c, cv_lo c, cv_hi c)) ?cs = map (\<lambda>c. (cv_id c, cv_lo c, cv_hi c)) cs0" by (simp_all add: map_update_where)
  have img: "cv_id ` set ?cs = cv_id ` set cs0" using same(1) by (metis set_map)
  have heads: "\<forall>c' \<in> set ?cs. head_ok (ms @ [m]) c'"
  proof
    fix c' assume "c' \<in> set ?cs"
    then obtain k where k: "k \<in> set cs0" "c' = (if cv_id k = cv_id c then ?t k else k)" unfolding set_update_where by blast
    show "head_ok (ms @ [m]) c'"
    proof (cases "cv_id k = cv_id c")
      case True
      then have "k = c" using distinct_map_inj_eq [OF ids k(1) c_in] by simp
      moreover have "head_ok ms c \<or> fresh_head ms c" using cs0 ok(7) by auto
      ultimately show ?thesis using head_touched [OF _ sides(1) m(2,3)] k(2) by simp
    next
      case False
      then have "k \<in> set (d_conversations (tabs w))" using k(1) cs0 by auto
      then show ?thesis using False k(2) ok(7) m(2) by (auto intro: head_other)
    qed
  qed
  have sorted: "sorted_wrt (<) (map ms_id (ms @ [m]))" using ok(4,5) m(1) by (auto simp: sorted_wrt_append)
  have mbound: "\<forall>a \<in> set (ms @ [m]). ms_id a \<le> seqs x Messages" using ok(5) m(1) grow(2) by auto
  have convs: "ms_conversation ` set (ms @ [m]) \<subseteq> cv_id ` set ?cs" unfolding img using ok(6) cs0 c_in m(2) by auto
  have cbound: "\<forall>c' \<in> set ?cs. cv_id c' \<le> seqs x Conversations"
  proof -
    have "\<forall>i \<in> cv_id ` set cs0. i \<le> seqs x Conversations" using bound grow(1) by (metis imageE order_trans)
    then show ?thesis using img by blast
  qed
  have "chatting x" unfolding of_x dm_ok.simps same using ids pairs cbound sorted mbound convs heads by blast
  moreover have "dm_step (dm_of (tabs w)) (dm_of (tabs x))" unfolding of_x using cs0 same(3) by (auto simp: dm_of_def ms_def)
  ultimately show ?thesis by simp
qed

lemma grows_send_tx: "steps grows (send_tx me peer body relation now)"
  unfolding send_tx_def ensure_conversation_def count_sent_def insert_message_def touch_after_send_def update_conversation_def
  by (intro rel_rules; simp)

lemma keeps_send: "steps keeps_dm (send me peer content)"
proof (cases "me = peer")
  case True
  then show ?thesis by (simp add: send_def dm.kept.steps_env)
next
  case False
  have "steps keeps_dm (transaction (send_tx me peer body relation now))" for body relation now
  proof (rule dm.committed)
    fix w :: "db world" assume "holds dm_of dm_ok w"
    then show "wp (send_tx me peer body relation now) (\<lambda>_ w'. holds dm_of dm_ok w' \<and> dm_step (dm_of (tabs w)) (dm_of (tabs w'))) (\<lambda>_ _. True) w"
      using dm_sent [OF _ False] by (intro wp_mono [OF wp_send_tx]) (auto simp: holds_def)
  qed (rule grows_send_tx)
  moreover have "steps keeps_dm (account_by_id peer)" "steps keeps_dm (relation_flags me peer)"
    unfolding account_by_id_def relation_flags_def by (rule dm.untouched [OF framed.steps_env(7)])+
  ultimately show ?thesis unfolding send_def
    by (intro dm.kept.steps_if dm.kept.steps_env dm.kept.steps_bnd dm.kept.steps_prod) auto
qed

lemma keeps_repo_mark_read: "steps keeps_dm (repo_mark_read c me now)"
  unfolding repo_mark_read_def update_conversation_def
  by (rule dm.kept.steps_exec) (auto simp: keeps_def holds_def dm_of_def simp del: dm_ok.simps dm_step.simps intro: dm_marked)

lemma keeps_dm_reads: "steps keeps_dm (find_conversation me peer)" "steps keeps_dm (list_messages i a b n)"
  "steps keeps_dm (account_by_id peer)" "steps keeps_dm (relation_flags me peer)" "steps keeps_dm (count_sent i me)"
  unfolding find_conversation_def list_messages_def account_by_id_def relation_flags_def count_sent_def
  by (rule dm.untouched [OF framed.steps_env(7)])+

lemmas dm_rules = dm.kept.steps_if dm.kept.steps_env dm.kept.steps_bnd dm.kept.steps_prod dm.kept.steps_option
  keeps_repo_mark_read keeps_dm_reads

lemma keeps_mark_read: "steps keeps_dm (mark_read me peer)"
  unfolding mark_read_def by (intro dm_rules)

lemma keeps_thread: "steps keeps_dm (thread me peer a b n)"
  unfolding thread_def open_thread_def Let_def by (intro dm_rules)

inductive dm_moves :: "db world \<Rightarrow> db world \<Rightarrow> bool" where
  sent: "dm_moves w (snd (send me peer content w))"
| read: "dm_moves w (snd (mark_read me peer w))"
| threaded: "dm_moves w (snd (thread me peer a b n w))"
| dm_untouched: "dm_of (tabs w') = dm_of (tabs w) \<Longrightarrow> \<forall>t. seqs w t \<le> seqs w' t \<Longrightarrow> dm_moves w w'"

abbreviation dm_runs :: "db world \<Rightarrow> db world \<Rightarrow> bool" where
  "dm_runs \<equiv> dm_moves\<^sup>*\<^sup>*"

lemma dm_moves_keeps: "dm_moves w w' \<Longrightarrow> keeps_dm w w'"
proof (induction rule: dm_moves.induct)
  case (sent w me peer content)
  then show ?case using keeps_send by (simp add: steps_def)
next
  case (read w me peer)
  then show ?case using keeps_mark_read by (simp add: steps_def)
next
  case (threaded w me peer a b n)
  then show ?case using keeps_thread by (simp add: steps_def)
next
  case (dm_untouched w' w)
  then have "frame dm_of w w'" by (simp add: frame_def)
  then show ?case using dm.holds_env [of "w'" w] dm_untouched dm.mono by (auto simp: keeps_def holds_def intro: dm.refl)
qed

lemma dm_runs_keeps: "dm_runs w w' \<Longrightarrow> keeps_dm w w'"
  by (induction rule: rtranclp_induct) (auto intro: dm.kept.env dm.kept.trans dm_moves_keeps)

text \<open>C33 Conversations: from empty tables, however messages are sent and threads opened and marked read, there is
  one conversation for each pair of accounts; its head (sender, preview, date and number of the last message)
  is that of its newest message; every message belongs to a conversation and is by one of its two accounts;
  and the unread number of each side is between zero and the number of messages of the other side.\<close>

theorem conversations_sound:
  assumes "d_conversations (tabs w) = []" "d_messages (tabs w) = []" "dm_runs w w'"
  shows "distinct (map (\<lambda>c. (cv_lo c, cv_hi c)) (d_conversations (tabs w')))
     \<and> ms_conversation ` set (d_messages (tabs w')) \<subseteq> cv_id ` set (d_conversations (tabs w'))
     \<and> (\<forall>c \<in> set (d_conversations (tabs w')). head_ok (d_messages (tabs w')) c)"
proof -
  have "holds dm_of dm_ok w" using assms(1,2) by (simp add: holds_def dm_of_def)
  then have "chatting w'" using dm_runs_keeps [OF assms(3)] by (simp add: keeps_def holds_def)
  then show ?thesis by (simp add: dm_of_def)
qed

lemma wp_flags:
  assumes "\<And>a b x. tabs x = tabs w \<Longrightarrow> a = (\<exists>r \<in> set (d_relations (tabs w)). follows_pair me peer r)
      \<Longrightarrow> b = (\<exists>r \<in> set (d_relations (tabs w)). follows_pair peer me r) \<Longrightarrow> wp (f (a, b)) Q E x"
    "\<And>e x. tabs x = tabs w \<Longrightarrow> E e x"
  shows "wp (bnd (relation_flags me peer) f) Q E w"
  using assms by (simp add: relation_flags_def wp_bnd wp_stmt)



section \<open>Example\<close>

definition demo_chat :: "db world" where
  "demo_chat = snd (send 2 1 (lit ''hi'') (quiet_world 0 (empty_db\<lparr>d_accounts := [demo_person 1, demo_person 2]\<rparr>)))"

lemma demo_chat: "length (d_messages (tabs demo_chat)) = 1" "\<exists>c. d_conversations (tabs demo_chat) = [c] \<and> cv_lo_unread c = 1"
  by (simp_all add: demo_chat_def send_def normalize_body_def trim_space_def is_space_def lit_def MaxBodyRunes_def account_by_id_def
      relation_flags_def relation_of_def send_tx_def ensure_conversation_def pair_def of_pair_def new_conversation_def count_sent_def StrangerQuota_def
      insert_message_def touch_after_send_def update_conversation_def touched_def quota_state_def demo_person_def quiet_world_def empty_db_def
      bnd_def ret_def lift_def result_of_def read_now_def query_def exec_def create_def next_stmt_def transaction_def Let_def)

theorem conversations_sound_witness:
  "\<exists>c m. d_conversations (tabs demo_chat) = [c] \<and> d_messages (tabs demo_chat) = [m] \<and> cv_last_message c = ms_id m \<and> cv_lo_unread c = 1"
proof -
  let ?w = "quiet_world 0 (empty_db\<lparr>d_accounts := [demo_person 1, demo_person 2]\<rparr>)"
  obtain c where c: "d_conversations (tabs demo_chat) = [c]" "cv_lo_unread c = 1" using demo_chat(2) by blast
  obtain m where m: "d_messages (tabs demo_chat) = [m]" using demo_chat(1) by (auto simp: length_Suc_conv)
  have "dm_runs ?w demo_chat" unfolding demo_chat_def by (rule r_into_rtranclp) (rule dm_moves.sent)
  then have "head_ok [m] c" using conversations_sound [of ?w demo_chat] by (simp add: c m quiet_world_def empty_db_def)
  then show ?thesis using c m by (auto simp: head_ok_def split: if_splits)
qed

end
