(* ===== verification/Watching.thy ===== *)
theory Watching
  imports Video_Detail Keyset Stripe
begin

text \<open>
  What viewers leave on a video: danmaku (\<open>internal/danmaku\<close>) and the watch history (\<open>internal/history\<close>).
  Both ask the video service whether the account may see the video before anything else; this is the argument
  \<open>detail\<close>, with the locale \<open>video_pages\<close> as its contract. The shares of a duration the history compares with
  (a fifth, a tenth, 95 percent) are compared over the integers: for durations up to a day the products in
  \<open>float64\<close> round to the exact value whenever that is an integer. The rendered date of a history item is
  its number of milliseconds.
\<close>

section \<open>Danmaku\<close>

definition MaxContentRunes :: nat where "MaxContentRunes = 50"
definition MaxOffsetMs :: int where "MaxOffsetMs = 24 * 60 * 60 * 1000"
definition MaxListSize :: int where "MaxListSize = 800"

definition ensure_visible :: "(nat \<Rightarrow> nat \<Rightarrow> video op) \<Rightarrow> nat \<Rightarrow> nat \<Rightarrow> unit op" where
  "ensure_visible detail viewer i = bnd (detail viewer i) (\<lambda>_. ret ())"

definition create_danmaku :: "danmaku \<Rightarrow> danmaku op" where
  "create_danmaku row = bnd read_now (\<lambda>now. bnd (create Danmaku no_dup
     (\<lambda>i d. d\<lparr>d_danmaku := d_danmaku d @ [row\<lparr>dk_id := i, dk_created := now\<rparr>]\<rparr>)) (\<lambda>i. ret (row\<lparr>dk_id := i, dk_created := now\<rparr>)))"

definition list_by_video :: "nat \<Rightarrow> int \<Rightarrow> danmaku list op" where
  "list_by_video vid limit = query (\<lambda>d. take (nat (if limit \<le> 0 then MaxListSize else limit))
     (sort_key dk_offset (sort_key dk_id (filter (\<lambda>r. dk_video r = vid) (d_danmaku d)))))"

definition normalize_content :: "gostr \<Rightarrow> err + gostr" where
  "normalize_content raw = (let content = trim_space raw in
     if content = [] then Inl ErrEmptyContent else if MaxContentRunes < length content then Inl ErrContentTooLong else Inr content)"

definition list_danmaku :: "(nat \<Rightarrow> nat \<Rightarrow> video op) \<Rightarrow> nat \<Rightarrow> nat \<Rightarrow> danmaku list op" where
  "list_danmaku detail viewer vid = bnd (ensure_visible detail viewer vid) (\<lambda>_. list_by_video vid MaxListSize)"

definition send_danmaku :: "(nat \<Rightarrow> nat \<Rightarrow> video op) \<Rightarrow> nat \<Rightarrow> gostr \<Rightarrow> nat \<Rightarrow> gostr \<Rightarrow> int \<Rightarrow> danmaku op" where
  "send_danmaku detail acc username vid raw offset = bnd (lift (normalize_content raw)) (\<lambda>content.
     fail_if (offset < 0 \<or> MaxOffsetMs < offset) ErrInvalidOffset (
     bnd (ensure_visible detail acc vid) (\<lambda>_.
     create_danmaku \<lparr>dk_id = 0, dk_video = vid, dk_author = acc, dk_username = trim_space username, dk_content = content,
       dk_offset = offset, dk_created = 0\<rparr>)))"

section \<open>Watch progress\<close>

definition MinPersistMs :: int where "MinPersistMs = 3000"
definition CompleteRemainMs :: int where "CompleteRemainMs = 2000"
definition ResumeMinMs :: int where "ResumeMinMs = 2000"
definition DefaultHistoryLimit :: int where "DefaultHistoryLimit = 20"
definition MaxHistoryLimit :: int where "MaxHistoryLimit = 50"
definition MaxProgressIDs :: nat where "MaxProgressIDs = 50"

definition ShouldPersist :: "int \<Rightarrow> int \<Rightarrow> bool" where
  "ShouldPersist position duration \<longleftrightarrow> 0 < position \<and> (MinPersistMs \<le> position \<or> 0 < duration \<and> duration \<le> 5 * position)"

definition IsCompleted :: "int \<Rightarrow> int \<Rightarrow> bool" where
  "IsCompleted position duration \<longleftrightarrow> 0 < duration \<and> 0 < position
     \<and> (duration - position \<le> CompleteRemainMs \<or> 19 * duration \<le> 20 * position)"

definition ShouldResume :: "int \<Rightarrow> int \<Rightarrow> bool \<Rightarrow> bool" where
  "ShouldResume position duration completed \<longleftrightarrow> \<not> completed \<and> ResumeMinMs \<le> position
     \<and> \<not> (0 < duration \<and> 10 * position < duration) \<and> \<not> IsCompleted position duration"

definition ResumeMs :: "int \<Rightarrow> int \<Rightarrow> bool \<Rightarrow> int" where
  "ResumeMs position duration completed = (if ShouldResume position duration completed then position else 0)"

definition clamp_position :: "int \<Rightarrow> int \<Rightarrow> int" where
  "clamp_position position duration = (if position < 0 then 0 else if 0 < duration \<and> duration < position then duration else position)"

section \<open>The history table\<close>

definition watch_of :: "nat \<Rightarrow> nat \<Rightarrow> watch_history \<Rightarrow> bool" where
  "watch_of acc vid r \<longleftrightarrow> wh_account r = acc \<and> wh_video r = vid"

definition overwrite :: "watch_history \<Rightarrow> watch_history \<Rightarrow> watch_history" where
  "overwrite row r = r\<lparr>wh_position := wh_position row, wh_duration := wh_duration row, wh_completed := wh_completed row, wh_watched := wh_watched row\<rparr>"

text \<open>\<open>INSERT ... ON DUPLICATE KEY UPDATE\<close>.\<close>

definition upsert_row :: "watch_history \<Rightarrow> unit op" where
  "upsert_row row = bnd (create WatchHistories no_dup (\<lambda>i d. d\<lparr>d_watched :=
     (if \<exists>r \<in> set (d_watched d). watch_of (wh_account row) (wh_video row) r
      then update_where (watch_of (wh_account row) (wh_video row)) (overwrite row) (d_watched d)
      else d_watched d @ [row\<lparr>wh_id := i\<rparr>])\<rparr>)) (\<lambda>_. ret ())"

definition find_watch :: "nat \<Rightarrow> nat \<Rightarrow> watch_history option op" where
  "find_watch acc vid = query (\<lambda>d. find (watch_of acc vid) (d_watched d))"

definition find_by_video_ids :: "nat \<Rightarrow> nat list \<Rightarrow> watch_history list op" where
  "find_by_video_ids acc vids = (if vids = [] then ret [] else
     query (\<lambda>d. filter (\<lambda>r. wh_account r = acc \<and> wh_video r \<in> set vids) (d_watched d)))"

definition watched_shelf :: "nat \<Rightarrow> bool \<Rightarrow> db \<Rightarrow> watch_history list" where
  "watched_shelf acc completed d = filter (\<lambda>r. wh_account r = acc \<and> wh_completed r = completed) (d_watched d)"

definition below_cursor :: "int \<Rightarrow> nat \<Rightarrow> watch_history \<Rightarrow> bool" where
  "below_cursor ms i r \<longleftrightarrow> wh_watched r < ms \<or> wh_watched r = ms \<and> wh_id r < i"

definition watched_page :: "nat \<Rightarrow> bool \<Rightarrow> int \<Rightarrow> nat \<Rightarrow> nat \<Rightarrow> db \<Rightarrow> watch_history list" where
  "watched_page acc completed ms i limit d = take limit (latest_first wh_watched wh_id
     (if 0 < ms \<or> 0 < i then filter (below_cursor ms i) (watched_shelf acc completed d) else watched_shelf acc completed d))"

definition list_watched :: "nat \<Rightarrow> bool \<Rightarrow> int \<Rightarrow> nat \<Rightarrow> nat \<Rightarrow> watch_history list op" where
  "list_watched acc completed ms i limit = query (watched_page acc completed ms i limit)"

section \<open>Cursors\<close>

definition parse_uint64 :: "gostr \<Rightarrow> nat option" where
  "parse_uint64 s = (if s = [] \<or> (\<exists>r \<in> set s. r < 48 \<or> 57 < r) then None else
     if dec_val 0 s < 2 ^ 64 then Some (dec_val 0 s) else None)"

definition encode_cursor :: "int \<Rightarrow> nat \<Rightarrow> gostr" where
  "encode_cursor ms i = dec ms @ [58] @ dec_nat i"

definition parse_cursor :: "gostr \<Rightarrow> err + int \<times> nat" where
  "parse_cursor raw = (let raw = trim_space raw in if raw = [] then Inr (0, 0) else
     case split_at 58 raw of
       [a, b] \<Rightarrow> (case parse_int64 a of None \<Rightarrow> Inl ErrInvalidCursor | Some ms \<Rightarrow> if ms < 0 then Inl ErrInvalidCursor else
          (case parse_uint64 b of None \<Rightarrow> Inl ErrInvalidCursor | Some i \<Rightarrow> Inr (ms, i)))
     | _ \<Rightarrow> Inl ErrInvalidCursor)"

definition parse_status :: "gostr \<Rightarrow> err + bool" where
  "parse_status s = (if trim_space s = lit ''unfinished'' then Inr False else if trim_space s = lit ''completed'' then Inr True
     else Inl ErrInvalidStatus)"

section \<open>The history service\<close>

record history_item =
  hi_video :: nat
  hi_position :: int
  hi_duration :: int
  hi_completed :: bool
  hi_resume :: int
  hi_watched :: int
  hi_card :: video

definition item_from_row :: "(nat \<Rightarrow> nat \<Rightarrow> video op) \<Rightarrow> nat \<Rightarrow> watch_history \<Rightarrow> history_item op" where
  "item_from_row detail acc r = bnd (detail acc (wh_video r)) (\<lambda>v. ret
     \<lparr>hi_video = wh_video r, hi_position = wh_position r, hi_duration = wh_duration r, hi_completed = wh_completed r,
      hi_resume = ResumeMs (wh_position r) (wh_duration r) (wh_completed r), hi_watched = wh_watched r, hi_card = v\<rparr>)"

definition watch_row :: "nat \<Rightarrow> nat \<Rightarrow> int \<Rightarrow> int \<Rightarrow> instant \<Rightarrow> watch_history" where
  "watch_row acc vid position duration now = \<lparr>wh_id = 0, wh_account = acc, wh_video = vid,
     wh_position = (if IsCompleted position duration then 0 else position), wh_duration = duration,
     wh_completed = IsCompleted position duration, wh_watched = now div 1000000\<rparr>"

definition upsert :: "(nat \<Rightarrow> nat \<Rightarrow> video op) \<Rightarrow> nat \<Rightarrow> nat \<Rightarrow> int \<Rightarrow> int \<Rightarrow> history_item option op" where
  "upsert detail acc vid position_ms duration = fail_if (vid = 0) ErrInvalidProgress (
     fail_if (position_ms < 0 \<or> duration < 0 \<or> MaxOffsetMs < position_ms \<or> MaxOffsetMs < duration) ErrInvalidProgress (
     bnd (detail acc vid) (\<lambda>_.
     let position = clamp_position position_ms duration in
     if \<not> ShouldPersist position duration then ret None else
     bnd read_now (\<lambda>now.
     let row = watch_row acc vid position duration now in
     bnd (upsert_row row) (\<lambda>_. bnd (item_from_row detail acc row) (\<lambda>item. ret (Some item)))))))"

fun items_from_rows :: "(nat \<Rightarrow> nat \<Rightarrow> video op) \<Rightarrow> nat \<Rightarrow> watch_history list \<Rightarrow> history_item list op" where
  "items_from_rows detail acc [] = ret []"
| "items_from_rows detail acc (r # rs) = bnd (result_of (item_from_row detail acc r)) (\<lambda>res. case res of
     Inl e \<Rightarrow> if e = ErrVideoNotFound then items_from_rows detail acc rs else throw e
   | Inr item \<Rightarrow> bnd (items_from_rows detail acc rs) (\<lambda>items. ret (item # items)))"

definition list_history :: "(nat \<Rightarrow> nat \<Rightarrow> video op) \<Rightarrow> nat \<Rightarrow> gostr \<Rightarrow> gostr \<Rightarrow> int \<Rightarrow> (history_item list \<times> gostr \<times> bool) op" where
  "list_history detail acc status cursor limit = bnd (lift (parse_status status)) (\<lambda>completed.
     let limit = (if limit \<le> 0 then DefaultHistoryLimit else limit);
         limit = nat (if MaxHistoryLimit < limit then MaxHistoryLimit else limit) in
     bnd (lift (parse_cursor cursor)) (\<lambda>at. case at of (ms, i) \<Rightarrow>
     bnd (list_watched acc completed ms i (limit + 1)) (\<lambda>fetched.
     let has_more = limit < length fetched; rows = (if has_more then take limit fetched else fetched) in
     bnd (items_from_rows detail acc rows) (\<lambda>items.
     ret (items, (if has_more \<and> rows \<noteq> [] then encode_cursor (wh_watched (last rows)) (wh_id (last rows)) else []), has_more)))))"

text \<open>\<open>Progress\<close>: the loop that keeps the visible identifiers, each once.\<close>

fun visible_ids :: "(nat \<Rightarrow> nat \<Rightarrow> video op) \<Rightarrow> nat \<Rightarrow> nat list \<Rightarrow> nat list \<Rightarrow> nat list op" where
  "visible_ids detail acc seen [] = ret []"
| "visible_ids detail acc seen (i # is) = (if i = 0 \<or> i \<in> set seen then visible_ids detail acc seen is else
     bnd (result_of (detail acc i)) (\<lambda>res. case res of
       Inl e \<Rightarrow> if e = ErrVideoNotFound then visible_ids detail acc (i # seen) is else throw e
     | Inr _ \<Rightarrow> bnd (visible_ids detail acc (i # seen) is) (\<lambda>vs. ret (i # vs))))"

record progress_item =
  pg_video :: nat
  pg_position :: int
  pg_duration :: int
  pg_completed :: bool
  pg_resume :: int

definition progress :: "(nat \<Rightarrow> nat \<Rightarrow> video op) \<Rightarrow> nat \<Rightarrow> nat list \<Rightarrow> progress_item list op" where
  "progress detail acc ids = (if ids = [] then ret [] else fail_if (MaxProgressIDs < length ids) ErrTooManyIDs (
     bnd (visible_ids detail acc [] ids) (\<lambda>visible.
     bnd (find_by_video_ids acc visible) (\<lambda>rows.
     ret (map (\<lambda>r. \<lparr>pg_video = wh_video r, pg_position = wh_position r, pg_duration = wh_duration r, pg_completed = wh_completed r,
       pg_resume = ResumeMs (wh_position r) (wh_duration r) (wh_completed r)\<rparr>) rows)))))"

section \<open>Cursors come back\<close>

lemma split_at_first: "c \<notin> set xs \<Longrightarrow> split_at c (xs @ c # ys) = xs # split_at c ys"
  by (induction xs) auto

lemma split_at_none: "c \<notin> set xs \<Longrightarrow> split_at c xs = [xs]"
  by (induction xs) auto

lemma parse_int64_dec: "0 \<le> x \<Longrightarrow> i64 x \<Longrightarrow> parse_int64 (dec x) = Some x"
proof -
  assume x: "0 \<le> x" "i64 x"
  have digit: "48 \<le> r \<and> r \<le> 57" if "r \<in> set (dec_nat (nat x))" for r using that by (rule dec_nat_digits)
  have "hd (dec_nat (nat x)) \<in> set (dec_nat (nat x))" by simp
  then have "hd (dec_nat (nat x)) \<noteq> 45" "hd (dec_nat (nat x)) \<noteq> 43" using digit by fastforce+
  moreover have "\<not> (\<exists>r \<in> set (dec_nat (nat x)). r < 48 \<or> 57 < r)" using digit by fastforce
  ultimately show ?thesis using x by (simp add: parse_int64_def dec_def Let_def)
qed

lemma parse_uint64_dec: "n < 2 ^ 64 \<Longrightarrow> parse_uint64 (dec_nat n) = Some n"
proof -
  assume n: "n < 2 ^ 64"
  have "\<not> (\<exists>r \<in> set (dec_nat n). r < 48 \<or> 57 < r)" using dec_nat_digits by fastforce
  then show ?thesis using n by (simp add: parse_uint64_def)
qed

text \<open>C39 The cursor a page of the history ends with is read back as the date and the number it was made of.\<close>

theorem cursor_round_trip:
  assumes "0 \<le> ms" "i64 ms" "i < 2 ^ 64"
  shows "parse_cursor (encode_cursor ms i) = Inr (ms, i)"
proof -
  have dec: "dec ms = dec_nat (nat ms)" using assms(1) by (simp add: dec_def)
  have digits: "\<not> is_space r" "r \<noteq> 58" if "r \<in> set (dec_nat n)" for r n using dec_nat_digits [OF that] by (auto simp: is_space_def)
  have "trim_space (encode_cursor ms i) = encode_cursor ms i"
  proof (rule trim_space_no_space)
    fix r assume "r \<in> set (encode_cursor ms i)"
    then have "r = 58 \<or> r \<in> set (dec_nat (nat ms)) \<or> r \<in> set (dec_nat i)" by (auto simp: encode_cursor_def dec)
    then show "\<not> is_space r" using digits(1) by (auto simp: is_space_def [of 58])
  qed
  moreover have "split_at 58 (encode_cursor ms i) = [dec ms, dec_nat i]"
  proof -
    have "58 \<notin> set (dec_nat n)" for n using digits(2) by blast
    then show ?thesis by (simp add: encode_cursor_def dec split_at_first split_at_none)
  qed
  moreover have "encode_cursor ms i \<noteq> []" by (simp add: encode_cursor_def)
  ultimately show ?thesis using parse_int64_dec [OF assms(1,2)] parse_uint64_dec [OF assms(3)] assms(1) by (simp add: parse_cursor_def)
qed

theorem cursor_round_trip_witness: "parse_cursor (encode_cursor 1754000000000 42) = Inr (1754000000000, 42)"
  by (rule cursor_round_trip) (simp_all add: i64_def)

section \<open>Pages of the history\<close>

definition fetch_watched :: "nat \<Rightarrow> bool \<Rightarrow> db \<Rightarrow> (int \<times> nat) option \<Rightarrow> nat \<Rightarrow> watch_history list" where
  "fetch_watched acc completed d c limit = (case c of None \<Rightarrow> watched_page acc completed 0 0 limit d
     | Some (ms, i) \<Rightarrow> watched_page acc completed ms i limit d)"

definition watch_cursor :: "watch_history \<Rightarrow> int \<times> nat" where
  "watch_cursor r = (wh_watched r, wh_id r)"

text \<open>The database if the numbers of its rows are as the table assigns them, positive and unique.\<close>

definition numbered :: "db \<Rightarrow> db" where
  "numbered d = (if distinct (map wh_id (d_watched d)) \<and> (\<forall>r \<in> set (d_watched d). 0 < wh_id r) then d else d\<lparr>d_watched := []\<rparr>)"

lemma numbered: "distinct (map wh_id (d_watched (numbered d)))" "r \<in> set (d_watched (numbered d)) \<Longrightarrow> 0 < wh_id r"
  by (auto simp: numbered_def split: if_splits)

interpretation history: keyset "fetch_watched acc completed (numbered d)" watch_cursor
  "latest_first wh_watched wh_id (watched_shelf acc completed (numbered d))" for acc completed d
proof (rule keyset_latest)
  let ?d = "numbered d"
  show "distinct (map wh_id (watched_shelf acc completed ?d))" using numbered(1) [of d] by (simp add: watched_shelf_def distinct_map_filter)
  show "fetch_watched acc completed ?d None n = take n (latest_first wh_watched wh_id (watched_shelf acc completed ?d))" for n
    by (simp add: fetch_watched_def watched_page_def)
  fix r n assume "r \<in> set (watched_shelf acc completed ?d)"
  then have "0 < wh_id r" using numbered(2) [of r d] by (simp add: watched_shelf_def)
  moreover have "below_cursor (wh_watched r) (wh_id r) = later wh_watched wh_id r" by (simp add: fun_eq_iff below_cursor_def later_def)
  ultimately show "fetch_watched acc completed ?d (Some (watch_cursor r)) n
      = take n (latest_first wh_watched wh_id (filter (later wh_watched wh_id r) (watched_shelf acc completed ?d)))"
    by (simp add: fetch_watched_def watched_page_def watch_cursor_def)
qed



section \<open>Only what one may see\<close>

text \<open>What saving a row leaves.\<close>

definition saved_row :: "nat \<Rightarrow> watch_history \<Rightarrow> db \<Rightarrow> db" where
  "saved_row i row d = d\<lparr>d_watched := (if \<exists>r \<in> set (d_watched d). watch_of (wh_account row) (wh_video row) r
     then update_where (watch_of (wh_account row) (wh_video row)) (overwrite row) (d_watched d)
     else d_watched d @ [row\<lparr>wh_id := i\<rparr>])\<rparr>"

text \<open>The contract of the video service: its detail page changes no table and answers only for videos the
  account may see.\<close>

locale video_pages =
  fixes detail :: "nat \<Rightarrow> nat \<Rightarrow> video op" and may_see :: "db \<Rightarrow> nat \<Rightarrow> nat \<Rightarrow> bool"
  assumes reads: "steps (frame (\<lambda>d. d)) (detail viewer i)"
    and sees: "detail viewer i w = (Inr v, w') \<Longrightarrow> may_see (tabs w) viewer i"
begin

lemma wp_detail: "wp (detail viewer i) (\<lambda>_ w'. tabs w' = tabs w \<and> may_see (tabs w) viewer i) (\<lambda>_ w'. tabs w' = tabs w) w"
  by (rule wpI) (use reads_same [OF reads] sees in blast)+

lemma frame_detail: "steps (frame g) (detail viewer i)"
  using reads [of viewer i] by (simp add: steps_def)

lemma bnd_ensure: "bnd (ensure_visible detail viewer i) f = bnd (detail viewer i) (\<lambda>_. f ())"
  by (rule ext) (simp add: ensure_visible_def bnd_def ret_def split: prod.split sum.split)

lemma wp_list_danmaku:
  "wp (list_danmaku detail viewer vid) (\<lambda>_ w'. tabs w' = tabs w \<and> may_see (tabs w) viewer vid) (\<lambda>_ w'. tabs w' = tabs w) w"
  unfolding list_danmaku_def bnd_ensure list_by_video_def wp_bnd
  by (rule wp_mono [OF wp_detail]) (simp_all add: wp_stmt)

lemma wp_send_danmaku:
  "wp (send_danmaku detail acc name vid raw offset) (\<lambda>row w'. may_see (tabs w) acc vid \<and> 0 \<le> offset \<and> offset \<le> MaxOffsetMs
     \<and> normalize_content raw = Inr (dk_content row) \<and> tabs w' = (tabs w)\<lparr>d_danmaku := d_danmaku (tabs w) @ [row]\<rparr>)
     (\<lambda>_ w'. tabs w' = tabs w) w"
proof -
  have "wp (bnd (detail acc vid) (\<lambda>_. create_danmaku r)) (\<lambda>row w'. may_see (tabs w) acc vid \<and> dk_content row = dk_content r
      \<and> tabs w' = (tabs w)\<lparr>d_danmaku := d_danmaku (tabs w) @ [row]\<rparr>) (\<lambda>_ w'. tabs w' = tabs w) w" for r
    unfolding wp_bnd create_danmaku_def by (rule wp_mono [OF wp_detail]) (simp_all add: wp_rules Let_def)
  note made = wp_mono [OF this]
  show ?thesis
    unfolding send_danmaku_def bnd_ensure wp_bnd [of "lift _"] wp_basic(3)
  proof (cases "normalize_content raw")
    case (Inr content)
    then show "case normalize_content raw of Inl e \<Rightarrow> tabs w = tabs w | Inr content \<Rightarrow>
        wp (fail_if (offset < 0 \<or> MaxOffsetMs < offset) ErrInvalidOffset (bnd (detail acc vid) (\<lambda>_. create_danmaku
          \<lparr>dk_id = 0, dk_video = vid, dk_author = acc, dk_username = trim_space name, dk_content = content, dk_offset = offset, dk_created = 0\<rparr>)))
        (\<lambda>row w'. may_see (tabs w) acc vid \<and> 0 \<le> offset \<and> offset \<le> MaxOffsetMs
           \<and> normalize_content raw = Inr (dk_content row) \<and> tabs w' = (tabs w)\<lparr>d_danmaku := d_danmaku (tabs w) @ [row]\<rparr>)
        (\<lambda>_ w'. tabs w' = tabs w) w"
      unfolding sum.case Inr wp_if by (auto simp: wp_basic(2) intro!: made)
  qed simp
qed

text \<open>Saving progress: nothing is saved for a video the account may not see. The row may be saved although the
  answer is an error, when the card of the item cannot be read.\<close>

definition upserted :: "nat \<Rightarrow> nat \<Rightarrow> int \<Rightarrow> int \<Rightarrow> db world \<Rightarrow> db world \<Rightarrow> bool" where
  "upserted acc vid position_ms duration w w' \<longleftrightarrow> may_see (tabs w) acc vid \<and> 0 \<le> position_ms \<and> position_ms \<le> MaxOffsetMs
     \<and> 0 \<le> duration \<and> duration \<le> MaxOffsetMs \<and> ShouldPersist (clamp_position position_ms duration) duration
     \<and> (\<exists>i now. seqs w WatchHistories < i \<and> i \<le> seqs w' WatchHistories
          \<and> tabs w' = saved_row i (watch_row acc vid (clamp_position position_ms duration) duration now) (tabs w))"

lemma wp_item: "wp (item_from_row detail acc r) (\<lambda>_ w'. tabs w' = tabs w \<and> (\<forall>t. seqs w t \<le> seqs w' t))
    (\<lambda>_ w'. tabs w' = tabs w \<and> (\<forall>t. seqs w t \<le> seqs w' t)) w"
proof -
  have "steps (frame (\<lambda>d. d)) (item_from_row detail acc r)" unfolding item_from_row_def by (intro rel_rules frame_detail)
  then show ?thesis by (intro wpI) (blast dest: reads_same)+
qed

lemma wp_upsert_row: "wp (upsert_row row) (\<lambda>_ w'. tabs w' = saved_row (Suc (seqs w WatchHistories)) row (tabs w)
    \<and> seqs w' WatchHistories = Suc (seqs w WatchHistories)) (\<lambda>_ w'. tabs w' = tabs w) w"
  by (simp add: upsert_row_def saved_row_def wp_rules Let_def)

lemma wp_upsert:
  "wp (upsert detail acc vid position_ms duration) (\<lambda>r w'. if r = None then tabs w' = tabs w else upserted acc vid position_ms duration w w')
     (\<lambda>_ w'. tabs w' = tabs w \<or> upserted acc vid position_ms duration w w') w"
proof (cases "vid = 0 \<or> position_ms < 0 \<or> duration < 0 \<or> MaxOffsetMs < position_ms \<or> MaxOffsetMs < duration")
  case True
  then show ?thesis by (auto simp: upsert_def wp_basic)
next
  case False
  let ?p = "clamp_position position_ms duration" and ?U = "upserted acc vid position_ms duration w"
  let ?row = "watch_row acc vid ?p duration"
  have rest: "wp (bnd (item_from_row detail acc (?row now)) (\<lambda>item. ret (Some item))) (\<lambda>r x. r \<noteq> None \<and> ?U x) (\<lambda>_. ?U) u" if "?U u" for u now
  proof -
    have "?U x" if "tabs x = tabs u" "\<forall>t. seqs u t \<le> seqs x t" for x :: "db world"
      using \<open>?U u\<close> that order_trans [of _ "seqs u WatchHistories" "seqs x WatchHistories"] unfolding upserted_def by metis
    then show ?thesis unfolding wp_bnd wp_basic by (intro wp_mono [OF wp_item]) simp_all
  qed
  have save: "wp (bnd (upsert_row (?row now)) (\<lambda>_. bnd (item_from_row detail acc (?row now)) (\<lambda>item. ret (Some item))))
      (\<lambda>r x. r \<noteq> None \<and> ?U x) (\<lambda>_ x. tabs x = tabs w \<or> ?U x) v"
    if v: "tabs v = tabs w" "seqs w WatchHistories \<le> seqs v WatchHistories" "may_see (tabs w) acc vid" "ShouldPersist ?p duration" for v now
  proof -
    have "?U x" if "tabs x = saved_row (Suc (seqs v WatchHistories)) (?row now) (tabs v)" "seqs x WatchHistories = Suc (seqs v WatchHistories)"
      for x :: "db world"
      using False v that unfolding upserted_def by (intro conjI exI [of _ "Suc (seqs v WatchHistories)"] exI [of _ now]) auto
    then show ?thesis
      unfolding wp_bnd [of "upsert_row _"] by (intro wp_mono [OF wp_upsert_row] wp_mono [OF rest]) (auto simp: v(1))
  qed
  have "wp (detail acc vid) (\<lambda>_ w'. (tabs w' = tabs w \<and> may_see (tabs w) acc vid) \<and> (\<forall>t. seqs w t \<le> seqs w' t))
      (\<lambda>_ w'. tabs w' = tabs w) w"
    by (rule wpI) (use reads_same [OF reads] sees in blast)+
  then have "wp (bnd (detail acc vid) (\<lambda>_. if \<not> ShouldPersist ?p duration then ret None else
      bnd read_now (\<lambda>now. bnd (upsert_row (?row now)) (\<lambda>_. bnd (item_from_row detail acc (?row now)) (\<lambda>item. ret (Some item))))))
      (\<lambda>r w'. if r = None then tabs w' = tabs w else ?U w') (\<lambda>_ w'. tabs w' = tabs w \<or> ?U w') w"
    unfolding wp_bnd [of "detail _ _"] by (rule wp_mono) (auto simp: wp_bnd [of read_now] wp_basic intro!: wp_mono [OF save])
  moreover have "(vid = 0) = False"
    "(position_ms < 0 \<or> duration < 0 \<or> MaxOffsetMs < position_ms \<or> MaxOffsetMs < duration) = False" using False by auto
  ultimately show ?thesis by (simp only: upsert_def Let_def if_False)
qed

end


section \<open>The videos\<close>

definition video_detail :: "video_svc \<Rightarrow> (nat \<Rightarrow> int option) \<Rightarrow> caches \<Rightarrow> nat \<Rightarrow> nat \<Rightarrow> video op" where
  "video_detail s scores c viewer i w = (case get_detail s scores viewer i c w of (r, _, w') \<Rightarrow> (r, w'))"

text \<open>Who may see a video, as far as the caches agree with the table.\<close>

definition may_watch :: "video_svc \<Rightarrow> caches \<Rightarrow> db \<Rightarrow> nat \<Rightarrow> nat \<Rightarrow> bool" where
  "may_watch s c d viewer i \<longleftrightarrow> (coherent s c (d_videos d) \<longrightarrow> detail_of s viewer i (d_videos d) \<noteq> None)"

interpretation watched: video_pages "video_detail s scores c" "may_watch s c" for s scores c
proof
  show "steps (frame (\<lambda>d. d)) (video_detail s scores c viewer i)" for viewer i
  proof -
    have "frame (\<lambda>d. d) w (snd (video_detail s scores c viewer i w))" for w
    proof (cases "get_detail s scores viewer i c w")
      case (fields r c' w')
      have "steps (frame (\<lambda>d. d)) (video_by_id i)" by (rule frame_video_by_id)
      with get_detail_world [OF fields] fields show ?thesis by (auto simp: video_detail_def steps_def)
    qed
    then show ?thesis by (simp add: steps_def)
  qed
  show "may_watch s c (tabs w) viewer i" if "video_detail s scores c viewer i w = (Inr v, w')" for viewer i w v w'
  proof (cases "get_detail s scores viewer i c w")
    case (fields r c' u)
    then have "r = Inr v" using that by (simp add: video_detail_def)
    with fields detail_transparent [of s c w scores viewer i r c' u] show ?thesis by (auto simp: may_watch_def)
  qed
qed

lemma may_watch_video:
  assumes "may_watch s c d viewer i" "coherent s c (d_videos d)"
  shows "\<exists>v \<in> set (d_videos d). vid_id v = i \<and> visible_to v viewer"
  using assms find_Some_in [of "\<lambda>v. vid_id v = i" "d_videos d"]
  by (auto simp: may_watch_def detail_of_def split: option.splits if_splits)

text \<open>C37 Danmaku and watch history do not leak: while the caches agree with the table, whoever gets the danmaku of
  a video, sends one or has progress saved can see the video, that is, it is publicly listed or it is his own
  and not deleted.\<close>

theorem watching_needs_sight:
  assumes "coherent s c (d_videos (tabs w))"
    "list_danmaku (video_detail s scores c) acc vid w = (Inr rows, w')
     \<or> send_danmaku (video_detail s scores c) acc name vid raw offset w = (Inr row, w')
     \<or> upsert (video_detail s scores c) acc vid position duration w = (Inr (Some item), w')"
  shows "\<exists>v \<in> set (d_videos (tabs w)). vid_id v = vid \<and> \<not> IsDeleted v \<and> (IsPubliclyListed v \<or> vid_author v = acc)"
proof -
  have "may_watch s c (tabs w) acc vid"
    using assms(2) wp_ok [OF watched.wp_list_danmaku] wp_ok [OF watched.wp_send_danmaku] wp_ok [OF watched.wp_upsert]
    unfolding watched.upserted_def by (elim disjE) force+
  from may_watch_video [OF this assms(1)] show ?thesis by (auto simp: visible_to_def)
qed

section \<open>What the history holds\<close>

text \<open>A row keeps where to resume, or that the video was watched to its end.\<close>

definition progress_ok :: "watch_history \<Rightarrow> bool" where
  "progress_ok r \<longleftrightarrow> 0 \<le> wh_duration r \<and> wh_duration r \<le> MaxOffsetMs
     \<and> (if wh_completed r then wh_position r = 0
        else ShouldPersist (wh_position r) (wh_duration r) \<and> \<not> IsCompleted (wh_position r) (wh_duration r)
          \<and> wh_position r \<le> MaxOffsetMs \<and> (0 < wh_duration r \<longrightarrow> wh_position r \<le> wh_duration r))"

definition watched_ok :: "(table \<Rightarrow> nat) \<Rightarrow> watch_history list \<Rightarrow> bool" where
  "watched_ok q rows \<longleftrightarrow> distinct (map (\<lambda>r. (wh_account r, wh_video r)) rows) \<and> distinct (map wh_id rows)
     \<and> (\<forall>r \<in> set rows. 0 < wh_id r \<and> wh_id r \<le> q WatchHistories \<and> progress_ok r)"

interpretation watch_rows: table_inv d_watched watched_ok "\<lambda>_ _. True"
  by unfold_locales (auto simp: watched_ok_def intro: order_trans)

lemma watch_row_ok:
  assumes "0 \<le> p" "p \<le> MaxOffsetMs" "0 \<le> u" "u \<le> MaxOffsetMs" "ShouldPersist (clamp_position p u) u"
  shows "progress_ok (watch_row acc vid (clamp_position p u) u now)"
  using assms by (auto simp: progress_ok_def watch_row_def clamp_position_def)

lemma saved_row_ok:
  assumes "watched_ok q (d_watched d)" "q WatchHistories < i" "i \<le> q' WatchHistories" "progress_ok row"
  shows "watched_ok q' (d_watched (saved_row i row d))"
proof (cases "\<exists>r \<in> set (d_watched d). watch_of (wh_account row) (wh_video row) r")
  case True
  let ?f = "\<lambda>r. if watch_of (wh_account row) (wh_video row) r then overwrite row r else r"
  have f: "wh_account (?f r) = wh_account r" "wh_video (?f r) = wh_video r" "wh_id (?f r) = wh_id r"
    "progress_ok r \<Longrightarrow> progress_ok (?f r)" for r using assms(4) by (simp_all add: progress_ok_def overwrite_def)
  have "d_watched (saved_row i row d) = map ?f (d_watched d)" using True by (simp add: saved_row_def update_where_def)
  moreover have "map (\<lambda>r. (wh_account r, wh_video r)) (map ?f rs) = map (\<lambda>r. (wh_account r, wh_video r)) rs"
    "map wh_id (map ?f rs) = map wh_id rs" for rs by (simp_all only: list.map_comp o_def f)
  moreover have "0 < wh_id (?f r) \<and> wh_id (?f r) \<le> q' WatchHistories \<and> progress_ok (?f r)" if "r \<in> set (d_watched d)" for r
    using assms(1-3) that f(4) unfolding f(3) watched_ok_def by force
  ultimately show ?thesis using assms(1) unfolding watched_ok_def by (metis (no_types, lifting) imageE set_map)
next
  case False
  moreover from this have "(wh_account row, wh_video row) \<notin> set (map (\<lambda>r. (wh_account r, wh_video r)) (d_watched d))"
    by (auto simp: watch_of_def)
  moreover have "i \<notin> set (map wh_id (d_watched d))" using assms(1,2) by (fastforce simp: watched_ok_def)
  moreover have "progress_ok (row\<lparr>wh_id := i\<rparr>)" using assms(4) by (simp add: progress_ok_def)
  ultimately show ?thesis using assms(1-3) by (fastforce simp: watched_ok_def saved_row_def)
qed

text \<open>Anybody saves progress, whatever the caches hold; nothing else writes the table.\<close>

inductive watch_moves :: "db world \<Rightarrow> db world \<Rightarrow> bool" where
  saved: "watch_moves w (snd (upsert (video_detail s scores c) acc vid position duration w))"
| other: "d_watched (tabs w') = d_watched (tabs w) \<Longrightarrow> (\<And>t. seqs w t \<le> seqs w' t) \<Longrightarrow> watch_moves w w'"

abbreviation watch_runs :: "db world \<Rightarrow> db world \<Rightarrow> bool" where
  "watch_runs \<equiv> watch_moves\<^sup>*\<^sup>*"

lemma frame_upsert: "steps grows (upsert (video_detail s scores c) acc vid position duration)"
  unfolding upsert_def upsert_row_def item_from_row_def Let_def by (intro rel_rules watched.frame_detail; simp)

lemma upserted_ok: "watched.upserted s c acc vid p u w w' \<Longrightarrow> holds d_watched watched_ok w \<Longrightarrow> holds d_watched watched_ok w'"
  unfolding watched.upserted_def holds_def by (auto intro!: saved_row_ok watch_row_ok)

lemma upsert_keeps: "steps (keeps d_watched watched_ok (\<lambda>_ _. True)) (upsert (video_detail s scores c) acc vid position duration)"
proof (rule watch_rows.always [OF _ frame_upsert])
  fix w :: "db world" assume J: "holds d_watched watched_ok w"
  let ?m = "upsert (video_detail s scores c) acc vid position duration"
  have ok: "holds d_watched watched_ok x" if "?m w = (r, x)" "tabs x = tabs w \<or> watched.upserted s c acc vid position duration w x" for r x
  proof -
    have "tabs x = tabs w \<Longrightarrow> holds d_watched watched_ok x"
      using watch_rows.holds_env [of x w] steps_seqsD [OF frame_upsert that(1)] J by blast
    with that(2) upserted_ok J show ?thesis by blast
  qed
  show "wp ?m (\<lambda>_ w'. holds d_watched watched_ok w' \<and> True) (\<lambda>_ w'. holds d_watched watched_ok w' \<and> True) w"
  proof (rule wpI)
    show "holds d_watched watched_ok w' \<and> True" if "?m w = (Inr x, w')" for x w'
      using ok [OF that] wp_ok [OF watched.wp_upsert that] by (auto split: if_splits)
    show "holds d_watched watched_ok w' \<and> True" if "?m w = (Inl e, w')" for e w'
      using ok [OF that] wp_err [OF watched.wp_upsert that] by blast
  qed
qed

lemma watch_runs_ok: "watch_runs w w' \<Longrightarrow> holds d_watched watched_ok w \<Longrightarrow> holds d_watched watched_ok w'"
proof (induction rule: rtranclp_induct)
  case (step u v)
  from step.hyps(2) show ?case
  proof cases
    case (saved s scores c acc vid position duration)
    then show ?thesis using watch_rows.afterwards [OF upsert_keeps] step.IH step.prems by (metis prod.collapse)
  next
    case other
    then show ?thesis using step.IH step.prems watch_rows.mono [of "seqs u" "d_watched (tabs u)" "seqs v"] by (simp add: holds_def)
  qed
qed

lemma resume_bounds: "ResumeMs p u full \<noteq> 0 \<Longrightarrow> \<not> full \<and> ResumeMinMs \<le> ResumeMs p u full
    \<and> (0 < u \<longrightarrow> ResumeMs p u full + CompleteRemainMs < u \<and> 20 * ResumeMs p u full < 19 * u)"
  by (auto simp: ResumeMs_def ShouldResume_def IsCompleted_def ResumeMinMs_def split: if_splits)

text \<open>C36 However often progress is saved, an account has one row per video, and the row says either that the
  video was watched to its end, with the position reset, or a position worth resuming at: inside the video, not within
  its last two seconds or five percent. What the answer offers to resume at is never one of those either.\<close>

theorem history_sound:
  assumes "watch_runs w w'" "d_watched (tabs w) = []"
  shows "distinct (map (\<lambda>r. (wh_account r, wh_video r)) (d_watched (tabs w')))
    \<and> (\<forall>r \<in> set (d_watched (tabs w')). progress_ok r
        \<and> (let resume = ResumeMs (wh_position r) (wh_duration r) (wh_completed r) in
           resume \<noteq> 0 \<longrightarrow> \<not> wh_completed r \<and> ResumeMinMs \<le> resume
             \<and> (0 < wh_duration r \<longrightarrow> resume + CompleteRemainMs < wh_duration r \<and> 20 * resume < 19 * wh_duration r)))"
proof -
  have "holds d_watched watched_ok w" unfolding holds_def assms(2) by (simp add: watched_ok_def)
  then have "holds d_watched watched_ok w'" by (rule watch_runs_ok [OF assms(1)])
  then have "distinct (map (\<lambda>r. (wh_account r, wh_video r)) (d_watched (tabs w')))" "\<forall>r \<in> set (d_watched (tabs w')). progress_ok r"
    unfolding holds_def watched_ok_def by blast+
  then show ?thesis unfolding Let_def using resume_bounds by blast
qed

section \<open>Witnesses\<close>

definition demo_watched :: "watch_history list" where
  "demo_watched = [(watch_row 7 1 4000 0 5000000)\<lparr>wh_id := 1\<rparr>, (watch_row 7 2 4000 0 9000000)\<lparr>wh_id := 2\<rparr>,
     (watch_row 7 3 4000 0 9000000)\<lparr>wh_id := 3\<rparr>]"


lemma page_seen: "video_detail page_service (\<lambda>_. None) warm_caches 7 1 page_world = (Inr page_video, page_world)"
proof -
  have "fst (video_detail page_service (\<lambda>_. None) warm_caches 7 1 page_world) = Inr page_video"
    by (simp add: video_detail_def page_defs warm_caches_def page_video_def page_playable) (simp add: demo_row_def)
  moreover have "snd (video_detail page_service (\<lambda>_. None) warm_caches 7 1 page_world) = page_world"
    by (simp add: video_detail_def page_defs warm_caches_def page_video_def page_playable)
  ultimately show ?thesis by (metis prod.collapse)
qed

lemma page_start: "faults page_world n = False" "d_watched (tabs page_world) = []" "d_danmaku (tabs page_world) = []"
  by (simp_all add: page_world_def quiet_world_def empty_db_def)

lemma page_watched: "\<exists>w'. list_danmaku (video_detail page_service (\<lambda>_. None) warm_caches) 7 1 page_world = (Inr [], w')"
  by (simp add: list_danmaku_def watched.bnd_ensure bnd_def page_seen [unfolded One_nat_def] list_by_video_def query_def page_start)

lemma page_saved: "\<exists>r. d_watched (tabs (snd (upsert (video_detail page_service (\<lambda>_. None) warm_caches) 7 1 4000 0 page_world))) = [r]
    \<and> wh_position r = 4000"
proof -
  let ?d = "video_detail page_service (\<lambda>_. None) warm_caches"
  have same: "tabs w' = tabs w" if "item_from_row ?d 7 r w = (e, w')" for r w e w'
  proof -
    have "steps (frame (\<lambda>d. d)) (item_from_row ?d 7 r)" unfolding item_from_row_def by (intro rel_rules watched.frame_detail)
    from stepsD [OF this that] show ?thesis .
  qed
  show ?thesis
    by (auto simp: upsert_def MaxOffsetMs_def bnd_def page_seen [unfolded One_nat_def] page_start clamp_position_def ShouldPersist_def
        MinPersistMs_def read_now_def upsert_row_def create_def ret_def watch_row_def IsCompleted_def Let_def
        dest!: same split: prod.split sum.split)
qed

theorem watching_needs_sight_witness:
  "\<exists>v \<in> set (d_videos (tabs page_world)). vid_id v = 1 \<and> \<not> IsDeleted v \<and> (IsPubliclyListed v \<or> vid_author v = 7)"
proof -
  obtain w' where "list_danmaku (video_detail page_service (\<lambda>_. None) warm_caches) 7 1 page_world = (Inr [], w')"
    using page_watched by blast
  with watching_needs_sight [OF page_coherent, of _ _ 7 1 "[]" w'] show ?thesis by blast
qed

theorem history_sound_witness:
  "\<exists>w' r. watch_runs page_world w' \<and> d_watched (tabs w') = [r] \<and> wh_position r = 4000 \<and> progress_ok r"
proof -
  let ?w = "snd (upsert (video_detail page_service (\<lambda>_. None) warm_caches) 7 1 4000 0 page_world)"
  have run: "watch_runs page_world ?w" by (rule r_into_rtranclp) (rule watch_moves.saved)
  obtain r where r: "d_watched (tabs ?w) = [r]" "wh_position r = 4000" using page_saved by blast
  from history_sound [OF run page_start(2)] have "progress_ok r" unfolding r(1) by simp
  with run r show ?thesis by blast
qed

end
