(* ===== verification/Spec2Isabelle.thy ===== *)
theory Spec2Isabelle
  imports Invoice_Properties Share_Code Site Reports Direct_Messages Watching
begin

text \<open>
  A model of the backend of the feed system (\<open>src/backend/internal\<close>, in Go).
\<close>

end
